(* ===== verification/Kernel_Prelude.thy ===== *)
theory Kernel_Prelude
  imports Main "HOL-Library.Word" "HOL-Library.Monad_Syntax"
begin

text \<open>
  Shared vocabulary of the zKernel model: machine integers at the widths of
  \<^verbatim>\<open>include/kernel/types.h\<close>, the constants of \<^verbatim>\<open>arch/mmu.h\<close> and \<^verbatim>\<open>kernel/errno.h\<close>, spin
  locks, and the generic lemmas on lists, options and words that the components use.

  A function that may not return is modelled with \<open>option\<close>: \<open>None\<close> stands for
  \<^verbatim>\<open>kernel_panic\<close> (which spins for ever), for spinning on a lock this CPU already holds, and
  for a dereference of a pointer that designates no object. Every other outcome is \<open>Some\<close>.
\<close>

unbundle bit_operations_syntax

named_theorems word_unat \<open>unsigned readings of word expressions that do not overflow\<close>
named_theorems klist_simps \<open>list view of the intrusive kernel lists\<close>

section \<open>Machine integers\<close>

type_synonym u8 = "8 word"
type_synonym u16 = "16 word"
type_synonym u32 = "32 word"
type_synonym u64 = "64 word"

text \<open>Addresses (\<^verbatim>\<open>uintptr_t\<close>, \<^verbatim>\<open>paddr_t\<close>, \<^verbatim>\<open>vaddr_t\<close> and C pointers) are 32-bit words.\<close>

type_synonym ptr = "u32"

abbreviation (input) NULL :: ptr where "NULL \<equiv> 0"

definition PAGE_SIZE :: u32 where "PAGE_SIZE = 0x1000"

definition USER_BEGIN :: u32 where "USER_BEGIN = 0x1000"

definition KERNEL_BEGIN :: u32 where "KERNEL_BEGIN = 0xC0000000"

definition KERNEL_EXTRA_PT_COUNT :: u32 where
  "KERNEL_EXTRA_PT_COUNT = (0x80000 - 0x2000) div PAGE_SIZE"

definition KERNEL_EXHEAP_START :: u32 where "KERNEL_EXHEAP_START = 0xC0400000"

definition KERNEL_EXHEAP_END :: u32 where
  "KERNEL_EXHEAP_END = KERNEL_BEGIN + KERNEL_EXTRA_PT_COUNT * 4 * (1024 * 1024)"

definition KERNEL_EXHEAP_SIZE :: u32 where
  "KERNEL_EXHEAP_SIZE = KERNEL_EXHEAP_END - KERNEL_EXHEAP_START"

text \<open>The macro \<^verbatim>\<open>align(data, a)\<close> of \<^verbatim>\<open>kernel/zos.h\<close>.\<close>

definition align :: "u32 \<Rightarrow> u32 \<Rightarrow> u32" where
  "align data a = (data + a - 1) AND NOT (a - 1)"

section \<open>Error codes\<close>

definition EPERM :: int where "EPERM = 1"
definition ENOENT :: int where "ENOENT = 2"
definition EBADF :: int where "EBADF = 9"
definition ECHILD :: int where "ECHILD = 10"
definition EAGAIN :: int where "EAGAIN = 11"
definition ENOMEM :: int where "ENOMEM = 12"
definition EACCES :: int where "EACCES = 13"
definition EFAULT :: int where "EFAULT = 14"
definition EBUSY :: int where "EBUSY = 16"
definition EEXIST :: int where "EEXIST = 17"
definition ENODEV :: int where "ENODEV = 19"
definition EINVAL :: int where "EINVAL = 22"
definition EMFILE :: int where "EMFILE = 24"
definition ENOSYS :: int where "ENOSYS = 38"
definition EBADE :: int where "EBADE = 52"
definition ELIBBAD :: int where "ELIBBAD = 80"

lemmas errno_defs =
  EPERM_def ENOENT_def EBADF_def ECHILD_def EAGAIN_def ENOMEM_def EACCES_def EFAULT_def
  EBUSY_def EEXIST_def ENODEV_def EINVAL_def EMFILE_def ENOSYS_def EBADE_def ELIBBAD_def

section \<open>Boot information\<close>

text \<open>The arrays of \<^verbatim>\<open>struct boot_info\<close> with their counts are lists.\<close>

record boot_seg =
  seg_start :: u64
  seg_size :: u64

record boot_modules =
  mod_args :: ptr
  mod_start :: ptr
  mod_size :: u32

record boot_info =
  segs :: "boot_seg list"
  mods :: "boot_modules list"
  heap_start :: ptr
  heap_size :: u64

section \<open>Spin locks\<close>

text \<open>
  The kernel runs on one CPU (\<^verbatim>\<open>CPU_COUNT\<close> is 1 in \<^verbatim>\<open>kernel/cpu.h\<close>) and \<^verbatim>\<open>spinlock_lock\<close>
  disables interrupts before it spins, so locking a lock that is already held never ends.
\<close>

type_synonym spinlock = bool

definition spinlock_init :: spinlock where "spinlock_init = False"

definition spinlock_lock :: "spinlock \<Rightarrow> spinlock option" where
  "spinlock_lock held = (if held then None else Some True)"

definition spinlock_unlock :: "spinlock \<Rightarrow> spinlock" where
  "spinlock_unlock held = False"

lemmas spinlock_defs = spinlock_init_def spinlock_lock_def spinlock_unlock_def

section \<open>Options as computations that may not return\<close>

lemma bind_Some_conv [simp]: "Option.bind (Some x) f = f x"
  by simp

lemma bind_eq_Some_iff: "Option.bind m f = Some y \<longleftrightarrow> (\<exists>x. m = Some x \<and> f x = Some y)"
  by (cases m) auto

lemma bind_SomeE:
  assumes "Option.bind m f = Some y"
  obtains x where "m = Some x" and "f x = Some y"
  using assms by (cases m) auto

lemma bind_pairE:
  assumes "Option.bind m (\<lambda>(x, y). f x y) = Some z"
  obtains x y where "m = Some (x, y)" and "f x y = Some z"
  using assms by (cases m) auto

text \<open>A loop whose body may not return.\<close>

fun for_each :: "('a \<Rightarrow> 's \<Rightarrow> 's option) \<Rightarrow> 'a list \<Rightarrow> 's \<Rightarrow> 's option" where
  "for_each body [] s = Some s"
| "for_each body (x # xs) s = Option.bind (body x s) (for_each body xs)"

lemma for_each_append:
  "for_each body (xs @ ys) s = Option.bind (for_each body xs s) (for_each body ys)"
proof (induction xs arbitrary: s)
  case (Cons x xs)
  then show ?case by (cases "body x s") auto
qed simp

text \<open>An invariant that every round keeps is kept by the loop.\<close>

lemma for_each_inv:
  assumes "for_each body xs s = Some s'" and "P s"
    and "\<And>x s t. x \<in> set xs \<Longrightarrow> P s \<Longrightarrow> body x s = Some t \<Longrightarrow> P t"
  shows "P s'"
  using assms
proof (induction xs arbitrary: s)
  case (Cons x xs)
  then obtain t where t: "body x s = Some t" "for_each body xs t = Some s'"
    by (auto simp: bind_eq_Some_iff)
  have "P t" using Cons.prems(3) [OF _ Cons.prems(2) t(1)] by simp
  from Cons.IH [OF t(2) this] Cons.prems(3) show ?case by (meson list.set_intros(2))
qed simp

section \<open>Words that do not overflow\<close>

text \<open>
  \<open>fits b n\<close>: the area of \<open>n\<close> pages from address \<open>b\<close> ends below \<open>2 ^ 32\<close>, so that the
  expression \<^verbatim>\<open>b + n * PAGE_SIZE\<close> of the source does not wrap.
\<close>

definition fits :: "u32 \<Rightarrow> u32 \<Rightarrow> bool" where
  "fits b n \<longleftrightarrow> unat b + unat n * 4096 < 2 ^ 32"

definition span :: "u32 \<Rightarrow> u32 \<Rightarrow> nat set" where
  "span b n = {unat b ..< unat b + unat n * 4096}"

lemma unat_PAGE_SIZE [simp]: "unat PAGE_SIZE = 4096"
  by (simp add: PAGE_SIZE_def)

lemma unat_pages [word_unat]:
  assumes "fits b n"
  shows "unat (n * PAGE_SIZE) = unat n * 4096"
  using assms by (simp add: fits_def unat_word_ariths)

lemma unat_area_end [word_unat]:
  assumes "fits b n"
  shows "unat (b + n * PAGE_SIZE) = unat b + unat n * 4096"
  using assms by (simp add: fits_def unat_word_ariths)

lemma unat_minus_le [word_unat]:
  assumes "(b :: u32) \<le> a"
  shows "unat (a - b) = unat a - unat b"
  using assms by (simp add: unat_sub)

lemma unat_div_page [word_unat]: "unat ((x :: u32) div PAGE_SIZE) = unat x div 4096"
  by (simp add: unat_div)

lemma span_iff [simp]: "x \<in> span b n \<longleftrightarrow> unat b \<le> x \<and> x < unat b + unat n * 4096"
  by (simp add: span_def)

lemma finite_span [simp]: "finite (span b n)"
  by (simp add: span_def)

lemma card_span [simp]: "card (span b n) = unat n * 4096"
  by (simp add: span_def)

lemma span_empty_iff: "span b n = {} \<longleftrightarrow> n = 0"
  by (simp add: span_def unat_eq_0)

section \<open>Areas of pages\<close>

text \<open>
  Cutting an area of \<open>m\<close> pages at \<open>b\<close> around the \<open>n\<close> pages at \<open>addr\<close>, with the expressions that
  the sources use for the part before and the part after.
\<close>

abbreviation pages_before :: "u32 \<Rightarrow> u32 \<Rightarrow> u32" where
  "pages_before b addr \<equiv> (addr - b) div PAGE_SIZE"

abbreviation pages_after :: "u32 \<Rightarrow> u32 \<Rightarrow> u32 \<Rightarrow> u32 \<Rightarrow> u32" where
  "pages_after b m addr n \<equiv> m - (pages_before b addr + n)"

definition area_cut :: "u32 \<Rightarrow> u32 \<Rightarrow> u32 \<Rightarrow> u32 \<Rightarrow> bool" where
  "area_cut b m addr n \<longleftrightarrow> fits b m \<and> 4096 dvd unat b \<and> 4096 dvd unat addr \<and> b \<le> addr
     \<and> unat addr + unat n * 4096 \<le> unat b + unat m * 4096"

lemma before_pages:
  assumes "area_cut b m addr n"
  shows "unat (pages_before b addr) * 4096 = unat addr - unat b"
proof -
  have "unat (pages_before b addr) = (unat addr - unat b) div 4096"
    using assms by (simp add: word_unat area_cut_def)
  moreover have "4096 dvd unat addr - unat b" using assms by (simp add: area_cut_def)
  ultimately show ?thesis by simp
qed

lemma fits_new: "area_cut b m addr n \<Longrightarrow> fits addr n"
  by (simp add: fits_def area_cut_def)

lemmas end_new = unat_area_end [OF fits_new]

lemma after_pages:
  assumes cut: "area_cut b m addr n"
  shows "unat (pages_after b m addr n) * 4096 = unat b + unat m * 4096 - (unat addr + unat n * 4096)"
proof -
  have le: "unat b \<le> unat addr" and inside: "unat addr + unat n * 4096 \<le> unat b + unat m * 4096"
    using cut by (simp_all add: word_le_nat_alt area_cut_def)
  have sum: "(unat (pages_before b addr) + unat n) * 4096 \<le> unat m * 4096"
    using before_pages [OF cut] inside le by simp
  have "unat m < 2 ^ 32" using unsigned_less [of m, where ?'a = nat] by simp
  with sum have "unat (pages_before b addr + n) = unat (pages_before b addr) + unat n"
    by (simp add: unat_word_ariths)
  moreover from this sum have "pages_before b addr + n \<le> m" by (simp add: word_le_nat_alt)
  ultimately have "unat (pages_after b m addr n) = unat m - (unat (pages_before b addr) + unat n)"
    by (simp add: unat_minus_le)
  then have "unat (pages_after b m addr n) * 4096 = unat m * 4096 - (unat addr - unat b) - unat n * 4096"
    using before_pages [OF cut] by (simp add: algebra_simps diff_mult_distrib)
  then show ?thesis using le inside by simp
qed

lemma fits_parts:
  assumes "area_cut b m addr n"
  shows "fits b (pages_before b addr)" and "fits (addr + n * PAGE_SIZE) (pages_after b m addr n)"
  using before_pages [OF assms] after_pages [OF assms] end_new [OF assms] assms
  by (auto simp: fits_def word_le_nat_alt area_cut_def)

lemma aligned_end:
  assumes "area_cut b m addr n"
  shows "4096 dvd unat (addr + n * PAGE_SIZE)"
  using end_new [OF assms] assms by (simp add: area_cut_def)

lemma cut_span:
  assumes "area_cut b m addr n"
  shows "span b m = span b (pages_before b addr) \<union> span addr n
           \<union> span (addr + n * PAGE_SIZE) (pages_after b m addr n)"
  using before_pages [OF assms] after_pages [OF assms] end_new [OF assms] assms
  by (auto simp: span_def word_le_nat_alt area_cut_def)

lemma cut_disjoint:
  assumes "area_cut b m addr n"
  shows "span b (pages_before b addr) \<inter> span addr n = {}"
    and "span b (pages_before b addr) \<inter> span (addr + n * PAGE_SIZE) (pages_after b m addr n) = {}"
    and "span addr n \<inter> span (addr + n * PAGE_SIZE) (pages_after b m addr n) = {}"
  using before_pages [OF assms] after_pages [OF assms] end_new [OF assms] assms
  by (auto simp: span_def word_le_nat_alt area_cut_def)

lemma nothing_before:
  assumes "area_cut b m addr n" and "\<not> b < addr"
  shows "span b (pages_before b addr) = {}"
  using before_pages [OF assms(1)] assms(2) by (simp add: span_def word_less_nat_alt)

lemma nothing_after:
  assumes "area_cut b m addr n" and "\<not> addr + n * PAGE_SIZE < b + m * PAGE_SIZE"
  shows "span (addr + n * PAGE_SIZE) (pages_after b m addr n) = {}"
  using after_pages [OF assms(1)] end_new [OF assms(1)] unat_area_end [of b m] assms
  by (simp add: span_def word_less_nat_alt area_cut_def)

text \<open>Joining two areas that touch.\<close>

lemma area_join:
  assumes "fits b m" and "fits c n" and "b + m * PAGE_SIZE = c"
  shows "fits b (m + n)" and "span b (m + n) = span b m \<union> span c n" and "span b m \<inter> span c n = {}"
proof -
  have c: "unat c = unat b + unat m * 4096" using unat_area_end [OF assms(1)] assms(3) by simp
  with assms(2) have "unat b + (unat m + unat n) * 4096 < 2 ^ 32" by (simp add: fits_def)
  moreover from this have "unat (m + n) = unat m + unat n" by (simp add: unat_word_ariths)
  ultimately show "fits b (m + n)" and "span b (m + n) = span b m \<union> span c n"
    and "span b m \<inter> span c n = {}"
    using c by (auto simp: fits_def span_def)
qed

text \<open>A list of pairwise disjoint areas.\<close>

fun disjoint_areas :: "nat set list \<Rightarrow> bool" where
  "disjoint_areas [] \<longleftrightarrow> True"
| "disjoint_areas (A # As) \<longleftrightarrow> A \<inter> \<Union>(set As) = {} \<and> disjoint_areas As"

lemma disjoint_areas_append [simp]:
  "disjoint_areas (As @ Bs) \<longleftrightarrow>
     disjoint_areas As \<and> disjoint_areas Bs \<and> \<Union>(set As) \<inter> \<Union>(set Bs) = {}"
  by (induction As) auto

lemma disjoint_areas_replace:
  assumes "disjoint_areas (As @ A # Bs)" and "disjoint_areas Cs" and "\<Union>(set Cs) \<subseteq> A"
  shows "disjoint_areas (As @ Cs @ Bs)"
proof -
  have As: "\<Union>(set As) \<inter> (A \<union> \<Union>(set Bs)) = {}" and Bs: "A \<inter> \<Union>(set Bs) = {}"
    and d: "disjoint_areas As" "disjoint_areas Bs"
    using assms(1) by simp_all
  have "\<Union>(set As) \<inter> (\<Union>(set Cs) \<union> \<Union>(set Bs)) = {}" using As assms(3) by blast
  moreover have "\<Union>(set Cs) \<inter> \<Union>(set Bs) = {}" using Bs assms(3) by blast
  ultimately show ?thesis using d assms(2) by simp
qed

end
