(* ===== verification/KList.thy ===== *)
theory KList
  imports Kernel_Prelude
begin

text \<open>
  The intrusive circular doubly linked lists of \<^verbatim>\<open>include/kernel/klist.h\<close>, at the level of the
  \<open>prev\<close> and \<open>next\<close> pointers, and their refinement to HOL lists. A list element is
  identified with the address of its embedded \<^verbatim>\<open>struct klist\<close> (the macro \<^verbatim>\<open>klist_elem\<close> only
  subtracts the constant offset of that field). The other theories use the list view: the
  lemmas here show that each operation on the pointers is the corresponding operation on the
  list of elements, and that the two iteration macros visit exactly that list.
\<close>

section \<open>The pointer operations\<close>

record klist =
  kl_prev :: ptr
  kl_next :: ptr

type_synonym kmem = "ptr \<Rightarrow> klist"

definition set_prev :: "ptr \<Rightarrow> ptr \<Rightarrow> kmem \<Rightarrow> kmem" where
  "set_prev p v h = h(p := (h p)\<lparr>kl_prev := v\<rparr>)"

definition set_next :: "ptr \<Rightarrow> ptr \<Rightarrow> kmem \<Rightarrow> kmem" where
  "set_next p v h = h(p := (h p)\<lparr>kl_next := v\<rparr>)"

definition klist_head_init :: "ptr \<Rightarrow> kmem \<Rightarrow> kmem" where
  "klist_head_init name h = set_next name name (set_prev name name h)"

definition klist_empty :: "ptr \<Rightarrow> kmem \<Rightarrow> bool" where
  "klist_empty head h \<longleftrightarrow> kl_prev (h head) = head"

definition klist_add :: "ptr \<Rightarrow> ptr \<Rightarrow> kmem \<Rightarrow> kmem" where
  "klist_add insert_pt new h =
     (let h = set_prev new insert_pt h;
          h = set_next new (kl_next (h insert_pt)) h;
          h = set_prev (kl_next (h insert_pt)) new h
      in set_next insert_pt new h)"

definition klist_add_back :: "ptr \<Rightarrow> ptr \<Rightarrow> kmem \<Rightarrow> kmem" where
  "klist_add_back insert_pt new h =
     (let h = set_prev new (kl_prev (h insert_pt)) h;
          h = set_next new insert_pt h;
          h = set_next (kl_prev (h insert_pt)) new h
      in set_prev insert_pt new h)"

definition klist_del :: "ptr \<Rightarrow> kmem \<Rightarrow> kmem" where
  "klist_del elem h =
     (let h = (if kl_prev (h elem) \<noteq> NULL
               then set_next (kl_prev (h elem)) (kl_next (h elem)) h else h);
          h = (if kl_next (h elem) \<noteq> NULL
               then set_prev (kl_next (h elem)) (kl_prev (h elem)) h else h);
          h = set_prev elem NULL h
      in set_next elem NULL h)"

definition klist_first_elem :: "ptr \<Rightarrow> kmem \<Rightarrow> ptr" where
  "klist_first_elem head h =
     (if \<not> klist_empty (kl_next (h head)) h then kl_next (h head) else NULL)"

text \<open>
  The two iteration macros. The state \<open>s\<close> of the loop body contains the memory of list nodes
  (\<open>view s\<close>). \<^verbatim>\<open>klist_for_each\<close> saves the successor before it runs the body, and
  \<^verbatim>\<open>klist_for_each_elem\<close> reads it afterwards. Neither is known to end for arbitrary pointers.
\<close>

partial_function (option) klist_for_each_from ::
    "('s \<Rightarrow> kmem) \<Rightarrow> (ptr \<Rightarrow> 's \<Rightarrow> 's) \<Rightarrow> ptr \<Rightarrow> ptr \<Rightarrow> ptr \<Rightarrow> 's \<Rightarrow> 's option" where
  "klist_for_each_from view body head name nxt s =
     (if name = head then Some s
      else (let s' = body name s
            in klist_for_each_from view body head nxt (kl_next (view s' nxt)) s'))"

definition klist_for_each ::
    "('s \<Rightarrow> kmem) \<Rightarrow> ptr \<Rightarrow> (ptr \<Rightarrow> 's \<Rightarrow> 's) \<Rightarrow> 's \<Rightarrow> 's option" where
  "klist_for_each view head body s =
     (let name = kl_next (view s head)
      in klist_for_each_from view body head name (kl_next (view s name)) s)"

partial_function (option) klist_for_each_elem_from ::
    "('s \<Rightarrow> kmem) \<Rightarrow> (ptr \<Rightarrow> 's \<Rightarrow> 's) \<Rightarrow> ptr \<Rightarrow> ptr \<Rightarrow> 's \<Rightarrow> 's option" where
  "klist_for_each_elem_from view body head elem s =
     (if elem = head then Some s
      else (let s' = body elem s
            in klist_for_each_elem_from view body head (kl_next (view s' elem)) s'))"

definition klist_for_each_elem ::
    "('s \<Rightarrow> kmem) \<Rightarrow> ptr \<Rightarrow> (ptr \<Rightarrow> 's \<Rightarrow> 's) \<Rightarrow> 's \<Rightarrow> 's option" where
  "klist_for_each_elem view head body s =
     klist_for_each_elem_from view body head (kl_next (view s head)) s"

section \<open>Abstraction to lists\<close>

text \<open>\<open>kpath h a xs b\<close>: following \<open>next\<close> from \<open>a\<close> visits \<open>xs\<close> and reaches \<open>b\<close>, and the
  \<open>prev\<close> pointers lead back.\<close>

fun kpath :: "kmem \<Rightarrow> ptr \<Rightarrow> ptr list \<Rightarrow> ptr \<Rightarrow> bool" where
  "kpath h a [] b \<longleftrightarrow> kl_next (h a) = b \<and> kl_prev (h b) = a"
| "kpath h a (x # xs) b \<longleftrightarrow> kl_next (h a) = x \<and> kl_prev (h x) = a \<and> kpath h x xs b"

definition klist_rep :: "kmem \<Rightarrow> ptr \<Rightarrow> ptr list \<Rightarrow> bool" where
  "klist_rep h head xs \<longleftrightarrow> kpath h head xs head \<and> distinct (head # xs) \<and> NULL \<notin> set (head # xs)"

lemmas klist_op_defs =
  klist_head_init_def klist_empty_def klist_add_def klist_add_back_def klist_del_def
  klist_first_elem_def set_prev_def set_next_def

lemma kpath_append [simp]:
  "kpath h a (xs @ y # ys) b \<longleftrightarrow> kpath h a xs y \<and> kpath h y ys b"
  by (induction xs arbitrary: a) auto

lemma kpath_next: "kpath h a xs b \<Longrightarrow> kl_next (h a) = hd (xs @ [b])"
  by (cases xs) auto

lemma kpath_prev: "kpath h a xs b \<Longrightarrow> kl_prev (h b) = last (a # xs)"
  by (induction xs arbitrary: a) auto

text \<open>Writing links outside the part of the path that reads them changes nothing.\<close>

lemma kpath_cong:
  assumes "\<forall>x \<in> set (a # xs). kl_next (h' x) = kl_next (h x)"
    and "\<forall>x \<in> set (xs @ [b]). kl_prev (h' x) = kl_prev (h x)"
  shows "kpath h' a xs b = kpath h a xs b"
  using assms by (induction xs arbitrary: a) auto

lemma kpath_add_between:
  assumes "kpath h a [] b" and "n \<noteq> a" and "n \<noteq> b"
  shows "kpath (klist_add a n h) a [n] b"
  using assms by (auto simp: klist_op_defs Let_def)

lemma klist_add_other:
  assumes "x \<noteq> n" and "n \<noteq> a"
  shows "x \<noteq> a \<Longrightarrow> kl_next (klist_add a n h x) = kl_next (h x)"
    and "x \<noteq> kl_next (h a) \<Longrightarrow> kl_prev (klist_add a n h x) = kl_prev (h x)"
  using assms by (auto simp: klist_op_defs Let_def)


lemma kpath_insert_front:
  assumes "kpath h p ys q" and "n \<notin> set (p # ys @ [q])" and "distinct (ys @ [q])" and "p \<notin> set ys"
  shows "kpath (klist_add p n h) p (n # ys) q"
proof (cases ys)
  case Nil
  with assms show ?thesis using kpath_add_between [of h p q n] by auto
next
  case (Cons y zs)
  from assms Cons have "kl_next (h p) = y" and "kpath h y zs q" by auto
  moreover have "kpath (klist_add p n h) y zs q = kpath h y zs q"
    using assms Cons \<open>kl_next (h p) = y\<close>
    by (intro kpath_cong ballI klist_add_other) auto
  ultimately show ?thesis using assms Cons
    by (auto simp: klist_op_defs Let_def)
qed

lemma kpath_insert:
  assumes "kpath h p (xs @ ys) q" and "n \<notin> set (p # xs @ ys @ [q])"
    and "distinct (xs @ ys @ [q])" and "p \<notin> set (xs @ ys)"
  shows "kpath (klist_add (last (p # xs)) n h) p (xs @ n # ys) q"
proof (cases xs rule: rev_cases)
  case Nil
  with assms kpath_insert_front [of h p ys q n] show ?thesis by simp
next
  case (snoc us a)
  with assms have fst_part: "kpath h p us a" and snd_part: "kpath h a ys q" by auto
  have "kl_next (h a) = hd (ys @ [q])" using snd_part by (rule kpath_next)
  moreover have "hd (ys @ [q]) \<notin> set (us @ [a])" using assms(3) snoc by (cases ys) auto
  ultimately have "kpath (klist_add a n h) p us a = kpath h p us a"
    using assms snoc by (intro kpath_cong ballI klist_add_other) auto
  moreover have "kpath (klist_add a n h) a (n # ys) q"
    using snd_part assms snoc by (intro kpath_insert_front) auto
  ultimately show ?thesis using fst_part snoc by simp
qed

lemma klist_add_back_eq:
  assumes "kl_next (h (kl_prev (h ip))) = ip" and "n \<noteq> ip" and "n \<noteq> kl_prev (h ip)"
  shows "klist_add_back ip n h = klist_add (kl_prev (h ip)) n h"
  using assms by (auto simp: klist_op_defs Let_def fun_eq_iff)

lemma klist_del_links:
  assumes "kl_prev (h e) = a" and "kl_next (h e) = b" and "a \<noteq> NULL" and "b \<noteq> NULL"
    and "e \<noteq> a" and "e \<noteq> b"
  shows "kl_next (klist_del e h a) = b" and "kl_prev (klist_del e h b) = a"
    and "x \<noteq> a \<Longrightarrow> x \<noteq> e \<Longrightarrow> kl_next (klist_del e h x) = kl_next (h x)"
    and "x \<noteq> b \<Longrightarrow> x \<noteq> e \<Longrightarrow> kl_prev (klist_del e h x) = kl_prev (h x)"
  using assms by (auto simp: klist_op_defs Let_def)

lemma kpath_del:
  assumes "kpath h p (xs @ e # ys) q" and "distinct (xs @ e # ys @ [q])"
    and "p \<notin> set (xs @ e # ys)" and "NULL \<notin> set (p # xs @ e # ys @ [q])"
  shows "kpath (klist_del e h) p (xs @ ys) q"
proof -
  let ?a = "last (p # xs)" and ?b = "hd (ys @ [q])"
  from assms(1) have l: "kpath h p xs e" and r: "kpath h e ys q" by auto
  have a: "kl_prev (h e) = ?a" using l by (rule kpath_prev)
  have b: "kl_next (h e) = ?b" using r by (rule kpath_next)
  have ne: "?a \<noteq> NULL" "?b \<noteq> NULL" "e \<noteq> ?a" "e \<noteq> ?b"
    using assms(2-4) by (cases xs rule: rev_cases; cases ys; auto)+
  note links = klist_del_links [of h e ?a ?b, OF a b ne]
  have front: "kpath (klist_del e h) ?a ys q"
  proof (cases ys)
    case Nil
    with links(1,2) show ?thesis by simp
  next
    case (Cons y zs)
    have "kpath (klist_del e h) y zs q = kpath h y zs q"
      using assms(2-4) Cons
      by (intro kpath_cong ballI links(3,4)) (cases xs rule: rev_cases; auto)+
    with r links(1,2) Cons show ?thesis by auto
  qed
  show ?thesis
  proof (cases xs rule: rev_cases)
    case Nil
    with front show ?thesis by simp
  next
    case (snoc us a)
    have "kpath (klist_del e h) p us a = kpath h p us a"
      using assms(2-4) snoc
      by (intro kpath_cong ballI links(3,4)) (cases ys; auto)+
    with l front snoc show ?thesis by simp
  qed
qed


section \<open>Each operation is the list operation\<close>

lemma klist_rep_init: "head \<noteq> NULL \<Longrightarrow> klist_rep (klist_head_init head h) head []"
  by (simp add: klist_rep_def klist_op_defs)

lemma klist_rep_add_at:
  assumes "klist_rep h head (xs @ ys)" and "n \<notin> set (head # xs @ ys)" and "n \<noteq> NULL"
  shows "klist_rep (klist_add (last (head # xs)) n h) head (xs @ n # ys)"
  using assms kpath_insert [of h head xs ys head n]
  by (auto simp: klist_rep_def)

lemma klist_rep_add:
  assumes "klist_rep h head xs" and "n \<notin> set (head # xs)" and "n \<noteq> NULL"
  shows "klist_rep (klist_add head n h) head (n # xs)"
  using klist_rep_add_at [of h head "[]" xs n] assms by simp

lemma klist_rep_add_back_at:
  assumes rep: "klist_rep h head (xs @ ys)" and n: "n \<notin> set (head # xs @ ys)" "n \<noteq> NULL"
  shows "klist_rep (klist_add_back (hd (ys @ [head])) n h) head (xs @ n # ys)"
proof -
  let ?ip = "hd (ys @ [head])"
  have ip: "kl_prev (h ?ip) = last (head # xs) \<and> kl_next (h (last (head # xs))) = ?ip"
    using rep by (cases ys; cases xs rule: rev_cases)
      (auto simp: klist_rep_def dest: kpath_prev kpath_next)
  moreover have "n \<noteq> ?ip" and "n \<noteq> last (head # xs)"
    using n by (cases ys; cases xs rule: rev_cases; auto)+
  ultimately have "klist_add_back ?ip n h = klist_add (last (head # xs)) n h"
    using klist_add_back_eq [of h ?ip n] by simp
  with klist_rep_add_at [OF rep n] show ?thesis by simp
qed

lemma klist_rep_add_back:
  assumes "klist_rep h head xs" and "n \<notin> set (head # xs)" and "n \<noteq> NULL"
  shows "klist_rep (klist_add_back head n h) head (xs @ [n])"
  using klist_rep_add_back_at [of h head xs "[]" n] assms by simp

lemma klist_rep_del:
  assumes "klist_rep h head (xs @ e # ys)"
  shows "klist_rep (klist_del e h) head (xs @ ys)"
  using assms kpath_del [of h head xs e ys head] by (auto simp: klist_rep_def)

lemma klist_rep_remove1:
  assumes "klist_rep h head xs" and "e \<in> set xs"
  shows "klist_rep (klist_del e h) head (remove1 e xs)"
proof -
  from assms(2) obtain us vs where "xs = us @ e # vs" and "e \<notin> set us"
    by (meson split_list_first)
  then show ?thesis using klist_rep_del [of h head us e vs] assms(1)
    by (simp add: remove1_append)
qed

lemma klist_rep_empty: "klist_rep h head xs \<Longrightarrow> klist_empty head h \<longleftrightarrow> xs = []"
  by (cases xs rule: rev_cases)
    (auto simp: klist_rep_def klist_empty_def dest: kpath_prev)

lemma klist_rep_first:
  "klist_rep h head xs \<Longrightarrow> klist_first_elem head h = (case xs of [] \<Rightarrow> NULL | x # _ \<Rightarrow> x)"
  by (cases xs) (auto simp: klist_rep_def klist_first_elem_def klist_empty_def)

section \<open>Iteration\<close>

text \<open>The elements a deleting loop leaves on the list.\<close>

fun each_keep :: "(ptr \<Rightarrow> 's \<Rightarrow> bool) \<Rightarrow> (ptr \<Rightarrow> 's \<Rightarrow> 's) \<Rightarrow> ptr list \<Rightarrow> 's \<Rightarrow> ptr list" where
  "each_keep dl body [] s = []"
| "each_keep dl body (x # xs) s =
     (if dl x s then each_keep dl body xs (body x s) else x # each_keep dl body xs (body x s))"

lemma klist_for_each_from_step:
  assumes rep: "klist_rep (view s) head (ys @ xs)"
    and body: "\<And>x s. view (body x s) = (if dl x s then klist_del x (view s) else view s)"
  shows "klist_for_each_from view body head (hd (xs @ [head])) (hd (tl xs @ [head])) s
           = Some (fold body xs s)
       \<and> klist_rep (view (fold body xs s)) head (ys @ each_keep dl body xs s)"
  using rep
proof (induction xs arbitrary: ys s)
  case Nil
  then show ?case by (simp add: klist_for_each_from.simps)
next
  case (Cons x xs)
  let ?s = "body x s" and ?ys = "if dl x s then ys else ys @ [x]"
  have rep': "klist_rep (view ?s) head (?ys @ xs)"
    using Cons.prems klist_rep_del [of "view s" head ys x xs] by (simp add: body)
  have "hd (tl xs @ [head]) = kl_next (view ?s (hd xs))" if "xs \<noteq> []"
    using rep' that by (cases xs) (auto simp: klist_rep_def dest: kpath_next split: if_splits)
  then have "klist_for_each_from view body head (hd (xs @ [head])) (kl_next (view ?s (hd (xs @ [head])))) ?s
      = klist_for_each_from view body head (hd (xs @ [head])) (hd (tl xs @ [head])) ?s"
    by (cases xs) (auto simp: klist_for_each_from.simps)
  moreover have "x \<noteq> head" using Cons.prems by (auto simp: klist_rep_def)
  ultimately have "klist_for_each_from view body head x (hd (xs @ [head])) s
      = klist_for_each_from view body head (hd (xs @ [head])) (hd (tl xs @ [head])) ?s"
    by (subst klist_for_each_from.simps) (simp add: Let_def)
  with Cons.IH [OF rep'] show ?case by (simp split: if_splits)
qed

lemma klist_for_each_elem_from_step:
  assumes rep: "klist_rep (view s) head (ys @ xs)"
    and body: "\<And>x s. view (body x s) = view s"
  shows "klist_for_each_elem_from view body head (hd (xs @ [head])) s = Some (fold body xs s)"
  using rep
proof (induction xs arbitrary: ys s)
  case Nil
  then show ?case by (simp add: klist_for_each_elem_from.simps)
next
  case (Cons x xs)
  have "x \<noteq> head" using Cons.prems by (auto simp: klist_rep_def)
  moreover have "kl_next (view (body x s) x) = hd (xs @ [head])"
    using Cons.prems by (auto simp: klist_rep_def body dest: kpath_next)
  moreover have "klist_rep (view (body x s)) head ((ys @ [x]) @ xs)"
    using Cons.prems by (simp add: body)
  note Cons.IH [OF this]
  ultimately show ?case
    by (subst klist_for_each_elem_from.simps) (simp add: Let_def)
qed

text \<open>
  C29. The macro \<^verbatim>\<open>klist_for_each\<close> is safe under deletion of the current element: if the body
  either unlinks the element it is given or leaves the links alone, the loop ends, runs the
  body on every element of the list in order, and leaves exactly the elements it did not
  unlink.
\<close>
theorem klist_for_each_safe:
  assumes "klist_rep (view s) head xs"
    and "\<And>x s. view (body x s) = (if dl x s then klist_del x (view s) else view s)"
  shows "klist_for_each view head body s = Some (fold body xs s)
       \<and> klist_rep (view (fold body xs s)) head (each_keep dl body xs s)"
proof -
  have "kl_next (view s head) = hd (xs @ [head])"
    using assms(1) by (auto simp: klist_rep_def dest: kpath_next)
  moreover have "kl_next (view s (hd xs)) = hd (tl xs @ [head])" if "xs \<noteq> []"
    using assms(1) that by (cases xs) (auto simp: klist_rep_def dest: kpath_next)
  ultimately have "klist_for_each view head body s
      = klist_for_each_from view body head (hd (xs @ [head])) (hd (tl xs @ [head])) s"
    by (cases xs) (auto simp: klist_for_each_def klist_for_each_from.simps Let_def)
  with klist_for_each_from_step [of view s head "[]" xs body dl] assms show ?thesis by simp
qed


text \<open>The list with elements 16 and 32 whose head is at address 8.\<close>

definition klist_example :: kmem where
  "klist_example = klist_add 8 16 (klist_add 8 32 (klist_head_init 8 (\<lambda>_. \<lparr>kl_prev = NULL, kl_next = NULL\<rparr>)))"

lemma klist_example_rep: "klist_rep klist_example 8 [16, 32]"
  unfolding klist_example_def by (intro klist_rep_add klist_rep_init) simp_all

theorem klist_for_each_safe_witness:
  "klist_for_each id 8 (\<lambda>x h. if x = 16 then klist_del x h else h) klist_example
     = Some (klist_del 16 klist_example)
   \<and> klist_rep (klist_del 16 klist_example) 8 [32]"
  using klist_for_each_safe [where view = id and s = klist_example and head = 8
      and xs = "[16, 32]" and dl = "\<lambda>x _. x = 16"
      and body = "\<lambda>x h. if x = 16 then klist_del x h else h"] klist_example_rep
  by (simp add: id_def)

text \<open>
  C28. Every operation of \<^verbatim>\<open>klist.h\<close> refines the operation on the list of elements, which may be
  empty: a new head is the empty list; adding after the head or in front of it, to an empty list too; adding after or
  before a given element; unlinking an element, whose own links are null afterwards; testing for
  emptiness; and taking the first element, null for the empty list.
\<close>
theorem klist_refines_list:
  assumes "klist_rep h head zs" and "n \<notin> set (head # zs)" and "n \<noteq> NULL"
  shows "klist_rep (klist_head_init head h0) head []
       \<and> klist_rep (klist_add head n h) head (n # zs)
       \<and> klist_rep (klist_add_back head n h) head (zs @ [n])
       \<and> (\<forall>xs e ys. zs = xs @ e # ys \<longrightarrow>
            klist_rep (klist_add e n h) head (xs @ e # n # ys)
          \<and> klist_rep (klist_add (kl_prev (h e)) n h) head (xs @ n # e # ys)
          \<and> klist_rep (klist_add_back e n h) head (xs @ n # e # ys)
          \<and> klist_rep (klist_del e h) head (xs @ ys)
          \<and> klist_del e h e = \<lparr>kl_prev = NULL, kl_next = NULL\<rparr>)
       \<and> (klist_empty head h \<longleftrightarrow> zs = [])
       \<and> klist_first_elem head h = (if zs = [] then NULL else hd zs)"
proof (intro conjI allI impI)
  show "klist_rep (klist_head_init head h0) head []"
    using assms(1) by (intro klist_rep_init) (simp add: klist_rep_def)
  show "klist_rep (klist_add head n h) head (n # zs)" using klist_rep_add assms by blast
  show "klist_rep (klist_add_back head n h) head (zs @ [n])" using klist_rep_add_back [OF assms] .
  show "klist_empty head h \<longleftrightarrow> zs = []" using klist_rep_empty [OF assms(1)] .
  show "klist_first_elem head h = (if zs = [] then NULL else hd zs)"
    using klist_rep_first [OF assms(1)] by (cases zs) simp_all
next
  fix xs e ys
  assume zs: "zs = xs @ e # ys"
  show "klist_rep (klist_add e n h) head (xs @ e # n # ys)"
    using klist_rep_add_at [of h head "xs @ [e]" ys n] assms zs by simp
  have "kl_prev (h e) = last (head # xs)"
    using assms(1) zs by (auto simp: klist_rep_def dest: kpath_prev)
  then show "klist_rep (klist_add (kl_prev (h e)) n h) head (xs @ n # e # ys)"
    using klist_rep_add_at [of h head xs "e # ys" n] assms zs by simp
  show "klist_rep (klist_add_back e n h) head (xs @ n # e # ys)"
    using klist_rep_add_back_at [of h head xs "e # ys" n] assms zs by simp
  show "klist_rep (klist_del e h) head (xs @ ys)"
    using assms(1) zs by (auto intro: klist_rep_del)
  show "klist_del e h e = \<lparr>kl_prev = NULL, kl_next = NULL\<rparr>" by (simp add: klist_op_defs Let_def)
qed

theorem klist_refines_list_witness:
  "klist_rep (klist_del 16 klist_example) 8 [32]
   \<and> klist_rep (klist_add 16 64 klist_example) 8 [16, 64, 32]
   \<and> klist_rep (klist_add_back 8 64 (klist_head_init 8 klist_example)) 8 [64]
   \<and> klist_first_elem 8 (klist_head_init 8 klist_example) = NULL"
proof -
  have "klist_rep (klist_head_init 8 klist_example) 8 []" by (rule klist_rep_init) simp
  with klist_refines_list [of klist_example 8 "[16, 32]" 64] klist_example_rep
    klist_refines_list [of "klist_head_init 8 klist_example" 8 "[]" 64]
  show ?thesis by (simp del: append.simps add: append.simps(1)) (metis append.simps)
qed

section \<open>Linking an element twice\<close>

text \<open>
  \<open>knexts h a xs b\<close>: following \<open>next\<close> alone from \<open>a\<close> visits \<open>xs\<close> and reaches \<open>b\<close>. This is what the
  iteration macros see of links that are no longer those of a list.
\<close>

fun knexts :: "kmem \<Rightarrow> ptr \<Rightarrow> ptr list \<Rightarrow> ptr \<Rightarrow> bool" where
  "knexts h a [] b \<longleftrightarrow> kl_next (h a) = b"
| "knexts h a (x # xs) b \<longleftrightarrow> kl_next (h a) = x \<and> knexts h x xs b"

lemma knexts_append [simp]: "knexts h a (xs @ y # ys) b \<longleftrightarrow> knexts h a xs y \<and> knexts h y ys b"
  by (induction xs arbitrary: a) auto

lemma knexts_cong: "\<forall>x \<in> set (a # xs). kl_next (h' x) = kl_next (h x) \<Longrightarrow> knexts h' a xs b = knexts h a xs b"
  by (induction xs arbitrary: a) auto

lemma kpath_knexts: "kpath h a xs b \<Longrightarrow> knexts h a xs b"
  by (induction xs arbitrary: a) auto

lemma klist_for_each_knexts:
  assumes "knexts h head xs head" and "head \<notin> set xs" and "view s = h" and "\<And>x s. view (body x s) = view s"
  shows "klist_for_each view head body s = Some (fold body xs s)"
proof -
  have "klist_for_each_from view body head (kl_next (h a)) (kl_next (h (kl_next (h a)))) s = Some (fold body xs s)"
    if "knexts h a xs head" "head \<notin> set xs" "view s = h" for a s
    using that
  proof (induction xs arbitrary: a s)
    case Nil
    then show ?case by (simp add: klist_for_each_from.simps)
  next
    case (Cons x xs)
    have "view (body x s) = h" using Cons.prems assms(4) by simp
    with Cons.IH [of x "body x s"] Cons.prems show ?case
      by (subst klist_for_each_from.simps) (auto simp: Let_def)
  qed
  from this [of head s] assms show ?thesis by (simp add: klist_for_each_def Let_def)
qed

text \<open>
  Linking an element of a list once more at the back makes its \<open>next\<close> the head: the elements behind
  it are not reached any more.
\<close>

lemma klist_add_back_linked:
  assumes "klist_rep h head (us @ t # v # vs)"
  shows "knexts (klist_add_back head t h) head (us @ [t]) head"
proof -
  have d: "distinct (head # us @ t # v # vs)" and p: "kpath h head us t" "kpath h t (v # vs) head"
    using assms by (auto simp: klist_rep_def)
  have l: "kl_prev (h head) = last (v # vs)" using kpath_prev [OF p(2)] by simp
  have m: "last (v # vs) \<in> set (v # vs)" by (rule last_in_set) simp
  have "knexts (klist_add_back head t h) head us t = knexts h head us t"
    by (rule knexts_cong) (use d l m in \<open>auto simp: klist_op_defs Let_def\<close>)
  moreover have "kl_next (klist_add_back head t h t) = head"
    using d l m by (auto simp: klist_op_defs Let_def)
  ultimately show ?thesis using kpath_knexts [OF p(1)] by simp
qed

text \<open>The last element of a list becomes its own successor, and no walk ends.\<close>

lemma klist_add_back_last:
  assumes "klist_rep h head (us @ [t])"
  shows "kl_next (klist_add_back head t h t) = t" and "knexts (klist_add_back head t h) head us t"
proof -
  have d: "distinct (head # us @ [t])" and p: "kpath h head us t" "kl_prev (h head) = t"
    using assms by (auto simp: klist_rep_def)
  show "kl_next (klist_add_back head t h t) = t" using d p(2) by (auto simp: klist_op_defs Let_def)
  have "knexts (klist_add_back head t h) head us t = knexts h head us t"
    by (rule knexts_cong) (use d p(2) in \<open>auto simp: klist_op_defs Let_def\<close>)
  then show "knexts (klist_add_back head t h) head us t" using kpath_knexts [OF p(1)] by simp
qed

lemma klist_for_each_from_stuck:
  assumes "kl_next (h t) = t" and "t \<noteq> head" and "\<And>x s. view (body x s) = view s"
  shows "view s = h \<Longrightarrow> klist_for_each_from view body head t t s = None"
proof (rule ccontr)
  assume v: "view s = h" and "klist_for_each_from view body head t t s \<noteq> None"
  then obtain y where y: "klist_for_each_from view body head t t s = Some y" by blast
  have "\<not> (t = t \<and> t = t \<and> view s = h \<and> body = body \<and> view = view \<and> head = head)"
    by (rule klist_for_each_from.raw_induct [where P = "\<lambda>vw bd hd name nxt s y. \<not> (name = t \<and> nxt = t \<and> view s = h
        \<and> bd = body \<and> vw = view \<and> hd = head)", OF _ y])
      (use assms in \<open>auto simp: Let_def split: if_splits\<close>)
  with v show False by simp
qed

lemma klist_for_each_stuck:
  assumes "knexts h head us t" and "head \<notin> set (us @ [t])" and "kl_next (h t) = t"
    and "view s = h" and "\<And>x s. view (body x s) = view s"
  shows "klist_for_each view head body s = None"
proof -
  have "klist_for_each_from view body head (kl_next (h a)) (kl_next (h (kl_next (h a)))) s = None"
    if "knexts h a us t" "head \<notin> set us" "view s = h" for a s
    using that
  proof (induction us arbitrary: a s)
    case Nil
    then show ?case using klist_for_each_from_stuck [of h t head view body s] assms(2, 3, 5) by auto
  next
    case (Cons x xs)
    have "view (body x s) = h" using Cons.prems assms(5) by simp
    with Cons.IH [of x "body x s"] Cons.prems show ?case
      by (subst klist_for_each_from.simps) (auto simp: Let_def)
  qed
  from this [of head s] assms show ?thesis by (simp add: klist_for_each_def Let_def)
qed

section \<open>The interface of an intrusive queue\<close>

text \<open>
  The run queue, the wait queues and the message queues only add at the back and remove from
  the front. Their order is first in, first out.
\<close>

locale intrusive_queue =
  fixes rep :: "'h \<Rightarrow> 'p \<Rightarrow> 'p list \<Rightarrow> bool"
    and enq :: "'p \<Rightarrow> 'p \<Rightarrow> 'h \<Rightarrow> 'h"
    and del :: "'p \<Rightarrow> 'h \<Rightarrow> 'h"
    and valid :: "'p \<Rightarrow> bool"
  assumes rep_enq: "rep h q xs \<Longrightarrow> valid p \<Longrightarrow> p \<notin> set (q # xs) \<Longrightarrow> rep (enq q p h) q (xs @ [p])"
    and rep_del_first: "rep h q (p # xs) \<Longrightarrow> rep (del p h) q xs"
begin

lemma rep_enq_all:
  "rep h q xs \<Longrightarrow> distinct ps \<Longrightarrow> \<forall>p \<in> set ps. valid p \<and> p \<notin> set (q # xs)
   \<Longrightarrow> rep (fold (enq q) ps h) q (xs @ ps)"
proof (induction ps arbitrary: h xs)
  case Nil
  then show ?case by simp
next
  case (Cons p ps)
  then have "rep (enq q p h) q (xs @ [p])" by (intro rep_enq) auto
  then have "rep (fold (enq q) ps (enq q p h)) q ((xs @ [p]) @ ps)"
    using Cons.prems by (intro Cons.IH) auto
  then show ?case by simp
qed

lemma rep_drain: "rep h q (xs @ ys) \<Longrightarrow> rep (fold del xs h) q ys"
  by (induction xs arbitrary: h) (auto intro: rep_del_first)

lemma fifo:
  assumes "rep h q xs" and "distinct ps" and "\<forall>p \<in> set ps. valid p \<and> p \<notin> set (q # xs)"
  shows "rep (fold del xs (fold (enq q) ps h)) q ps"
  using rep_drain rep_enq_all [OF assms] by blast

end

interpretation kq: intrusive_queue klist_rep klist_add_back klist_del "\<lambda>p. p \<noteq> NULL"
  using klist_rep_del [where xs = "[]"]
  by unfold_locales (auto intro: klist_rep_add_back)

section \<open>List view with the structures the nodes are embedded in\<close>

text \<open>
  The components represent a kernel list as the list of its elements, each the pointer to the
  element and the structure it points to.
\<close>

fun klist_insert_after :: "ptr \<Rightarrow> ptr \<times> 'a \<Rightarrow> (ptr \<times> 'a) list \<Rightarrow> (ptr \<times> 'a) list" where
  "klist_insert_after p e [] = []"
| "klist_insert_after p e (x # xs) =
     (if fst x = p then x # e # xs else x # klist_insert_after p e xs)"

fun klist_insert_before :: "ptr \<Rightarrow> ptr \<times> 'a \<Rightarrow> (ptr \<times> 'a) list \<Rightarrow> (ptr \<times> 'a) list" where
  "klist_insert_before p e [] = []"
| "klist_insert_before p e (x # xs) =
     (if fst x = p then e # x # xs else x # klist_insert_before p e xs)"

fun klist_update :: "ptr \<Rightarrow> ('a \<Rightarrow> 'a) \<Rightarrow> (ptr \<times> 'a) list \<Rightarrow> (ptr \<times> 'a) list" where
  "klist_update p f [] = []"
| "klist_update p f (x # xs) = (if fst x = p then (fst x, f (snd x)) # xs else x # klist_update p f xs)"

fun klist_remove :: "ptr \<Rightarrow> (ptr \<times> 'a) list \<Rightarrow> (ptr \<times> 'a) list" where
  "klist_remove p [] = []"
| "klist_remove p (x # xs) = (if fst x = p then xs else x # klist_remove p xs)"

text \<open>The neighbours of an element, \<open>None\<close> where the neighbour is the list head.\<close>

fun klist_prev_elem :: "ptr \<Rightarrow> (ptr \<times> 'a) list \<Rightarrow> (ptr \<times> 'a) option" where
  "klist_prev_elem p [] = None"
| "klist_prev_elem p [x] = None"
| "klist_prev_elem p (x # y # xs) =
     (if fst x = p then None else if fst y = p then Some x else klist_prev_elem p (y # xs))"

fun klist_next_elem :: "ptr \<Rightarrow> (ptr \<times> 'a) list \<Rightarrow> (ptr \<times> 'a) option" where
  "klist_next_elem p [] = None"
| "klist_next_elem p (x # xs) =
     (if fst x = p then (case xs of [] \<Rightarrow> None | y # _ \<Rightarrow> Some y) else klist_next_elem p xs)"

lemma klist_insert_after_split [klist_simps]:
  "p \<notin> fst ` set us \<Longrightarrow> klist_insert_after p e (us @ (p, v) # vs) = us @ (p, v) # e # vs"
  by (induction us) auto

lemma klist_insert_before_split [klist_simps]:
  "p \<notin> fst ` set us \<Longrightarrow> klist_insert_before p e (us @ (p, v) # vs) = us @ e # (p, v) # vs"
  by (induction us) auto

lemma map_of_klist_update:
  "map_of (klist_update p f xs) q = (if q = p then map_option f (map_of xs q) else map_of xs q)"
  by (induction xs) auto

lemma klist_update_split [klist_simps]:
  "p \<notin> fst ` set us \<Longrightarrow> klist_update p f (us @ (p, v) # vs) = us @ (p, f v) # vs"
  by (induction us) auto

lemma klist_remove_split [klist_simps]:
  "p \<notin> fst ` set us \<Longrightarrow> klist_remove p (us @ (p, v) # vs) = us @ vs"
  by (induction us) auto

lemma klist_prev_elem_split [klist_simps]:
  "p \<notin> fst ` set us \<Longrightarrow>
     klist_prev_elem p (us @ (p, v) # vs) = (if us = [] then None else Some (last us))"
proof (induction us)
  case Nil
  then show ?case by (cases vs) auto
next
  case (Cons u us)
  then show ?case by (cases us) auto
qed

lemma klist_next_elem_split [klist_simps]:
  "p \<notin> fst ` set us \<Longrightarrow>
     klist_next_elem p (us @ (p, v) # vs) = (case vs of [] \<Rightarrow> None | y # _ \<Rightarrow> Some y)"
  by (induction us) auto

lemma map_of_split [klist_simps]:
  "p \<notin> fst ` set us \<Longrightarrow> map_of (us @ (p, v) # vs) p = Some v"
  by (induction us) auto

lemma map_of_split_other:
  "q \<noteq> p \<Longrightarrow> map_of (us @ (p, v) # vs) q = map_of (us @ vs) q"
  by (induction us) auto

lemma map_of_SomeE:
  assumes "map_of xs p = Some v"
  obtains us vs where "xs = us @ (p, v) # vs" and "p \<notin> fst ` set us"
proof -
  have "\<exists>us vs. xs = us @ (p, v) # vs \<and> p \<notin> fst ` set us"
    using assms
  proof (induction xs)
    case Nil
    then show ?case by simp
  next
    case (Cons x xs)
    show ?case
    proof (cases "fst x = p")
      case True
      with Cons.prems have "x # xs = [] @ (p, v) # xs" by (cases x) auto
      then show ?thesis by fastforce
    next
      case False
      with Cons obtain us vs where "xs = us @ (p, v) # vs" and "p \<notin> fst ` set us"
        by (cases x) auto
      with False have "x # xs = (x # us) @ (p, v) # vs \<and> p \<notin> fst ` set (x # us)" by auto
      then show ?thesis by blast
    qed
  qed
  with that show thesis by blast
qed

text \<open>A search loop: the first element that satisfies the test.\<close>

fun klist_find :: "('v \<Rightarrow> bool) \<Rightarrow> (ptr \<times> 'v) list \<Rightarrow> (ptr \<times> 'v) option" where
  "klist_find test [] = None"
| "klist_find test ((p, v) # xs) = (if test v then Some (p, v) else klist_find test xs)"

lemma klist_find_None: "klist_find test xs = None \<longleftrightarrow> (\<forall>x \<in> set xs. \<not> test (snd x))"
  by (induction xs) (auto split: if_splits)

lemma klist_find_SomeE:
  assumes "klist_find test xs = Some (p, v)"
  obtains us vs where "xs = us @ (p, v) # vs" and "test v" and "\<forall>x \<in> set us. \<not> test (snd x)"
proof -
  have "\<exists>us vs. xs = us @ (p, v) # vs \<and> test v \<and> (\<forall>x \<in> set us. \<not> test (snd x))"
    using assms
  proof (induction xs)
    case (Cons x xs)
    obtain q w where x: "x = (q, w)" by (cases x)
    show ?case
    proof (cases "test w")
      case True
      with Cons.prems x have "x # xs = [] @ (p, v) # xs \<and> test v" by simp
      then show ?thesis by fastforce
    next
      case False
      with Cons x obtain us vs where "xs = us @ (p, v) # vs" "test v" "\<forall>x \<in> set us. \<not> test (snd x)"
        by auto
      then have "x # xs = (x # us) @ (p, v) # vs" "\<forall>x \<in> set (x # us). \<not> test (snd x)"
        using x False by auto
      with \<open>test v\<close> show ?thesis by blast
    qed
  qed simp
  with that show ?thesis by blast
qed

lemma klist_find_eq:
  "test v \<Longrightarrow> \<forall>x \<in> set us. \<not> test (snd x) \<Longrightarrow> klist_find test (us @ (p, v) # vs) = Some (p, v)"
  by (induction us) auto

end
