(* ===== verification/KString.thy ===== *)
theory KString
  imports Kernel_Prelude
begin

text \<open>
  The kernel's string library, \<^verbatim>\<open>kernel/core/string.c\<close>, on a byte memory. \<^verbatim>\<open>char\<close> is signed on
  i386, so the comparisons of \<^verbatim>\<open>strcmp\<close> and \<^verbatim>\<open>strncmp\<close> read the bytes with \<open>sint\<close>. The loops
  of the source end at a NUL byte that need not exist, hence \<open>partial_function\<close>; the lemmas
  show that they return on C strings (predicate \<open>cstr\<close>) and relate the result to the list of
  characters.
\<close>

type_synonym mem = "ptr \<Rightarrow> u8"

section \<open>The functions of string.c\<close>

fun memcpy_loop :: "nat \<Rightarrow> ptr \<Rightarrow> ptr \<Rightarrow> mem \<Rightarrow> ptr \<times> mem" where
  "memcpy_loop 0 dest src m = (dest, m)"
| "memcpy_loop (Suc sz) dest src m = memcpy_loop sz (dest + 1) (src + 1) (m(dest := m src))"

definition memcpy :: "ptr \<Rightarrow> ptr \<Rightarrow> u32 \<Rightarrow> mem \<Rightarrow> ptr \<times> mem" where
  "memcpy dest src sz m = memcpy_loop (unat sz) dest src m"

fun memset_loop :: "nat \<Rightarrow> ptr \<Rightarrow> u8 \<Rightarrow> mem \<Rightarrow> ptr \<times> mem" where
  "memset_loop 0 p v m = (p, m)"
| "memset_loop (Suc sz) p v m = memset_loop sz (p + 1) v (m(p := v))"

definition memset :: "ptr \<Rightarrow> u32 \<Rightarrow> u32 \<Rightarrow> mem \<Rightarrow> ptr \<times> mem" where
  "memset p value sz m = memset_loop (unat sz) p (ucast value) m"

partial_function (option) strlen_loop :: "ptr \<Rightarrow> u32 \<Rightarrow> mem \<Rightarrow> u32 option" where
  "strlen_loop str sz m = (if m str \<noteq> 0 then strlen_loop (str + 1) (sz + 1) m else Some sz)"

definition strlen :: "ptr \<Rightarrow> mem \<Rightarrow> u32 option" where
  "strlen str m = strlen_loop str 0 m"

partial_function (option) strcpy_loop :: "ptr \<Rightarrow> ptr \<Rightarrow> mem \<Rightarrow> mem option" where
  "strcpy_loop destination source m =
     (if m source \<noteq> 0
      then strcpy_loop (destination + 1) (source + 1) (m(destination := m source))
      else Some (m(destination := 0)))"

definition strcpy :: "ptr \<Rightarrow> ptr \<Rightarrow> mem \<Rightarrow> (ptr \<times> mem) option" where
  "strcpy destination source m =
     map_option (\<lambda>m'. (destination, m')) (strcpy_loop destination source m)"

text \<open>The count \<open>n\<close> is a signed \<^verbatim>\<open>int\<close>; \<^verbatim>\<open>--n\<close> is evaluated only where \<^verbatim>\<open>*source\<close> is not NUL.\<close>

partial_function (option) strncpy_loop :: "ptr \<Rightarrow> ptr \<Rightarrow> u32 \<Rightarrow> mem \<Rightarrow> mem option" where
  "strncpy_loop destination source n m =
     (if m source \<noteq> 0 \<and> n - 1 \<noteq> 0
      then strncpy_loop (destination + 1) (source + 1) (n - 1) (m(destination := m source))
      else Some (m(destination := 0)))"

definition strncpy :: "ptr \<Rightarrow> ptr \<Rightarrow> u32 \<Rightarrow> mem \<Rightarrow> (ptr \<times> mem) option" where
  "strncpy destination source n m =
     map_option (\<lambda>m'. (destination, m')) (strncpy_loop destination source n m)"

partial_function (option) strcmp :: "ptr \<Rightarrow> ptr \<Rightarrow> mem \<Rightarrow> int option" where
  "strcmp str1 str2 m =
     (if m str1 \<noteq> 0 \<and> m str2 \<noteq> 0 \<and> m str1 = m str2
      then strcmp (str1 + 1) (str2 + 1) m
      else Some (if sint (m str1) > sint (m str2) then 1
                 else if sint (m str1) < sint (m str2) then -1
                 else 0))"

fun strncmp_loop :: "nat \<Rightarrow> ptr \<Rightarrow> ptr \<Rightarrow> mem \<Rightarrow> int" where
  "strncmp_loop 0 s1 s2 m = 0"
| "strncmp_loop (Suc n) s1 s2 m =
     (if m s1 \<noteq> 0 \<and> m s2 \<noteq> 0 \<and> m s1 = m s2
      then strncmp_loop n (s1 + 1) (s2 + 1) m
      else if sint (m s1) > sint (m s2) then 1
      else if sint (m s1) < sint (m s2) then -1
      else 0)"

definition strncmp :: "ptr \<Rightarrow> ptr \<Rightarrow> u32 \<Rightarrow> mem \<Rightarrow> int" where
  "strncmp s1 s2 n m = strncmp_loop (unat n) s1 s2 m"

text \<open>The inner loop of \<^verbatim>\<open>strtok_r\<close>: the delimiter pointer after it, at NUL if none matched.\<close>

partial_function (option) strtok_delim :: "ptr \<Rightarrow> ptr \<Rightarrow> mem \<Rightarrow> ptr option" where
  "strtok_delim delim str m =
     (if m delim \<noteq> 0 \<and> m delim \<noteq> m str then strtok_delim (delim + 1) str m else Some delim)"

partial_function (option) strtok_loop :: "ptr \<Rightarrow> ptr \<Rightarrow> mem \<Rightarrow> (ptr \<times> mem) option" where
  "strtok_loop str delim_base m =
     (if m str \<noteq> 0
      then Option.bind (strtok_delim delim_base str m) (\<lambda>delim.
        let m' = (if m delim \<noteq> 0 then m(str := 0) else m)
        in if m' delim \<noteq> 0 then Some (str + 1, m') else strtok_loop (str + 1) delim_base m')
      else Some (str, m))"

definition strtok_r :: "ptr \<Rightarrow> ptr \<Rightarrow> ptr \<Rightarrow> mem \<Rightarrow> (ptr \<times> ptr \<times> mem) option" where
  "strtok_r str delim saveptr m =
     (if str = NULL \<and> m saveptr = 0 then Some (NULL, saveptr, m)
      else (let base = (if str = NULL then saveptr else str)
            in map_option (\<lambda>(str', m'). (base, str', m')) (strtok_loop base delim m)))"

partial_function (option) strchr :: "ptr \<Rightarrow> int \<Rightarrow> mem \<Rightarrow> ptr option" where
  "strchr s c m =
     (if m s \<noteq> 0 then (if sint (m s) = c then Some s else strchr (s + 1) c m) else Some NULL)"

partial_function (option) strcat_end :: "ptr \<Rightarrow> mem \<Rightarrow> ptr option" where
  "strcat_end dest m = (if m dest \<noteq> 0 then strcat_end (dest + 1) m else Some (dest + 1))"

definition strcat :: "ptr \<Rightarrow> ptr \<Rightarrow> mem \<Rightarrow> (ptr \<times> mem) option" where
  "strcat dest src m = Option.bind (strcat_end dest m) (\<lambda>d. strcpy (d - 1) src m)"

section \<open>C strings in memory\<close>

fun cstr :: "mem \<Rightarrow> ptr \<Rightarrow> u8 list \<Rightarrow> bool" where
  "cstr m p [] \<longleftrightarrow> m p = 0"
| "cstr m p (c # cs) \<longleftrightarrow> m p = c \<and> c \<noteq> 0 \<and> cstr m (p + 1) cs"

fun bytes_at :: "mem \<Rightarrow> ptr \<Rightarrow> nat \<Rightarrow> u8 list" where
  "bytes_at m p 0 = []"
| "bytes_at m p (Suc n) = m p # bytes_at m (p + 1) n"

fun write_bytes :: "ptr \<Rightarrow> u8 list \<Rightarrow> mem \<Rightarrow> mem" where
  "write_bytes p [] m = m"
| "write_bytes p (c # cs) m = write_bytes (p + 1) cs (m(p := c))"

text \<open>\<open>apart p n q k\<close>: the \<open>n\<close> bytes at \<open>p\<close> and the \<open>k\<close> bytes at \<open>q\<close> do not overlap.\<close>

definition apart :: "ptr \<Rightarrow> nat \<Rightarrow> ptr \<Rightarrow> nat \<Rightarrow> bool" where
  "apart p n q k \<longleftrightarrow> (\<forall>i < n. \<forall>j < k. p + of_nat i \<noteq> q + of_nat j)"

text \<open>The order of \<^verbatim>\<open>strcmp\<close> on the lists of characters: the end of a string counts as 0.\<close>

fun str_order :: "u8 list \<Rightarrow> u8 list \<Rightarrow> int" where
  "str_order [] [] = 0"
| "str_order [] (d # ds) = (if sint d < 0 then 1 else -1)"
| "str_order (c # cs) [] = (if sint c > 0 then 1 else -1)"
| "str_order (c # cs) (d # ds) =
     (if c = d then str_order cs ds else if sint c > sint d then 1 else -1)"


lemma of_nat_inj_u32: "i < 2 ^ 32 \<Longrightarrow> j < 2 ^ 32 \<Longrightarrow> (of_nat i :: u32) = of_nat j \<longleftrightarrow> i = j"
  by (auto dest: arg_cong [where f = unat] simp: unat_of_nat)

lemma apart_step:
  assumes "apart p (Suc n) q (Suc k)"
  shows "apart (p + 1) n (q + 1) k"
    and "\<forall>j < Suc k. p \<noteq> q + of_nat j"
proof -
  have "p + 1 + of_nat i \<noteq> q + 1 + of_nat j" if "i < n" "j < k" for i j
    using assms [unfolded apart_def, rule_format, of "Suc i" "Suc j"] that
    by (simp add: algebra_simps)
  then show "apart (p + 1) n (q + 1) k" by (simp add: apart_def)
  show "\<forall>j < Suc k. p \<noteq> q + of_nat j"
    using assms [unfolded apart_def, rule_format, of 0] by simp
qed

lemma write_bytes_other:
  "\<forall>i < length cs. a \<noteq> d + of_nat i \<Longrightarrow> write_bytes d cs m a = m a"
proof (induction cs arbitrary: d m)
  case Nil
  then show ?case by simp
next
  case (Cons c cs)
  have "a \<noteq> d" using Cons.prems by (auto dest: spec [of _ 0])
  moreover have "\<forall>i < length cs. a \<noteq> d + 1 + of_nat i"
    using Cons.prems by (auto simp: add.assoc simp flip: of_nat_Suc)
  ultimately show ?case using Cons.IH [of "d + 1"] by simp
qed

lemma write_bytes_at:
  assumes "length cs \<le> 2 ^ 32" and "i < length cs"
  shows "write_bytes d cs m (d + of_nat i) = cs ! i"
  using assms
proof (induction cs arbitrary: d m i)
  case Nil
  then show ?case by simp
next
  case (Cons c cs)
  show ?case
  proof (cases i)
    case 0
    have "\<forall>j < length cs. d \<noteq> d + 1 + of_nat j"
    proof (intro allI impI)
      fix j assume "j < length cs"
      then have "(of_nat (Suc j) :: u32) \<noteq> of_nat 0"
        using Cons.prems by (subst of_nat_inj_u32) auto
      then show "d \<noteq> d + 1 + of_nat j" by (simp add: add.assoc)
    qed
    then show ?thesis using 0 write_bytes_other [of cs d "d + 1" "m(d := c)"] by simp
  next
    case (Suc j)
    then have "d + of_nat i = d + 1 + of_nat j" by (simp add: add.assoc)
    then show ?thesis using Suc Cons.IH [of j "d + 1" "m(d := c)"] Cons.prems
      by (simp add: add.assoc del: fun_upd_apply)
  qed
qed

lemma cstr_upd:
  "\<forall>j \<le> length s. a \<noteq> p + of_nat j \<Longrightarrow> cstr (m(a := v)) p s = cstr m p s"
proof (induction s arbitrary: p)
  case Nil
  then show ?case by auto
next
  case (Cons c cs)
  have "a \<noteq> p" using Cons.prems by (auto dest: spec [of _ 0])
  moreover have "\<forall>j \<le> length cs. a \<noteq> p + 1 + of_nat j"
    using Cons.prems by (auto simp: add.assoc simp flip: of_nat_Suc)
  ultimately show ?case using Cons.IH [of "p + 1"] by simp
qed

lemma cstr_intro:
  "(\<forall>i < length s. m (p + of_nat i) = s ! i) \<Longrightarrow> m (p + of_nat (length s)) = 0 \<Longrightarrow> 0 \<notin> set s
   \<Longrightarrow> cstr m p s"
proof (induction s arbitrary: p)
  case Nil
  then show ?case by simp
next
  case (Cons c cs)
  have "\<forall>i < length cs. m (p + 1 + of_nat i) = cs ! i"
    using Cons.prems(1) by (auto simp: add.assoc simp flip: of_nat_Suc)
  moreover have "m p = c" using Cons.prems(1) by force
  ultimately show ?case using Cons by (auto simp: add.assoc)
qed

lemma cstr_no_nul: "cstr m p s \<Longrightarrow> 0 \<notin> set s"
  by (induction s arbitrary: p) auto

lemma cstr_write_bytes:
  assumes "length s < 2 ^ 32" and "0 \<notin> set s"
  shows "cstr (write_bytes d (s @ [0]) m) d s"
proof (rule cstr_intro)
  show "\<forall>i < length s. write_bytes d (s @ [0]) m (d + of_nat i) = s ! i"
  proof (intro allI impI)
    fix i assume i: "i < length s"
    with assms have "write_bytes d (s @ [0]) m (d + of_nat i) = (s @ [0]) ! i"
      by (intro write_bytes_at) auto
    with i show "write_bytes d (s @ [0]) m (d + of_nat i) = s ! i" by (simp add: nth_append)
  qed
  have "write_bytes d (s @ [0]) m (d + of_nat (length s)) = (s @ [0]) ! length s"
    using assms by (intro write_bytes_at) auto
  then show "write_bytes d (s @ [0]) m (d + of_nat (length s)) = 0" by simp
qed (rule assms)

section \<open>The functions on C strings\<close>

lemma strlen_loop_cstr: "cstr m p s \<Longrightarrow> strlen_loop p k m = Some (k + of_nat (length s))"
proof (induction s arbitrary: p k)
  case Nil
  then show ?case by (simp add: strlen_loop.simps)
next
  case (Cons c cs)
  then have "strlen_loop (p + 1) (k + 1) m = Some (k + 1 + of_nat (length cs))" by simp
  with Cons.prems show ?case by (subst strlen_loop.simps) (simp add: add.assoc)
qed

lemma strlen_cstr: "cstr m p s \<Longrightarrow> strlen p m = Some (of_nat (length s))"
  by (simp add: strlen_def strlen_loop_cstr)

lemma sint_u8_inj [simp]: "sint (c :: u8) = sint d \<longleftrightarrow> c = d"
  by (metis signed_word_eqI)

lemma sint_u8_eq_0 [simp]: "sint (c :: u8) = 0 \<longleftrightarrow> c = 0"
  by (simp add: signed_eq_0_iff)

lemma strcmp_cstr: "cstr m p s \<Longrightarrow> cstr m q t \<Longrightarrow> strcmp p q m = Some (str_order s t)"
proof (induction s t arbitrary: p q rule: str_order.induct)
  case (4 c cs d ds)
  have "sint c \<noteq> sint d" if "c \<noteq> d" using that by simp
  with 4 show ?case by (subst strcmp.simps) auto
next
  case (2 d ds)
  have "sint d \<noteq> 0" using "2.prems" by simp
  with 2 show ?case by (subst strcmp.simps) auto
next
  case (3 c cs)
  have "sint c \<noteq> 0" using "3.prems" by simp
  with 3 show ?case by (subst strcmp.simps) auto
qed (simp add: strcmp.simps)

lemma str_order_eq_0 [simp]: "str_order s t = 0 \<longleftrightarrow> s = t"
  by (induction s t rule: str_order.induct) auto

lemma strncmp_loop_cstr:
  "cstr m p s \<Longrightarrow> cstr m q t \<Longrightarrow> strncmp_loop n p q m = str_order (take n s) (take n t)"
proof (induction n arbitrary: p q s t)
  case 0
  then show ?case by simp
next
  case (Suc n)
  have ne: "sint (c :: u8) \<noteq> sint d" if "c \<noteq> d" for c d using that by simp
  have nz: "sint (c :: u8) \<noteq> 0" if "c \<noteq> 0" for c using that by simp
  show ?case using Suc by (cases s; cases t) (auto dest: ne nz)
qed

lemma strcpy_loop_cstr:
  "cstr m q s \<Longrightarrow> apart d (Suc (length s)) q (Suc (length s))
   \<Longrightarrow> strcpy_loop d q m = Some (write_bytes d (s @ [0]) m)"
proof (induction s arbitrary: d q m)
  case Nil
  then show ?case by (simp add: strcpy_loop.simps fun_upd_def)
next
  case (Cons c cs)
  from apart_step [OF Cons.prems(2) [simplified]]
  have a: "apart (d + 1) (Suc (length cs)) (q + 1) (Suc (length cs))"
    and b: "\<forall>j < Suc (Suc (length cs)). d \<noteq> q + of_nat j" by auto
  have "\<forall>j \<le> length cs. d \<noteq> q + 1 + of_nat j"
    using b by (auto simp: add.assoc simp flip: of_nat_Suc)
  then have "cstr (m(d := c)) (q + 1) cs" using Cons.prems(1) by (simp add: cstr_upd)
  from Cons.IH [OF this a] Cons.prems(1) show ?case
    by (subst strcpy_loop.simps) (simp del: fun_upd_apply)
qed

lemma strncpy_loop_cstr:
  "cstr m q s \<Longrightarrow> apart d (Suc (length s)) q (Suc (length s)) \<Longrightarrow> n \<noteq> 0
   \<Longrightarrow> strncpy_loop d q n m = Some (write_bytes d (take (unat n - 1) s @ [0]) m)"
proof (induction s arbitrary: d q m n)
  case Nil
  then show ?case by (simp add: strncpy_loop.simps fun_upd_def)
next
  case (Cons c cs)
  show ?case
  proof (cases "n = 1")
    case True
    then show ?thesis by (subst strncpy_loop.simps) (simp add: fun_upd_def)
  next
    case False
    from apart_step [OF Cons.prems(2) [simplified]]
    have a: "apart (d + 1) (Suc (length cs)) (q + 1) (Suc (length cs))"
      and b: "\<forall>j < Suc (Suc (length cs)). d \<noteq> q + of_nat j" by auto
    have "\<forall>j \<le> length cs. d \<noteq> q + 1 + of_nat j"
      using b by (auto simp: add.assoc simp flip: of_nat_Suc)
    then have "cstr (m(d := c)) (q + 1) cs" using Cons.prems(1) by (simp add: cstr_upd)
    moreover have "n - 1 \<noteq> 0" using False by simp
    moreover have "unat (n - 1) = unat n - 1" using Cons.prems(3) by (simp add: unat_minus_one)
    moreover have "unat (n - 1) \<noteq> 0" using \<open>n - 1 \<noteq> 0\<close> by (simp add: unat_eq_0)
    ultimately show ?thesis using Cons.IH [OF _ a, of "m(d := c)" "n - 1"] Cons.prems(1) False
      by (subst strncpy_loop.simps) (auto simp: take_Cons' simp del: fun_upd_apply)
  qed
qed

lemma strncpy_cstr:
  assumes "cstr m q s" and "apart d (Suc (length s)) q (Suc (length s))" and "n \<noteq> 0"
  shows "strncpy d q n m = Some (d, write_bytes d (take (unat n - 1) s @ [0]) m)"
  using strncpy_loop_cstr [OF assms] by (simp add: strncpy_def)

lemma cstr_strncpy:
  assumes "cstr m q s"
  shows "cstr (write_bytes d (take (unat (n :: u32) - 1) s @ [0]) m') d (take (unat n - 1) s)"
proof -
  have "unat n < 2 ^ 32" using unsigned_less [of n, where ?'a = nat] by simp
  then show ?thesis using cstr_no_nul [OF assms] by (intro cstr_write_bytes) (auto dest: in_set_takeD)
qed

lemma memcpy_loop_bytes:
  "apart d n p n \<Longrightarrow> memcpy_loop n d p m = (d + of_nat n, write_bytes d (bytes_at m p n) m)"
proof (induction n arbitrary: d p m)
  case 0
  then show ?case by simp
next
  case (Suc n)
  have keep: "bytes_at (m(d := v)) q k = bytes_at m q k" if "\<forall>j < k. d \<noteq> q + of_nat j" for v q k
    using that
  proof (induction k arbitrary: q)
    case (Suc k)
    have "\<forall>j < k. d \<noteq> q + 1 + of_nat j"
      using Suc.prems by (auto simp: add.assoc simp flip: of_nat_Suc)
    moreover have "d \<noteq> q" using Suc.prems by (auto dest: spec [of _ 0])
    ultimately show ?case using Suc.IH [of "q + 1"] by simp
  qed simp
  from apart_step [OF Suc.prems] have a: "apart (d + 1) n (p + 1) n"
    and b: "\<forall>j < Suc n. d \<noteq> p + of_nat j" by auto
  have "\<forall>j < n. d \<noteq> p + 1 + of_nat j"
    using b by (auto simp: add.assoc simp flip: of_nat_Suc)
  then have "bytes_at (m(d := m p)) (p + 1) n = bytes_at m (p + 1) n" by (rule keep)
  with Suc.IH [OF a, of "m(d := m p)"] show ?case
    by (simp add: add.assoc add.commute del: fun_upd_apply)
qed

lemma length_bytes_at [simp]: "length (bytes_at m p n) = n"
  by (induction n arbitrary: p) auto

lemma nth_bytes_at: "i < n \<Longrightarrow> bytes_at m p n ! i = m (p + of_nat i)"
proof (induction n arbitrary: p i)
  case (Suc n)
  then show ?case by (cases i) (auto simp: add.assoc)
qed simp

lemma memcpy_bytes:
  assumes "apart d (unat n) p (unat n)"
  shows "i < unat n \<Longrightarrow> snd (memcpy d p n m) (d + of_nat i) = m (p + of_nat i)"
    and "\<forall>i < unat n. x \<noteq> d + of_nat i \<Longrightarrow> snd (memcpy d p n m) x = m x"
proof -
  have eq: "snd (memcpy d p n m) = write_bytes d (bytes_at m p (unat n)) m"
    using memcpy_loop_bytes [OF assms] by (simp add: memcpy_def)
  show "snd (memcpy d p n m) (d + of_nat i) = m (p + of_nat i)" if "i < unat n"
  proof -
    have "unat n \<le> 2 ^ 32" using unsigned_less [of n, where ?'a = nat] by simp
    with that show ?thesis by (simp add: eq write_bytes_at nth_bytes_at)
  qed
  show "snd (memcpy d p n m) x = m x" if "\<forall>i < unat n. x \<noteq> d + of_nat i"
    using that by (simp add: eq write_bytes_other)
qed

lemma strtok_delim_cstr:
  assumes "cstr m dl ds" and "m p \<noteq> 0"
  shows "\<exists>r k. strtok_delim dl p m = Some r \<and> k \<le> length ds \<and> r = dl + of_nat k
           \<and> (m r \<noteq> 0 \<longleftrightarrow> m p \<in> set ds)"
  using assms(1)
proof (induction ds arbitrary: dl)
  case Nil
  then show ?case by (subst strtok_delim.simps) (auto intro: exI [of _ 0])
next
  case (Cons d ds)
  show ?case
  proof (cases "d = m p")
    case True
    with Cons.prems show ?thesis
      by (subst strtok_delim.simps) (auto intro: exI [of _ 0])
  next
    case False
    from Cons obtain r k where "strtok_delim (dl + 1) p m = Some r" and "k \<le> length ds"
      and "r = dl + 1 + of_nat k" and "m r \<noteq> 0 \<longleftrightarrow> m p \<in> set ds" by force
    with False Cons.prems show ?thesis
      by (subst strtok_delim.simps) (auto intro: exI [of _ "Suc k"] simp: add.assoc)
  qed
qed

lemma strtok_loop_cstr:
  assumes "cstr m dl ds" and "cstr m p (tok @ c # rest)" and "c \<in> set ds"
    and "set tok \<inter> set ds = {}"
    and "apart p (Suc (length tok + length rest)) dl (Suc (length ds))"
  shows "strtok_loop p dl m = Some (p + of_nat (length tok) + 1, m(p + of_nat (length tok) := 0))"
  using assms(2,4,5)
proof (induction tok arbitrary: p)
  case Nil
  then have "m p = c" "c \<noteq> 0" by auto
  obtain r k where r: "strtok_delim dl p m = Some r" "k \<le> length ds" "r = dl + of_nat k"
    "m r \<noteq> 0" using strtok_delim_cstr [OF assms(1), of p] assms(3) \<open>m p = c\<close> \<open>c \<noteq> 0\<close> by auto
  have "p \<noteq> r" using Nil.prems(3) [unfolded apart_def, rule_format, of 0 k] r by simp
  then show ?case using r \<open>m p = c\<close> \<open>c \<noteq> 0\<close> by (subst strtok_loop.simps) simp
next
  case (Cons t tok)
  then have t: "m p = t" "t \<noteq> 0" "t \<notin> set ds" by auto
  obtain r where r: "strtok_delim dl p m = Some r" "m r = 0"
    using strtok_delim_cstr [OF assms(1), of p] t by auto
  have "apart (p + 1) (Suc (length tok + length rest)) dl (Suc (length ds))"
    unfolding apart_def
  proof (intro allI impI)
    fix i j assume "i < Suc (length tok + length rest)" "j < Suc (length ds)"
    then show "p + 1 + of_nat i \<noteq> dl + of_nat j"
      using Cons.prems(3) [unfolded apart_def, rule_format, of "Suc i" j] by (simp add: add.assoc)
  qed
  then have "strtok_loop (p + 1) dl m
      = Some (p + 1 + of_nat (length tok) + 1, m(p + 1 + of_nat (length tok) := 0))"
    using Cons.prems by (intro Cons.IH) auto
  then show ?case using r t
    by (subst strtok_loop.simps) (simp add: add.assoc add.left_commute)
qed

text \<open>
  C35. On C strings \<^verbatim>\<open>strcmp\<close> and \<^verbatim>\<open>strncmp\<close> return, and they decide equality: the result is 0
  exactly for equal strings, respectively for strings that agree on their first \<open>n\<close>
  characters. Otherwise the sign is that of the first difference, compared as signed
  characters.
\<close>
theorem strcmp_strncmp_correct:
  assumes "cstr m p s" and "cstr m q t"
  shows "strcmp p q m = Some (str_order s t)
       \<and> (strcmp p q m = Some 0 \<longleftrightarrow> s = t)
       \<and> strncmp p q n m = str_order (take (unat n) s) (take (unat n) t)
       \<and> (strncmp p q n m = 0 \<longleftrightarrow> take (unat n) s = take (unat n) t)"
  using strcmp_cstr [OF assms] strncmp_loop_cstr [OF assms, of "unat n"]
  by (simp add: strncmp_def)

definition str_example :: mem where
  "str_example = write_bytes 0x100 [97, 98, 0] (write_bytes 0x200 [97, 99, 0] (\<lambda>_. 0))"

lemma str_example_cstr: "cstr str_example 0x100 [97, 98]" "cstr str_example 0x200 [97, 99]"
  by (simp_all add: str_example_def)

theorem strcmp_strncmp_correct_witness:
  "strcmp 0x100 0x200 str_example = Some (-1) \<and> strncmp 0x100 0x200 1 str_example = 0"
  using strcmp_strncmp_correct [OF str_example_cstr, of 1] by simp

text \<open>
  \<^verbatim>\<open>strncpy\<close> with a positive count returns its destination, which then holds the first
  \<open>n - 1\<close> characters of the source as a NUL-terminated string; nothing outside the \<open>n\<close> bytes
  at the destination is written.
\<close>
theorem strncpy_truncates:
  assumes "cstr m q s" and "apart d (Suc (length s)) q (Suc (length s))" and "n \<noteq> 0"
  shows "\<exists>m'. strncpy d q n m = Some (d, m')
       \<and> cstr m' d (take (unat n - 1) s)
       \<and> (\<forall>a. (\<forall>i < unat n. a \<noteq> d + of_nat i) \<longrightarrow> m' a = m a)"
proof -
  let ?m = "write_bytes d (take (unat n - 1) s @ [0]) m"
  have "0 < unat n" using assms(3) by (simp add: unat_gt_0)
  then have "?m a = m a" if "\<forall>i < unat n. a \<noteq> d + of_nat i" for a
    using that by (intro write_bytes_other) auto
  with strncpy_cstr [OF assms] cstr_strncpy [OF assms(1)] show ?thesis by blast
qed

theorem strncpy_truncates_witness:
  "\<exists>m'. strncpy 0x300 0x100 2 str_example = Some (0x300, m') \<and> cstr m' 0x300 [97]"
proof -
  have "apart 0x300 (Suc (length [97, 98 :: u8])) 0x100 (Suc (length [97, 98 :: u8]))"
    by (auto simp: apart_def less_Suc_eq)
  from strncpy_truncates [OF str_example_cstr(1) this, of 2] show ?thesis by auto
qed

lemma strtok_loop_no_delim:
  assumes "cstr m dl ds"
  shows "cstr m p s \<Longrightarrow> set s \<inter> set ds = {} \<Longrightarrow> strtok_loop p dl m = Some (p + of_nat (length s), m)"
proof (induction s arbitrary: p)
  case Nil
  then show ?case by (subst strtok_loop.simps) simp
next
  case (Cons t s)
  then have t: "m p = t" "t \<noteq> 0" "t \<notin> set ds" by auto
  obtain r where "strtok_delim dl p m = Some r" "m r = 0"
    using strtok_delim_cstr [OF assms, of p] t by auto
  with Cons t show ?case by (subst strtok_loop.simps) (simp add: add.assoc)
qed

lemma cstr_append: "cstr m p (s @ t) \<longleftrightarrow> (\<forall>i < length s. m (p + of_nat i) = s ! i \<and> s ! i \<noteq> 0) \<and> cstr m (p + of_nat (length s)) t"
proof (induction s arbitrary: p)
  case (Cons c s)
  show ?case unfolding append.simps cstr.simps Cons.IH by (auto simp: less_Suc_eq_0_disj add.assoc)
qed simp

lemma cstr_length:
  assumes "cstr m p s"
  shows "length s < 2 ^ 32"
proof (rule ccontr)
  assume "\<not> length s < 2 ^ 32"
  then have l: "length s mod 2 ^ 32 < length s" by (meson mod_less_divisor not_less order.strict_trans2 zero_less_numeral zero_less_power)
  have c: "\<forall>i < length s. m (p + of_nat i) = s ! i \<and> s ! i \<noteq> 0" "m (p + of_nat (length s)) = 0"
    using assms cstr_append [of m p s "[]"] by simp_all
  have "(of_nat (length s mod 2 ^ 32) :: u32) = of_nat (length s)" by (simp add: unsigned_of_nat word_unat_eq_iff take_bit_eq_mod)
  then show False using c(1) [rule_format, OF l] c(2) by simp
qed

lemma apart_shift:
  assumes "apart p n q k" and "d + n' \<le> n"
  shows "apart (p + of_nat d) n' q k"
  unfolding apart_def
proof (intro allI impI)
  fix i j assume "i < n'" "j < k"
  then show "p + of_nat d + of_nat i \<noteq> q + of_nat j"
    using assms(1) [unfolded apart_def, rule_format, of "d + i" j] assms(2) by (simp add: add.assoc)
qed

lemma takeWhile_split:
  assumes "takeWhile P s \<noteq> s"
  shows "\<exists>c. s = takeWhile P s @ c # drop (Suc (length (takeWhile P s))) s \<and> \<not> P c"
  using assms by (induction s) auto

text \<open>A NUL inside a string cuts it into two.\<close>

lemma cstr_cut:
  assumes s: "cstr m p (t @ c # u)"
  defines "a \<equiv> p + of_nat (length t)"
  shows "cstr (m(a := 0)) p t" and "cstr (m(a := 0)) (a + 1) u"
proof -
  have l: "length (t @ c # u) < 2 ^ 32" using s by (rule cstr_length)
  have at: "\<forall>i < length t. m (p + of_nat i) = t ! i" "cstr m (a + 1) u"
    using s unfolding cstr_append a_def by (auto simp: add.assoc)
  have "p + of_nat i \<noteq> a" if "i < length t" for i
    using that l of_nat_inj_u32 [of i "length t"] by (simp add: a_def)
  then show "cstr (m(a := 0)) p t" using at(1) cstr_no_nul [OF s] by (intro cstr_intro) (auto simp: a_def)
  have "a \<noteq> a + 1 + of_nat j" if "j \<le> length u" for j
    using that l of_nat_inj_u32 [of 0 "Suc j"] by (simp add: add.assoc)
  then show "cstr (m(a := 0)) (a + 1) u" using at(2) cstr_upd [of u a "a + 1" m 0] by blast
qed

text \<open>
  C36. One call of \<^verbatim>\<open>strtok_r\<close> on a C string, the first one with the string or a later one with a null
  pointer, which continues at the saved pointer. At the end of the string a later call returns null
  and changes nothing. Otherwise the call returns the start of the string, which is now the token up to
  the first delimiter, at which only the delimiter was overwritten with NUL, or the whole
  string if there is none; the saved pointer is at the string behind the delimiter, for which the conditions
  of the next call hold again. Leading delimiters are not skipped, so a token can be empty.
\<close>
theorem strtok_r_cuts_token:
  fixes m :: mem and p :: ptr
  assumes d: "cstr m delim ds" and s: "cstr m p s" and ap: "apart p (Suc (length s)) delim (Suc (length ds))"
    and call: "str = p \<and> p \<noteq> NULL \<or> str = NULL \<and> saveptr = p"
  defines "tok \<equiv> takeWhile (\<lambda>c. c \<notin> set ds) s"
  defines "rest \<equiv> drop (Suc (length tok)) s"
  shows "if str = NULL \<and> s = [] then strtok_r str delim saveptr m = Some (NULL, saveptr, m)
     else \<exists>save m'. strtok_r str delim saveptr m = Some (p, save, m')
       \<and> save = p + of_nat (length tok) + (if tok = s then 0 else 1)
       \<and> m' = (if tok = s then m else m(p + of_nat (length tok) := 0))
       \<and> cstr m' p tok \<and> cstr m' save rest
       \<and> cstr m' delim ds \<and> apart save (Suc (length rest)) delim (Suc (length ds))"
proof (cases "str = NULL \<and> s = []")
  case True
  with call s show ?thesis by (simp add: strtok_r_def)
next
  case False
  have loop: "strtok_r str delim saveptr m = map_option (\<lambda>(str', m'). (p, str', m')) (strtok_loop p delim m)"
    using False call s by (cases s) (auto simp: strtok_r_def)
  show ?thesis
  proof (cases "tok = s")
    case True
    then have "set s \<inter> set ds = {}" by (auto simp: tok_def dest: set_takeWhileD)
    then have "strtok_r str delim saveptr m = Some (p, p + of_nat (length s), m)"
      using strtok_loop_no_delim [OF d s] by (simp add: loop)
    moreover have "cstr m (p + of_nat (length s)) []" using s cstr_append [of m p s "[]"] by simp
    moreover have "apart (p + of_nat (length s)) 1 delim (Suc (length ds))" by (rule apart_shift [OF ap]) simp
    ultimately show ?thesis unfolding if_not_P [OF False] using True s d by (simp add: rest_def)
  next
    case tok: False
    then obtain c where c: "s = tok @ c # rest" "c \<in> set ds" "set tok \<inter> set ds = {}"
      using takeWhile_split [of "\<lambda>c. c \<notin> set ds" s] by (auto simp: tok_def rest_def dest: set_takeWhileD)
    let ?a = "p + of_nat (length tok)" and ?m = "m(p + of_nat (length tok) := 0)"
    have run: "strtok_loop p delim m = Some (?a + 1, ?m)"
      using strtok_loop_cstr [OF d, of p tok c rest] s ap c by (simp add: apart_def)
    have "?a \<noteq> delim + of_nat j" if "j \<le> length ds" for j
      using ap [unfolded apart_def, rule_format, of "length tok" j] that c(1) by simp
    then have dl: "cstr ?m delim ds" using d cstr_upd [of ds ?a delim m 0] by blast
    have "apart (p + of_nat (Suc (length tok))) (Suc (length rest)) delim (Suc (length ds))"
      by (rule apart_shift [OF ap]) (simp add: c(1))
    then have "apart (?a + 1) (Suc (length rest)) delim (Suc (length ds))" by (simp add: ac_simps)
    then show ?thesis unfolding if_not_P [OF False] using tok run cstr_cut [OF s [unfolded c(1)]] dl by (simp add: loop)
  qed
qed

theorem strtok_r_cuts_token_witness:
  "\<exists>m1. strtok_r 0x200 0x100 NULL str_example = Some (0x200, 0x201, m1)
     \<and> strtok_r NULL 0x100 0x201 m1 = Some (0x201, 0x202, m1) \<and> strtok_r NULL 0x100 0x202 m1 = Some (NULL, 0x202, m1)"
proof -
  have ap: "apart 0x200 (Suc (length [97, 99 :: u8])) 0x100 (Suc (length [97, 98 :: u8]))"
    by (auto simp: apart_def less_Suc_eq)
  define m1 where "m1 = str_example(0x200 := 0)"
  from strtok_r_cuts_token [OF str_example_cstr ap, of "0x200" NULL]
  have 1: "strtok_r 0x200 0x100 NULL str_example = Some (0x200, 0x201, m1)" "cstr m1 0x201 [99]" "cstr m1 0x100 [97, 98]"
    "apart 0x201 2 0x100 3" by (simp_all add: m1_def eval_nat_numeral)
  from strtok_r_cuts_token [OF 1(3, 2), of NULL "0x201"] 1(4)
  have 2: "strtok_r NULL 0x100 0x201 m1 = Some (0x201, 0x202, m1)" "cstr m1 0x202 []" "apart 0x202 1 0x100 3" 
    by (simp_all add: eval_nat_numeral)
  from strtok_r_cuts_token [OF 1(3) 2(2), of NULL "0x202"] 2(3)
  have "strtok_r NULL 0x100 0x202 m1 = Some (NULL, 0x202, m1)" by (simp add: eval_nat_numeral)
  with 1(1) 2(1) show ?thesis by blast
qed

end
