(* ===== verification/KMalloc.thy ===== *)
theory KMalloc
  imports KList KString
begin

text \<open>
  The kernel heap of \<^verbatim>\<open>kernel/core/mem/kmalloc.c\<close>: a first-fit allocator over a list of blocks,
  each a header of 20 bytes (\<^verbatim>\<open>struct kmalloc_blk\<close> on i386) in front of its data. The heap state
  holds the list \<^verbatim>\<open>kmalloc_head\<close>, its lock and the data bytes. The main results: the blocks
  always tile the initial heap, live areas never overlap, adjacent free blocks are always
  merged, and \<^verbatim>\<open>kfree\<close> undoes \<^verbatim>\<open>kmalloc\<close>. The locale \<open>allocator\<close> is what the other components
  rely on.
\<close>

section \<open>State and operations\<close>

record kmalloc_blk =
  blk_ptr :: ptr
  blk_size :: u32
  blk_free :: bool

record kheap =
  kmalloc_lock :: spinlock
  kmalloc_head :: "(ptr \<times> kmalloc_blk) list"
  kbytes :: mem

definition sizeof_blk :: u32 where "sizeof_blk = 20"

definition KSTACK_SIZE :: u32 where "KSTACK_SIZE = 0x1000"

definition kmalloc_initialize :: "boot_info \<Rightarrow> 'a kheap_scheme \<Rightarrow> 'a kheap_scheme" where
  "kmalloc_initialize boot s =
     (let first_blk = heap_start boot
      in s\<lparr>kmalloc_lock := spinlock_init,
           kmalloc_head :=
             [(first_blk, \<lparr>blk_ptr = first_blk + sizeof_blk,
                           blk_size = ucast (heap_size boot - ucast KSTACK_SIZE - ucast sizeof_blk),
                           blk_free = True\<rparr>)]\<rparr>)"

definition kmalloc_split ::
    "ptr \<Rightarrow> u32 \<Rightarrow> (ptr \<times> kmalloc_blk) list \<Rightarrow> (ptr \<times> (ptr \<times> kmalloc_blk) list) option" where
  "kmalloc_split blk sz head = do {
     b \<leftarrow> map_of head blk;
     let head = klist_update blk (blk_free_update (\<lambda>_. False)) head;
     if blk_size b > sz + sizeof_blk
     then do {
       let new_blk = blk + sizeof_blk + sz;
       let nb = \<lparr>blk_ptr = new_blk + sizeof_blk, blk_size = blk_size b - sz - sizeof_blk, blk_free = True\<rparr>;
       let head = klist_update blk (blk_size_update (\<lambda>_. sz)) head;
       Some (blk_ptr b, klist_insert_after blk (new_blk, nb) head)
     }
     else Some (blk_ptr b, head)
   }"

text \<open>The search loop of \<^verbatim>\<open>kmalloc\<close>.\<close>

fun kmalloc_find :: "u32 \<Rightarrow> (ptr \<times> kmalloc_blk) list \<Rightarrow> ptr option" where
  "kmalloc_find sz [] = None"
| "kmalloc_find sz ((p, b) # xs) =
     (if blk_size b \<ge> sz \<and> blk_free b then Some p else kmalloc_find sz xs)"

definition kmalloc :: "u32 \<Rightarrow> 'a kheap_scheme \<Rightarrow> (ptr \<times> 'a kheap_scheme) option" where
  "kmalloc sz s = do {
     l \<leftarrow> spinlock_lock (kmalloc_lock s);
     let s = s\<lparr>kmalloc_lock := l\<rparr>;
     blk \<leftarrow> kmalloc_find sz (kmalloc_head s);
     (addr, head) \<leftarrow> kmalloc_split blk sz (kmalloc_head s);
     Some (addr, s\<lparr>kmalloc_head := head, kmalloc_lock := spinlock_unlock l\<rparr>)
   }"

text \<open>The two halves of \<^verbatim>\<open>kmerge\<close>: absorb the next block, then let the previous one absorb this.\<close>

definition kmerge_next :: "ptr \<Rightarrow> (ptr \<times> kmalloc_blk) list \<Rightarrow> (ptr \<times> kmalloc_blk) list option" where
  "kmerge_next blk head = do {
     b \<leftarrow> map_of head blk;
     Some (case klist_next_elem blk head of
        None \<Rightarrow> head
      | Some (nxt, nb) \<Rightarrow>
          if blk_free nb \<and> nxt = blk + sizeof_blk + blk_size b
          then klist_remove nxt
                 (klist_update blk (\<lambda>b. b\<lparr>blk_size := blk_size b + (blk_size nb + sizeof_blk)\<rparr>) head)
          else head)
   }"

definition kmerge_prev :: "ptr \<Rightarrow> (ptr \<times> kmalloc_blk) list \<Rightarrow> (ptr \<times> kmalloc_blk) list option" where
  "kmerge_prev blk head = do {
     b \<leftarrow> map_of head blk;
     Some (case klist_prev_elem blk head of
        None \<Rightarrow> head
      | Some (prv, pb) \<Rightarrow>
          if blk_free pb \<and> blk = prv + sizeof_blk + blk_size pb
          then klist_remove blk
                 (klist_update prv (\<lambda>pb. pb\<lparr>blk_size := blk_size pb + (blk_size b + sizeof_blk)\<rparr>) head)
          else head)
   }"

definition kmerge :: "ptr \<Rightarrow> (ptr \<times> kmalloc_blk) list \<Rightarrow> (ptr \<times> kmalloc_blk) list option" where
  "kmerge blk head = Option.bind (kmerge_next blk head) (kmerge_prev blk)"

text \<open>
  \<^verbatim>\<open>kfree\<close> reads the header in front of the pointer. A pointer with no header on the list is not
  a block of the heap: what the source reads there is not determined, and the model does not
  return.
\<close>

definition kfree :: "ptr \<Rightarrow> 'a kheap_scheme \<Rightarrow> 'a kheap_scheme option" where
  "kfree p s =
     (if p = NULL then Some s
      else do {
        let blk = p - sizeof_blk;
        b \<leftarrow> map_of (kmalloc_head s) blk;
        if blk_ptr b \<noteq> p then None
        else do {
          l \<leftarrow> spinlock_lock (kmalloc_lock s);
          let s = s\<lparr>kmalloc_lock := l, kmalloc_head := klist_update blk (blk_free_update (\<lambda>_. True)) (kmalloc_head s)\<rparr>;
          head \<leftarrow> kmerge blk (kmalloc_head s);
          Some (s\<lparr>kmalloc_head := head, kmalloc_lock := spinlock_unlock l\<rparr>)
        }
      })"

definition krealloc :: "ptr \<Rightarrow> u32 \<Rightarrow> 'a kheap_scheme \<Rightarrow> (ptr \<times> 'a kheap_scheme) option" where
  "krealloc p new_size s =
     (if p = NULL then kmalloc new_size s
      else do {
        let old_blk = p - sizeof_blk;
        b \<leftarrow> map_of (kmalloc_head s) old_blk;
        if blk_ptr b \<noteq> p then None
        else do {
          (new_area, s) \<leftarrow> kmalloc new_size s;
          if new_area = NULL then Some (NULL, s)
          else do {
            ob \<leftarrow> map_of (kmalloc_head s) old_blk;
            let n = (if new_size > blk_size ob then blk_size ob else new_size);
            let s = s\<lparr>kbytes := snd (memcpy new_area p n (kbytes s))\<rparr>;
            s \<leftarrow> kfree p s;
            Some (new_area, s)
          }
        }
      })"

section \<open>The heap invariant\<close>

text \<open>\<open>chain a xs b\<close>: the blocks \<open>xs\<close>, in order, tile the addresses from \<open>a\<close> to \<open>b\<close>.\<close>

fun chain :: "nat \<Rightarrow> (ptr \<times> kmalloc_blk) list \<Rightarrow> nat \<Rightarrow> bool" where
  "chain a [] b \<longleftrightarrow> a = b"
| "chain a ((p, k) # xs) b \<longleftrightarrow>
     unat p = a \<and> blk_ptr k = p + sizeof_blk \<and> chain (a + 20 + unat (blk_size k)) xs b"

text \<open>No two neighbours are both free.\<close>

fun coalesced :: "(ptr \<times> kmalloc_blk) list \<Rightarrow> bool" where
  "coalesced (x # y # xs) \<longleftrightarrow> \<not> (blk_free (snd x) \<and> blk_free (snd y)) \<and> coalesced (y # xs)"
| "coalesced xs \<longleftrightarrow> True"

definition heap_inv :: "nat \<Rightarrow> nat \<Rightarrow> 'a kheap_scheme \<Rightarrow> bool" where
  "heap_inv a b s \<longleftrightarrow> \<not> kmalloc_lock s \<and> 0 < a \<and> b < 2 ^ 32
     \<and> chain a (kmalloc_head s) b \<and> coalesced (kmalloc_head s)"

text \<open>The live pointers and the data area behind each.\<close>

definition live_of :: "(ptr \<times> kmalloc_blk) list \<Rightarrow> ptr set" where
  "live_of xs = (\<lambda>x. blk_ptr (snd x)) ` {x \<in> set xs. \<not> blk_free (snd x)}"

definition live :: "'a kheap_scheme \<Rightarrow> ptr set" where
  "live s = live_of (kmalloc_head s)"

definition area :: "'a kheap_scheme \<Rightarrow> ptr \<Rightarrow> nat set" where
  "area s p = (case map_of (kmalloc_head s) (p - sizeof_blk) of
      None \<Rightarrow> {} | Some k \<Rightarrow> {unat p ..< unat p + unat (blk_size k)})"

section \<open>Chains of blocks\<close>

lemma unat_sizeof_blk [simp]: "unat sizeof_blk = 20"
  by (simp add: sizeof_blk_def)

lemma unat_blk_end [word_unat]:
  "unat p + 20 + unat n < 2 ^ 32 \<Longrightarrow> unat (p + sizeof_blk + n) = unat p + 20 + unat n"
  by (simp add: sizeof_blk_def unat_word_ariths)

lemma unat_blk_ptr [word_unat]: "unat p + 20 < 2 ^ 32 \<Longrightarrow> unat (p + sizeof_blk) = unat p + 20"
  by (simp add: sizeof_blk_def unat_word_ariths)

lemma chain_append: "chain a (us @ vs) b \<longleftrightarrow> (\<exists>c. chain a us c \<and> chain c vs b)"
  by (induction us arbitrary: a) auto

lemma chain_le: "chain a xs b \<Longrightarrow> a \<le> b"
  by (induction xs arbitrary: a) force+

lemma chain_split:
  "chain a (us @ (p, k) # vs) b \<longleftrightarrow>
     chain a us (unat p) \<and> blk_ptr k = p + sizeof_blk \<and> chain (unat p + 20 + unat (blk_size k)) vs b"
  by (auto simp: chain_append)

lemma chain_bounds:
  assumes "chain a xs b" and "(p, k) \<in> set xs"
  shows "a \<le> unat p" and "unat p + 20 + unat (blk_size k) \<le> b" and "blk_ptr k = p + sizeof_blk"
proof -
  from assms(2) obtain us vs where "xs = us @ (p, k) # vs" by (meson split_list)
  with assms(1) show "a \<le> unat p" and "unat p + 20 + unat (blk_size k) \<le> b"
    and "blk_ptr k = p + sizeof_blk"
    by (auto simp: chain_split dest: chain_le)
qed

lemma chain_before: "chain a us b \<Longrightarrow> (q, j) \<in> set us \<Longrightarrow> unat q < b"
  using chain_bounds(2) by fastforce

lemma chain_notin:
  assumes "chain a (us @ (p, k) # vs) b"
  shows "p \<notin> fst ` set us" and "p \<notin> fst ` set vs"
proof -
  show "p \<notin> fst ` set us" using assms chain_before [of a us "unat p" p] by (force simp: chain_split)
  show "p \<notin> fst ` set vs"
    using assms chain_bounds(1) [of "unat p + 20 + unat (blk_size k)" vs b] by (force simp: chain_split)
qed

lemma chain_distinct: "chain a xs b \<Longrightarrow> distinct (map fst xs)"
proof (induction xs arbitrary: a)
  case (Cons x xs)
  then show ?case using chain_notin [of a "[]" "fst x" "snd x" xs b] by (cases x) auto
qed simp

lemma coalesced_split:
  "coalesced (us @ x # y # vs) \<longleftrightarrow> coalesced (us @ [x]) \<and> coalesced (x # y # vs)"
  by (induction us rule: coalesced.induct) auto

lemma coalesced_snoc:
  "coalesced (us @ [x]) \<longleftrightarrow> coalesced us \<and> (us = [] \<or> \<not> (blk_free (snd (last us)) \<and> blk_free (snd x)))"
  by (induction us rule: coalesced.induct) auto

lemma coalesced_Cons:
  "coalesced (x # vs) \<longleftrightarrow> coalesced vs \<and> (vs = [] \<or> \<not> (blk_free (snd x) \<and> blk_free (snd (hd vs))))"
  by (cases vs) auto

lemmas coalesced_simps = coalesced_split coalesced_snoc coalesced_Cons

section \<open>Allocation\<close>

lemma kmalloc_find_Some:
  "kmalloc_find sz xs = Some p \<Longrightarrow>
     \<exists>us k vs. xs = us @ (p, k) # vs \<and> blk_free k \<and> sz \<le> blk_size k"
proof (induction xs)
  case (Cons x xs)
  obtain q j where x: "x = (q, j)" by (cases x)
  show ?case
  proof (cases "sz \<le> blk_size j \<and> blk_free j")
    case True
    with Cons.prems x have "x # xs = [] @ (p, j) # xs" by simp
    with True show ?thesis by blast
  next
    case False
    with Cons x obtain us k vs where "xs = us @ (p, k) # vs" "blk_free k" "sz \<le> blk_size k"
      by auto
    then have "x # xs = (x # us) @ (p, k) # vs" by simp
    with \<open>blk_free k\<close> \<open>sz \<le> blk_size k\<close> show ?thesis by blast
  qed
qed simp

lemma kmalloc_find_None:
  "kmalloc_find sz xs = None \<longleftrightarrow> (\<forall>(p, k) \<in> set xs. \<not> (blk_free k \<and> sz \<le> blk_size k))"
  by (induction xs) (auto split: if_splits)

text \<open>What replaces the chosen block.\<close>

definition split_blocks :: "u32 \<Rightarrow> ptr \<Rightarrow> kmalloc_blk \<Rightarrow> (ptr \<times> kmalloc_blk) list" where
  "split_blocks sz p k =
     (if sz + sizeof_blk < blk_size k
      then [(p, k\<lparr>blk_free := False, blk_size := sz\<rparr>),
            (p + sizeof_blk + sz,
             \<lparr>blk_ptr = p + sizeof_blk + sz + sizeof_blk,
              blk_size = blk_size k - sz - sizeof_blk, blk_free = True\<rparr>)]
      else [(p, k\<lparr>blk_free := False\<rparr>)])"

lemma kmalloc_split_eq:
  assumes "p \<notin> fst ` set us"
  shows "kmalloc_split p sz (us @ (p, k) # vs) = Some (blk_ptr k, us @ split_blocks sz p k @ vs)"
  using assms by (simp add: kmalloc_split_def split_blocks_def klist_simps Let_def del: map_of_append)

lemma unat_add_blk: "unat (sz :: u32) + 20 < 2 ^ 32 \<Longrightarrow> unat (sz + sizeof_blk) = unat sz + 20"
  by (simp add: sizeof_blk_def unat_word_ariths)

lemma chain_split_blocks:
  assumes "unat p + 20 + unat (blk_size k) < 2 ^ 32" and "sz \<le> blk_size k"
    and "blk_ptr k = p + sizeof_blk"
  shows "chain (unat p) (split_blocks sz p k) (unat p + 20 + unat (blk_size k))"
proof (cases "sz + sizeof_blk < blk_size k")
  case True
  have sz: "unat sz \<le> unat (blk_size k)" using assms(2) by (simp add: word_le_nat_alt)
  then have "unat (sz + sizeof_blk) = unat sz + 20" using assms(1) by (intro unat_add_blk) simp
  with True have lt: "unat sz + 20 < unat (blk_size k)" by (simp add: word_less_nat_alt)
  have "unat (blk_size k - sz) = unat (blk_size k) - unat sz"
    using assms(2) by (simp add: word_unat)
  moreover from this lt have "sizeof_blk \<le> blk_size k - sz" by (simp add: word_le_nat_alt)
  ultimately have "unat (blk_size k - sz - sizeof_blk) = unat (blk_size k) - unat sz - 20"
    by (simp add: word_unat)
  moreover have "unat (p + sizeof_blk + sz) = unat p + 20 + unat sz"
    using assms(1) lt by (intro word_unat) simp
  ultimately show ?thesis using True assms lt by (simp add: split_blocks_def)
next
  case False
  with assms show ?thesis by (simp add: split_blocks_def)
qed

lemma kmalloc_SomeD:
  assumes "heap_inv a b s" and "kmalloc sz s = Some (p, s')"
  shows "\<exists>us blk k vs. kmalloc_head s = us @ (blk, k) # vs \<and> blk_free k \<and> sz \<le> blk_size k
           \<and> p = blk_ptr k \<and> s' = s\<lparr>kmalloc_head := us @ split_blocks sz blk k @ vs\<rparr>"
proof -
  from assms obtain blk where blk: "kmalloc_find sz (kmalloc_head s) = Some blk"
    by (auto simp: kmalloc_def heap_inv_def spinlock_defs bind_eq_Some_iff)
  then obtain us k vs where d: "kmalloc_head s = us @ (blk, k) # vs" "blk_free k" "sz \<le> blk_size k"
    using kmalloc_find_Some by blast
  have "blk \<notin> fst ` set us" using assms(1) d chain_notin(1) by (metis heap_inv_def)
  then have "kmalloc_split blk sz (kmalloc_head s) = Some (blk_ptr k, us @ split_blocks sz blk k @ vs)"
    using d kmalloc_split_eq by simp
  with assms blk have "p = blk_ptr k"
    and "s' = s\<lparr>kmalloc_lock := False, kmalloc_head := us @ split_blocks sz blk k @ vs\<rparr>"
    by (auto simp: kmalloc_def heap_inv_def spinlock_defs)
  moreover have "s\<lparr>kmalloc_lock := False\<rparr> = s" using assms(1) by (simp add: heap_inv_def)
  ultimately show ?thesis using d by metis
qed

lemma live_of_Nil [simp]: "live_of [] = {}"
  by (simp add: live_of_def)

lemma live_of_Cons [simp]:
  "live_of (x # xs) = (if blk_free (snd x) then {} else {blk_ptr (snd x)}) \<union> live_of xs"
  by (auto simp: live_of_def)

lemma live_of_append [simp]: "live_of (xs @ ys) = live_of xs \<union> live_of ys"
  by (auto simp: live_of_def)

lemma live_of_split_blocks [simp]: "live_of (split_blocks sz p k) = {blk_ptr k}"
  by (auto simp: split_blocks_def)

lemma live_ofE:
  assumes "p \<in> live_of xs"
  obtains q k where "(q, k) \<in> set xs" and "\<not> blk_free k" and "p = blk_ptr k"
  using assms by (auto simp: live_of_def intro: that)

text \<open>A live pointer determines its block.\<close>

lemma chain_live_notin:
  assumes "chain a (us @ (p, k) # vs) b"
  shows "p + sizeof_blk \<notin> live_of us \<union> live_of vs"
proof
  assume "p + sizeof_blk \<in> live_of us \<union> live_of vs"
  then obtain q j where q: "(q, j) \<in> set us \<union> set vs" and "p + sizeof_blk = blk_ptr j"
    by (metis UnE UnI1 UnI2 live_ofE)
  moreover have "blk_ptr j = q + sizeof_blk" using q chain_bounds(3) [OF assms, of q j] by auto
  ultimately have "q = p" by simp
  with q chain_notin [OF assms] show False by force
qed

lemma chain_live_nonnull:
  assumes "chain a xs b" and "b < 2 ^ 32" and "p \<in> live_of xs"
  shows "p \<noteq> NULL"
proof -
  from assms(3) obtain q k where q: "(q, k) \<in> set xs" and "p = blk_ptr k"
    by (auto elim: live_ofE)
  with chain_bounds [OF assms(1) q] assms(2) have "unat p = unat q + 20"
    by (simp add: word_unat)
  then show ?thesis by auto
qed

lemma area_block:
  assumes "heap_inv a b s" and "(q, k) \<in> set (kmalloc_head s)"
  shows "area s (blk_ptr k) = {unat q + 20 ..< unat q + 20 + unat (blk_size k)}"
proof -
  have c: "chain a (kmalloc_head s) b" and "b < 2 ^ 32" using assms(1) by (auto simp: heap_inv_def)
  note c [THEN chain_distinct]
  then have "map_of (kmalloc_head s) q = Some k" using assms(2) by simp
  moreover have "blk_ptr k = q + sizeof_blk" and "unat q + 20 < 2 ^ 32"
    using chain_bounds [OF c assms(2)] \<open>b < 2 ^ 32\<close> by auto
  ultimately show ?thesis by (simp add: area_def word_unat)
qed

lemma blocks_disjoint:
  assumes "chain a xs b" and "(p, k) \<in> set xs" and "(q, j) \<in> set xs" and "p \<noteq> q"
  shows "unat p + 20 + unat (blk_size k) \<le> unat q \<or> unat q + 20 + unat (blk_size j) \<le> unat p"
proof -
  from assms(2) obtain us vs where xs: "xs = us @ (p, k) # vs" by (meson split_list)
  with assms have "(q, j) \<in> set us \<or> (q, j) \<in> set vs" by auto
  with assms(1) xs show ?thesis
    using chain_bounds(2) [of a us "unat p" q j] chain_bounds(1) [of "unat p + 20 + unat (blk_size k)" vs b q j]
    by (auto simp: chain_split)
qed

lemma live_areas_disjoint:
  assumes inv: "heap_inv a b s" and "p \<in> live s" and "q \<in> live s" and "p \<noteq> q"
  shows "area s p \<inter> area s q = {}"
proof -
  from assms obtain x k y j where x: "(x, k) \<in> set (kmalloc_head s)" "p = blk_ptr k"
    and y: "(y, j) \<in> set (kmalloc_head s)" "q = blk_ptr j"
    unfolding live_def by (metis live_ofE)
  have c: "chain a (kmalloc_head s) b" using inv by (simp add: heap_inv_def)
  with x y \<open>p \<noteq> q\<close> chain_bounds(3) [OF c] have "x \<noteq> y" by metis
  from blocks_disjoint [OF c x(1) y(1) this] area_block [OF inv x(1)] area_block [OF inv y(1)] x(2) y(2)
  show ?thesis by auto
qed

lemma coalesced_split_blocks:
  assumes "coalesced (us @ (p, k) # vs)" and "blk_free k"
  shows "coalesced (us @ split_blocks sz p k @ vs)"
  using assms by (cases vs) (auto simp: split_blocks_def coalesced_simps)

lemma kmalloc_inv:
  assumes inv: "heap_inv a b s" and "kmalloc n s = Some (p, s')"
  shows "heap_inv a b s'" and "p \<notin> live s" and "live s' = insert p (live s)" and "p \<noteq> NULL"
proof -
  from kmalloc_SomeD [OF assms] obtain us blk k vs where
    h: "kmalloc_head s = us @ (blk, k) # vs" "blk_free k" "n \<le> blk_size k" "p = blk_ptr k"
    "s' = s\<lparr>kmalloc_head := us @ split_blocks n blk k @ vs\<rparr>" by blast
  have c: "chain a (us @ (blk, k) # vs) b" and b: "b < 2 ^ 32" using inv h by (auto simp: heap_inv_def)
  have "unat blk + 20 + unat (blk_size k) < 2 ^ 32" and p: "blk_ptr k = blk + sizeof_blk"
    using chain_bounds [OF c, of blk k] b by auto
  from chain_split_blocks [OF this(1) h(3) this(2)] c
  have "chain a (us @ split_blocks n blk k @ vs) b" by (auto simp: chain_split chain_append)
  then show inv': "heap_inv a b s'" using inv h coalesced_split_blocks by (auto simp: heap_inv_def)
  show live': "live s' = insert p (live s)" using h by (auto simp: live_def)
  show "p \<notin> live s" using h p chain_live_notin [OF c] by (auto simp: live_def)
  show "p \<noteq> NULL"
    using inv' live' chain_live_nonnull [of a "kmalloc_head s'" b p] by (simp add: heap_inv_def live_def)
qed

section \<open>Release\<close>

text \<open>A block and the list behind it, after the block has taken in a free successor.\<close>

fun absorb :: "ptr \<times> kmalloc_blk \<Rightarrow> (ptr \<times> kmalloc_blk) list \<Rightarrow> (ptr \<times> kmalloc_blk) list" where
  "absorb (p, k) ((q, j) # vs) =
     (if blk_free j then (p, k\<lparr>blk_size := blk_size k + (blk_size j + sizeof_blk)\<rparr>) # vs
      else (p, k) # (q, j) # vs)"
| "absorb x [] = [x]"

lemma chain_absorb:
  assumes "chain a (x # vs) b" and "b < 2 ^ 32"
  shows "chain a (absorb x vs) b"
proof (cases vs)
  case (Cons y ws)
  obtain p k q j where xy: "x = (p, k)" "y = (q, j)" by (cases x, cases y)
  with assms Cons have "a + 20 + unat (blk_size k) + 20 + unat (blk_size j) \<le> b"
    by (auto dest: chain_le)
  then have "unat (blk_size k + (blk_size j + sizeof_blk)) = unat (blk_size k) + unat (blk_size j) + 20"
    using assms(2) by (simp add: sizeof_blk_def unat_word_ariths)
  with assms Cons xy show ?thesis by (auto simp: algebra_simps)
qed (use assms in \<open>cases x, auto\<close>)

lemma live_of_absorb [simp]: "live_of (absorb x vs) = live_of (x # vs)"
  by (cases "(x, vs)" rule: absorb.cases) auto

lemma coalesced_absorb:
  "coalesced vs \<Longrightarrow> blk_free (snd x) \<Longrightarrow> coalesced (absorb x vs)"
  by (cases "(x, vs)" rule: absorb.cases) (auto simp: coalesced_simps)

lemma absorb_Cons: "\<exists>k' ws. absorb (p, k) vs = (p, k') # ws \<and> blk_free k' = blk_free k"
  by (cases "((p, k), vs)" rule: absorb.cases) auto

lemma kmerge_next_eq:
  assumes c: "chain a (us @ (p, k) # vs) b" and b: "b < 2 ^ 32"
  shows "kmerge_next p (us @ (p, k) # vs) = Some (us @ absorb (p, k) vs)"
proof (cases vs)
  case Nil
  with chain_notin [OF c] show ?thesis
    by (simp add: kmerge_next_def klist_simps del: map_of_append)
next
  case (Cons y ws)
  obtain q j where y: "y = (q, j)" by (cases y)
  let ?k = "k\<lparr>blk_size := blk_size k + (blk_size j + sizeof_blk)\<rparr>"
  have "q \<notin> fst ` set (us @ [(p, ?k)])"
    using chain_notin(1) [of a "us @ [(p, k)]" q j ws b] c Cons y by auto
  then have "klist_remove q ((us @ [(p, ?k)]) @ (q, j) # ws) = (us @ [(p, ?k)]) @ ws"
    by (rule klist_remove_split)
  moreover have "q = p + sizeof_blk + blk_size k"
  proof (rule unsigned_word_eqI [where ?'a = nat])
    have q: "unat q = unat p + 20 + unat (blk_size k)" using c Cons y by (simp add: chain_split)
    moreover have "unat q < 2 ^ 32" using unsigned_less [of q, where ?'a = nat] by simp
    ultimately show "unat q = unat (p + sizeof_blk + blk_size k)" by (simp add: word_unat)
  qed
  ultimately show ?thesis
    using chain_notin(1) [OF c] Cons y
    by (simp add: kmerge_next_def klist_simps del: map_of_append)
qed

lemma kmerge_prev_eq:
  assumes c: "chain a (us @ (p, k) # vs) b" and b: "b < 2 ^ 32" and "blk_free k"
  shows "kmerge_prev p (us @ (p, k) # vs) =
     Some (if us = [] \<or> \<not> blk_free (snd (last us)) then us @ (p, k) # vs
           else butlast us @ absorb (last us) ((p, k) # vs))"
proof (cases us rule: rev_cases)
  case Nil
  with klist_prev_elem_split [of p "[]" k vs] show ?thesis by (simp add: kmerge_prev_def)
next
  case (snoc ws y)
  obtain q j where y: "y = (q, j)" by (cases y)
  let ?j = "j\<lparr>blk_size := blk_size j + (blk_size k + sizeof_blk)\<rparr>"
  have nq: "q \<notin> fst ` set ws" using chain_notin(1) [of a ws q j "(p, k) # vs" b] c snoc y by simp
  have "p \<notin> fst ` set (ws @ [(q, ?j)])" using chain_notin(1) [OF c] snoc y by auto
  then have "klist_remove p ((ws @ [(q, ?j)]) @ (p, k) # vs) = (ws @ [(q, ?j)]) @ vs"
    by (rule klist_remove_split)
  moreover have "p = q + sizeof_blk + blk_size j"
  proof (rule unsigned_word_eqI [where ?'a = nat])
    have p: "unat p = unat q + 20 + unat (blk_size j)" using c snoc y by (simp add: chain_split)
    moreover have "unat p < 2 ^ 32" using unsigned_less [of p, where ?'a = nat] by simp
    ultimately show "unat p = unat (q + sizeof_blk + blk_size j)" by (simp add: word_unat)
  qed
  moreover have "klist_update q f (ws @ (q, j) # (p, k) # vs) = ws @ (q, f j) # (p, k) # vs" for f
    using nq by (rule klist_update_split)
  moreover have "map_of (us @ (p, k) # vs) p = Some k"
    using chain_notin(1) [OF c] by (rule map_of_split)
  moreover have "klist_prev_elem p (us @ (p, k) # vs) = Some (q, j)"
    using klist_prev_elem_split [OF chain_notin(1) [OF c]] snoc y by simp
  ultimately show ?thesis
    using snoc y \<open>blk_free k\<close> by (simp add: kmerge_prev_def del: map_of_append)
qed

text \<open>The list after a live block has been released.\<close>

definition freed :: "(ptr \<times> kmalloc_blk) list \<Rightarrow> ptr \<Rightarrow> kmalloc_blk \<Rightarrow> (ptr \<times> kmalloc_blk) list
    \<Rightarrow> (ptr \<times> kmalloc_blk) list" where
  "freed us p k vs =
     (let ws = absorb (p, k\<lparr>blk_free := True\<rparr>) vs
      in if us = [] \<or> \<not> blk_free (snd (last us)) then us @ ws else butlast us @ absorb (last us) ws)"

lemma kfree_eq:
  assumes inv: "heap_inv a b s" and h: "kmalloc_head s = us @ (p, k) # vs"
  shows "kfree (blk_ptr k) s = Some (s\<lparr>kmalloc_head := freed us p k vs\<rparr>)"
proof -
  let ?k = "k\<lparr>blk_free := True\<rparr>"
  have c: "chain a (us @ (p, k) # vs) b" and b: "b < 2 ^ 32" and nl: "\<not> kmalloc_lock s"
    using inv h by (auto simp: heap_inv_def)
  have c': "chain a (us @ (p, ?k) # vs) b" using c by (simp add: chain_split)
  obtain k' ws where ab: "absorb (p, ?k) vs = (p, k') # ws" and k': "blk_free k'"
    using absorb_Cons [of p ?k vs] by auto
  have "chain a (us @ (p, k') # ws) b"
    using c' b chain_absorb [of _ "(p, ?k)" vs b] unfolding ab [symmetric] by (auto simp: chain_append)
  note prev = kmerge_prev_eq [OF this b k']
  have pk: "blk_ptr k = p + sizeof_blk" using chain_bounds(3) [OF c, of p k] by simp
  have "b \<ge> unat p + 20" using chain_bounds(2) [OF c, of p k] by simp
  then have "blk_ptr k \<noteq> NULL" using b pk unat_blk_ptr [of p] by auto
  moreover have "s\<lparr>kmalloc_lock := False\<rparr> = s" using nl by simp
  moreover have "klist_update p (blk_free_update (\<lambda>_. True)) (us @ (p, k) # vs) = us @ (p, ?k) # vs"
    using chain_notin(1) [OF c] by (rule klist_update_split)
  moreover have "map_of (us @ (p, k) # vs) p = Some k"
    using chain_notin(1) [OF c] by (rule map_of_split)
  moreover have "kmerge p (us @ (p, ?k) # vs) = Some (freed us p k vs)"
    using kmerge_next_eq [OF c' b] prev ab by (simp add: kmerge_def freed_def Let_def)
  ultimately show ?thesis
    using h nl pk by (simp add: kfree_def spinlock_defs del: map_of_append)
qed

lemma freed_correct:
  assumes c: "chain a (us @ (p, k) # vs) b" and b: "b < 2 ^ 32" and co: "coalesced (us @ (p, k) # vs)"
  shows "chain a (freed us p k vs) b" and "coalesced (freed us p k vs)"
    and "live_of (freed us p k vs) = live_of us \<union> live_of vs"
proof -
  let ?ws = "absorb (p, k\<lparr>blk_free := True\<rparr>) vs"
  obtain k' ws where ab: "?ws = (p, k') # ws" and k': "blk_free k'"
    using absorb_Cons [of p "k\<lparr>blk_free := True\<rparr>" vs] by auto
  have ch: "chain a (us @ ?ws) b"
    using c b chain_absorb [of _ "(p, k\<lparr>blk_free := True\<rparr>)" vs b] by (auto simp: chain_append)
  then show "chain a (freed us p k vs) b"
    using b chain_absorb [of _ "last us" ?ws b]
    by (cases us rule: rev_cases) (auto simp: freed_def Let_def chain_append)
  have "coalesced vs" using co by (cases vs) (auto simp: coalesced_simps)
  then have w: "coalesced ?ws" by (rule coalesced_absorb) simp
  have u: "coalesced us" using co by (cases vs) (auto simp: coalesced_simps)
  show "live_of (freed us p k vs) = live_of us \<union> live_of vs"
    by (cases us rule: rev_cases) (auto simp: freed_def Let_def)
  show "coalesced (freed us p k vs)"
    using u w k' by (cases us rule: rev_cases; cases ws) (auto simp: freed_def Let_def ab coalesced_simps)
qed

lemma kfree_inv:
  assumes inv: "heap_inv a b s" and "p \<in> live s"
  shows "\<exists>s'. kfree p s = Some s' \<and> heap_inv a b s' \<and> live s' = live s - {p}"
proof -
  from assms(2) obtain q k where qk: "(q, k) \<in> set (kmalloc_head s)" "\<not> blk_free k" "p = blk_ptr k"
    unfolding live_def by (rule live_ofE)
  from this(1) obtain us vs where h: "kmalloc_head s = us @ (q, k) # vs" by (meson split_list)
  have c: "chain a (us @ (q, k) # vs) b" and b: "b < 2 ^ 32" and co: "coalesced (us @ (q, k) # vs)"
    using inv h by (auto simp: heap_inv_def)
  note f = freed_correct [OF this]
  have "heap_inv a b (s\<lparr>kmalloc_head := freed us q k vs\<rparr>)"
    using inv f(1, 2) by (simp add: heap_inv_def)
  moreover have "p \<notin> live_of us \<union> live_of vs"
    using chain_live_notin [OF c] chain_bounds(3) [OF c, of q k] qk(3) by simp
  then have "live (s\<lparr>kmalloc_head := freed us q k vs\<rparr>) = live s - {p}"
    using f(3) h qk by (auto simp: live_def)
  ultimately show ?thesis using kfree_eq [OF inv h] qk(3) by simp
qed

text \<open>Neither operation touches anything but the list of blocks.\<close>

lemma kmalloc_unlocked:
  "\<not> kmalloc_lock s \<Longrightarrow> s\<lparr>kmalloc_head := h, kmalloc_lock := False\<rparr> = s\<lparr>kmalloc_head := h\<rparr>"
  by (rule kheap.equality) simp_all

lemma kmalloc_frame:
  assumes "kmalloc n s = Some (p, s')"
  shows "\<exists>h. s' = s\<lparr>kmalloc_head := h\<rparr>"
proof -
  from assms have l: "\<not> kmalloc_lock s" by (auto simp: kmalloc_def spinlock_defs)
  with assms obtain blk q h where "kmalloc_split blk n (kmalloc_head s) = Some (q, h)"
      and "s' = s\<lparr>kmalloc_head := h, kmalloc_lock := False\<rparr>"
    by (auto simp: kmalloc_def spinlock_defs bind_eq_Some_iff)
  then have "s' = s\<lparr>kmalloc_head := h\<rparr>" using kmalloc_unlocked [OF l] by simp
  then show ?thesis by (rule exI)
qed

lemma kfree_frame:
  assumes "kfree p s = Some s'"
  shows "\<exists>h. s' = s\<lparr>kmalloc_head := h\<rparr>"
proof (cases "p = NULL")
  case True
  with assms have "s' = s\<lparr>kmalloc_head := kmalloc_head s\<rparr>" by (simp add: kfree_def)
  then show ?thesis by (rule exI)
next
  case False
  with assms have l: "\<not> kmalloc_lock s" by (auto simp: kfree_def spinlock_defs Let_def bind_eq_Some_iff split: if_splits)
  with assms False obtain h where
      "kmerge (p - sizeof_blk) (klist_update (p - sizeof_blk) (blk_free_update (\<lambda>_. True)) (kmalloc_head s)) = Some h"
      and "s' = s\<lparr>kmalloc_head := h, kmalloc_lock := False\<rparr>"
    by (auto simp: kfree_def spinlock_defs bind_eq_Some_iff Let_def split: if_splits)
  then have "s' = s\<lparr>kmalloc_head := h\<rparr>" using kmalloc_unlocked [OF l] by simp
  then show ?thesis by (rule exI)
qed

text \<open>\<open>heap_only s s'\<close>: between \<open>s\<close> and \<open>s'\<close> only the list of heap blocks changed.\<close>

definition heap_only :: "'a kheap_scheme \<Rightarrow> 'a kheap_scheme \<Rightarrow> bool" where
  "heap_only s s' \<longleftrightarrow> s' = s\<lparr>kmalloc_head := kmalloc_head s'\<rparr>"

lemma heap_only_refl [simp]: "heap_only s s"
  by (simp add: heap_only_def)

lemma heap_only_intro: "heap_only s (s\<lparr>kmalloc_head := h\<rparr>)"
  by (simp add: heap_only_def)

lemma heap_only_trans:
  assumes "heap_only s t" and "heap_only t u"
  shows "heap_only s u"
proof -
  have "u = t\<lparr>kmalloc_head := kmalloc_head u\<rparr>" and "t = s\<lparr>kmalloc_head := kmalloc_head t\<rparr>"
    using assms by (simp_all add: heap_only_def)
  then have "u = s\<lparr>kmalloc_head := kmalloc_head t, kmalloc_head := kmalloc_head u\<rparr>" by simp
  then show ?thesis by (simp add: heap_only_def)
qed

lemma heap_onlyE:
  assumes "heap_only s t"
  obtains h where "t = s\<lparr>kmalloc_head := h\<rparr>"
  using assms unfolding heap_only_def by (rule that)

lemma kmalloc_heap_only: "kmalloc n s = Some (p, s') \<Longrightarrow> heap_only s s'"
  using kmalloc_frame heap_only_intro by metis

lemma kfree_heap_only: "kfree p s = Some s' \<Longrightarrow> heap_only s s'"
  using kfree_frame heap_only_intro by metis

section \<open>The contract of an allocator\<close>

text \<open>
  What every client of the heap relies on: an allocation gives a fresh non-null pointer, a
  live pointer can be released, and nothing else becomes live or dead.
\<close>

locale allocator =
  fixes inv :: "'s \<Rightarrow> bool"
    and alive :: "'s \<Rightarrow> ptr set"
    and alloc :: "u32 \<Rightarrow> 's \<Rightarrow> (ptr \<times> 's) option"
    and release :: "ptr \<Rightarrow> 's \<Rightarrow> 's option"
  assumes alloc_inv: "inv s \<Longrightarrow> alloc n s = Some (p, s') \<Longrightarrow> inv s'"
    and alloc_fresh: "inv s \<Longrightarrow> alloc n s = Some (p, s') \<Longrightarrow> p \<notin> alive s \<and> p \<noteq> NULL"
    and alloc_alive: "inv s \<Longrightarrow> alloc n s = Some (p, s') \<Longrightarrow> alive s' = insert p (alive s)"
    and release_alive: "inv s \<Longrightarrow> p \<in> alive s \<Longrightarrow>
          \<exists>s'. release p s = Some s' \<and> inv s' \<and> alive s' = alive s - {p}"
    and release_NULL: "release NULL s = Some s"
begin

text \<open>A table keyed by live pointers has no entry for a new one.\<close>

lemma alloc_new_key:
  assumes "inv s" and "alloc n s = Some (p, s')" and "fst ` set m \<subseteq> alive s"
  shows "map_of m p = None" and "fst ` set ((p, x) # m) \<subseteq> alive s'"
proof -
  show "map_of m p = None" using alloc_fresh [OF assms(1, 2)] assms(3) by (auto simp: map_of_eq_None_iff)
  show "fst ` set ((p, x) # m) \<subseteq> alive s'" using alloc_alive [OF assms(1, 2)] assms(3) by auto
qed

lemma alloc_release:
  assumes "inv s" and "alloc n s = Some (p, s')"
  shows "\<exists>s''. release p s' = Some s'' \<and> inv s'' \<and> alive s'' = alive s"
proof -
  have "inv s'" and "p \<in> alive s'" using alloc_inv [OF assms] alloc_alive [OF assms] by auto
  from release_alive [OF this] obtain s'' where "release p s' = Some s''" "inv s''"
    "alive s'' = alive s' - {p}" by blast
  with alloc_alive [OF assms] alloc_fresh [OF assms] show ?thesis by auto
qed

lemma release_all:
  assumes "inv s" and "distinct ps" and "set ps \<subseteq> alive s"
  shows "\<exists>s'. for_each release ps s = Some s' \<and> inv s' \<and> alive s' = alive s - set ps"
  using assms
proof (induction ps arbitrary: s)
  case (Cons p ps)
  then obtain s1 where s1: "release p s = Some s1" "inv s1" "alive s1 = alive s - {p}"
    using release_alive [of s p] by auto
  with Cons.prems have "set ps \<subseteq> alive s1" by auto
  with Cons.IH [of s1] Cons.prems s1 show ?case by auto
qed simp

end

interpretation heap: allocator "heap_inv a b" live kmalloc kfree for a b
proof unfold_locales
  fix s s' :: "'a kheap_scheme" and n p
  show "heap_inv a b s'" and "p \<notin> live s \<and> p \<noteq> NULL" and "live s' = insert p (live s)"
    if "heap_inv a b s" and "kmalloc n s = Some (p, s')"
    using kmalloc_inv [OF that] by blast+
  show "\<exists>s'. kfree p s = Some s' \<and> heap_inv a b s' \<and> live s' = live s - {p}"
    if "heap_inv a b s" and "p \<in> live s"
    using that by (rule kfree_inv)
  show "kfree NULL s = Some s" by (simp add: kfree_def)
qed

section \<open>Correctness\<close>

lemma kmalloc_initialize_inv:
  assumes "heap_start boot \<noteq> 0" and "0x1014 \<le> unat (heap_size boot)"
    and "unat (heap_start boot) + unat (heap_size boot) - 0x1000 < 2 ^ 32"
  shows "heap_inv (unat (heap_start boot)) (unat (heap_start boot) + unat (heap_size boot) - 0x1000)
           (kmalloc_initialize boot s)"
proof -
  let ?n = "heap_size boot - 0x1000 - 20"
  have "(0x1014 :: u64) \<le> heap_size boot" using assms(2) by (simp add: word_le_nat_alt)
  then have "unat (heap_size boot - 0x1014) = unat (heap_size boot) - 0x1014" by (simp add: unat_sub)
  then have "unat ?n = unat (heap_size boot) - 0x1000 - 20" by simp
  moreover from this have "unat (ucast ?n :: u32) = unat ?n"
    using assms(2, 3) by (simp add: unsigned_ucast_eq take_bit_nat_eq_self)
  moreover have "ucast sizeof_blk = (20 :: u64)" and "ucast KSTACK_SIZE = (0x1000 :: u64)"
    by (simp_all add: sizeof_blk_def KSTACK_SIZE_def)
  ultimately show ?thesis
    using assms by (simp add: heap_inv_def kmalloc_initialize_def spinlock_defs unat_gt_0 Let_def)
qed

lemma area_kmalloc:
  assumes inv: "heap_inv a b s" and ok: "kmalloc n s = Some (p, s')"
  shows "q \<in> live s \<Longrightarrow> area s' q = area s q" and "area s' p \<subseteq> {a..<b}"
    and "unat n \<le> card (area s' p)"
proof -
  from kmalloc_SomeD [OF assms] obtain us blk k vs where
    h: "kmalloc_head s = us @ (blk, k) # vs" "blk_free k" "n \<le> blk_size k" "p = blk_ptr k"
    "s' = s\<lparr>kmalloc_head := us @ split_blocks n blk k @ vs\<rparr>" by blast
  note inv' = kmalloc_inv(1) [OF assms]
  show "area s' q = area s q" if "q \<in> live s"
  proof -
    from that h obtain x j where "(x, j) \<in> set us \<union> set vs" "q = blk_ptr j"
      unfolding live_def by (fastforce elim: live_ofE)
    then show ?thesis using area_block [OF inv, of x j] area_block [OF inv', of x j] h by auto
  qed
  define k' where "k' = (if n + sizeof_blk < blk_size k then k\<lparr>blk_free := False, blk_size := n\<rparr>
     else k\<lparr>blk_free := False\<rparr>)"
  have k': "(blk, k') \<in> set (kmalloc_head s')" and "blk_ptr k' = p" and n: "n \<le> blk_size k'"
    using h by (auto simp: k'_def split_blocks_def)
  then have ar: "area s' p = {unat blk + 20 ..< unat blk + 20 + unat (blk_size k')}"
    using area_block [OF inv' k'] by simp
  have "chain a (kmalloc_head s') b" using inv' by (simp add: heap_inv_def)
  from chain_bounds [OF this k'] ar show "area s' p \<subseteq> {a..<b}" by auto
  show "unat n \<le> card (area s' p)" using n ar by (simp add: word_le_nat_alt)
qed

lemma kmalloc_None:
  assumes "heap_inv a b s"
  shows "kmalloc n s = None \<longleftrightarrow> (\<forall>(p, k) \<in> set (kmalloc_head s). blk_free k \<longrightarrow> blk_size k < n)"
proof (cases "kmalloc_find n (kmalloc_head s)")
  case None
  then have "kmalloc n s = None" by (auto simp: kmalloc_def split: Option.bind_splits)
  with None show ?thesis by (auto simp: kmalloc_find_None)
next
  case (Some blk)
  from kmalloc_find_Some [OF this] obtain us k vs where h: "kmalloc_head s = us @ (blk, k) # vs"
    by blast
  have "blk \<notin> fst ` set us" using assms h chain_notin(1) by (metis heap_inv_def)
  with Some h assms have "kmalloc n s \<noteq> None"
    by (simp add: kmalloc_def heap_inv_def spinlock_defs kmalloc_split_eq)
  moreover have "kmalloc_find n (kmalloc_head s) \<noteq> None" using Some by simp
  ultimately show ?thesis unfolding kmalloc_find_None by auto
qed

definition heap_example :: kheap where
  "heap_example = kmalloc_initialize \<lparr>segs = [], mods = [], heap_start = 0x1000, heap_size = 0x2000\<rparr>
     \<lparr>kmalloc_lock = False, kmalloc_head = [], kbytes = (\<lambda>_. 0)\<rparr>"

lemma heap_example_inv: "heap_inv 0x1000 0x2000 heap_example"
  using kmalloc_initialize_inv [of "\<lparr>segs = [], mods = [], heap_start = 0x1000, heap_size = 0x2000\<rparr>"]
  by (simp add: heap_example_def)

definition heap_example2 :: kheap where
  "heap_example2 = snd (the (kmalloc 100 heap_example))"

lemma heap_example2_eq: "kmalloc 100 heap_example = Some (0x1014, heap_example2)"
  by (simp add: heap_example2_def heap_example_def kmalloc_def kmalloc_initialize_def kmalloc_split_def
      spinlock_defs sizeof_blk_def KSTACK_SIZE_def Let_def)

text \<open>
  C1. \<^verbatim>\<open>kmalloc\<close> is a correct first-fit allocator. It returns exactly when some free block is large
  enough (otherwise it panics). What it returns is a non-null pointer that was not live, to an
  area inside the heap of at least the requested size. The heap stays well formed: the blocks
  still tile it, no two neighbours are free, the lock is free. Exactly this pointer becomes
  live, and the areas of the other live pointers are unchanged and do not meet the new one.
\<close>
theorem kmalloc_correct:
  assumes "heap_inv a b s"
  shows "(kmalloc n s = None \<longleftrightarrow> (\<forall>(p, k) \<in> set (kmalloc_head s). blk_free k \<longrightarrow> blk_size k < n))
    \<and> (\<forall>p s'. kmalloc n s = Some (p, s') \<longrightarrow>
         heap_inv a b s' \<and> p \<noteq> NULL \<and> p \<notin> live s \<and> live s' = insert p (live s)
         \<and> unat n \<le> card (area s' p) \<and> area s' p \<subseteq> {a..<b}
         \<and> (\<forall>q \<in> live s. area s' q = area s q \<and> area s' q \<inter> area s' p = {}))"
proof (intro conjI allI impI)
  show "(kmalloc n s = None \<longleftrightarrow> (\<forall>(p, k) \<in> set (kmalloc_head s). blk_free k \<longrightarrow> blk_size k < n))"
    using assms by (rule kmalloc_None)
  fix p s' assume ok: "kmalloc n s = Some (p, s')"
  note inv = kmalloc_inv [OF assms ok] and ar = area_kmalloc [OF assms ok]
  show "heap_inv a b s'" "p \<noteq> NULL" "p \<notin> live s" "live s' = insert p (live s)"
    "unat n \<le> card (area s' p)" "area s' p \<subseteq> {a..<b}" using inv ar by auto
  show "\<forall>q \<in> live s. area s' q = area s q \<and> area s' q \<inter> area s' p = {}"
    using ar(1) inv live_areas_disjoint [OF inv(1)] by (metis insertCI)
qed

theorem kmalloc_correct_witness:
  "heap_inv 0x1000 0x2000 heap_example \<and> kmalloc 100 heap_example = Some (0x1014, heap_example2)
     \<and> live heap_example2 = insert 0x1014 (live heap_example)"
  using kmalloc_correct [OF heap_example_inv, of 100] heap_example2_eq heap_example_inv by simp

lemma in_absorb:
  "y \<in> set (absorb x vs) \<Longrightarrow> \<not> blk_free (snd y) \<Longrightarrow> blk_free (snd x) \<Longrightarrow> y \<in> set vs"
  by (cases "(x, vs)" rule: absorb.cases) (auto split: if_splits)

lemma in_freed:
  assumes "y \<in> set (freed us p k vs)" and "\<not> blk_free (snd y)"
  shows "y \<in> set us \<union> set vs"
proof (cases "us = [] \<or> \<not> blk_free (snd (last us))")
  case True
  with assms show ?thesis using in_absorb [of y "(p, k\<lparr>blk_free := True\<rparr>)" vs]
    by (auto simp: freed_def Let_def)
next
  case False
  with assms show ?thesis
    using in_absorb [of y "(p, k\<lparr>blk_free := True\<rparr>)" vs]
      in_absorb [of y "last us" "absorb (p, k\<lparr>blk_free := True\<rparr>) vs"]
    by (auto simp: freed_def Let_def dest: in_set_butlastD)
qed

lemma area_kfree:
  assumes inv: "heap_inv a b s" and p: "p \<in> live s" and ok: "kfree p s = Some s'" and q: "q \<in> live s'"
  shows "area s' q = area s q"
proof -
  from kfree_inv [OF inv p] ok have inv': "heap_inv a b s'" by simp
  from p obtain x k where x: "(x, k) \<in> set (kmalloc_head s)" "p = blk_ptr k"
    unfolding live_def by (rule live_ofE)
  then obtain us vs where h: "kmalloc_head s = us @ (x, k) # vs" by (meson split_list)
  from kfree_eq [OF inv h] ok x(2) have eq: "kmalloc_head s' = freed us x k vs" by auto
  from q obtain y j where y: "(y, j) \<in> set (kmalloc_head s')" "\<not> blk_free j" "q = blk_ptr j"
    unfolding live_def by (rule live_ofE)
  with eq have "(y, j) \<in> set (kmalloc_head s)" using in_freed [of "(y, j)" us x k vs] h by auto
  with y show ?thesis using area_block [OF inv] area_block [OF inv'] by simp
qed

text \<open>
  C6. \<^verbatim>\<open>kfree\<close> of a live pointer always returns. The heap stays well formed, in particular the
  released block has been merged with its free neighbours. Exactly this pointer stops being
  live, and no other live area and no byte of data changes.
\<close>
theorem kfree_correct:
  assumes "heap_inv a b s" and "p \<in> live s"
  shows "\<exists>s'. kfree p s = Some s' \<and> heap_inv a b s' \<and> live s' = live s - {p} \<and> kbytes s' = kbytes s
           \<and> (\<forall>q \<in> live s'. area s' q = area s q)"
proof -
  from kfree_inv [OF assms] obtain s' where s': "kfree p s = Some s'" "heap_inv a b s'"
    "live s' = live s - {p}" by blast
  moreover from kfree_frame [OF s'(1)] have "kbytes s' = kbytes s" by auto
  ultimately show ?thesis using area_kfree [OF assms s'(1)] by auto
qed

theorem kfree_correct_witness:
  "heap_inv 0x1000 0x2000 heap_example2 \<and> 0x1014 \<in> live heap_example2
   \<and> (\<exists>s'. kfree 0x1014 heap_example2 = Some s' \<and> live s' = live heap_example2 - {0x1014})"
proof -
  note inv = kmalloc_inv [OF heap_example_inv heap_example2_eq]
  then have "0x1014 \<in> live heap_example2" by simp
  with kfree_correct [OF inv(1) this] inv(1) show ?thesis by blast
qed

lemma freed_split_blocks:
  assumes "n \<le> blk_size k" and "unat (blk_size k) + 20 < 2 ^ 32" and "blk_free k"
    and "coalesced (us @ (p, k) # vs)"
  shows "\<exists>k' ws. split_blocks n p k @ vs = (p, k') # ws \<and> blk_ptr k' = blk_ptr k
           \<and> freed us p k' ws = us @ (p, k) # vs"
proof -
  have us: "us = [] \<or> \<not> blk_free (snd (last us))" and vs: "vs = [] \<or> \<not> blk_free (snd (hd vs))"
    using assms(3, 4) by (cases vs; auto simp: coalesced_simps)+
  have k: "k\<lparr>blk_free := True\<rparr> = k" using assms(3) by simp
  show ?thesis
  proof (cases "n + sizeof_blk < blk_size k")
    case True
    have "absorb (p, k\<lparr>blk_free := False, blk_size := n, blk_free := True\<rparr>)
       ((p + sizeof_blk + n, \<lparr>blk_ptr = p + sizeof_blk + n + sizeof_blk,
           blk_size = blk_size k - n - sizeof_blk, blk_free = True\<rparr>) # vs) = (p, k) # vs"
      using k by (cases k) simp
    with True us show ?thesis by (simp add: split_blocks_def freed_def)
  next
    case False
    have "absorb (p, k) vs = (p, k) # vs" using vs by (cases "((p, k), vs)" rule: absorb.cases) auto
    with False us k show ?thesis by (simp add: split_blocks_def freed_def)
  qed
qed

text \<open>
  C26. \<^verbatim>\<open>kfree\<close> undoes \<^verbatim>\<open>kmalloc\<close> exactly: releasing the pointer an allocation just returned gives
  back the very state before it. A split block is merged again, so no fragmentation is left.
\<close>
theorem kfree_undoes_kmalloc:
  assumes inv: "heap_inv a b s" and ok: "kmalloc n s = Some (p, s')"
  shows "kfree p s' = Some s"
proof -
  from kmalloc_SomeD [OF assms] obtain us blk k vs where
    h: "kmalloc_head s = us @ (blk, k) # vs" "blk_free k" "n \<le> blk_size k" "p = blk_ptr k"
    "s' = s\<lparr>kmalloc_head := us @ split_blocks n blk k @ vs\<rparr>" by blast
  have c: "chain a (us @ (blk, k) # vs) b" and b: "b < 2 ^ 32" and co: "coalesced (us @ (blk, k) # vs)"
    using inv h by (auto simp: heap_inv_def)
  have "unat (blk_size k) + 20 < 2 ^ 32" using chain_bounds(2) [OF c, of blk k] b by simp
  from freed_split_blocks [OF h(3) this h(2) co] obtain k' ws where
    sp: "split_blocks n blk k @ vs = (blk, k') # ws" "blk_ptr k' = blk_ptr k"
    "freed us blk k' ws = us @ (blk, k) # vs" by blast
  then have "kmalloc_head s' = us @ (blk, k') # ws" using h(5) by simp
  from kfree_eq [OF kmalloc_inv(1) [OF assms] this] sp h
  have "kfree p s' = Some (s'\<lparr>kmalloc_head := kmalloc_head s\<rparr>)" by simp
  with h(5) show ?thesis by simp
qed

theorem kfree_undoes_kmalloc_witness:
  "heap_inv 0x1000 0x2000 heap_example \<and> kmalloc 100 heap_example = Some (0x1014, heap_example2)
     \<and> kfree 0x1014 heap_example2 = Some heap_example"
  using kfree_undoes_kmalloc [OF heap_example_inv heap_example2_eq] heap_example_inv heap_example2_eq
  by simp

lemma area_live:
  assumes "heap_inv a b s" and "p \<in> live s"
  obtains k where "map_of (kmalloc_head s) (p - sizeof_blk) = Some k" and "blk_ptr k = p"
    and "area s p = {unat p ..< unat p + unat (blk_size k)}" and "unat p + unat (blk_size k) < 2 ^ 32"
proof -
  from assms(2) obtain x k where x: "(x, k) \<in> set (kmalloc_head s)" "p = blk_ptr k"
    unfolding live_def by (rule live_ofE)
  have c: "chain a (kmalloc_head s) b" and b: "b < 2 ^ 32" using assms(1) by (auto simp: heap_inv_def)
  from chain_bounds [OF c x(1)] x(2) b have "p - sizeof_blk = x" and px: "unat p = unat x + 20"
    by (simp_all add: word_unat)
  with x(1) have "map_of (kmalloc_head s) (p - sizeof_blk) = Some k"
    using chain_distinct [OF c] by simp
  then show ?thesis
    using that x px area_block [OF assms(1) x(1)] chain_bounds(2) [OF c x(1)] b by simp
qed

lemma unat_add_of_nat:
  assumes "unat (p :: u32) + n \<le> 2 ^ 32" and "i < n"
  shows "unat (p + of_nat i) = unat p + i"
proof -
  have "unat p + i < 2 ^ 32" using assms by simp
  then show ?thesis by (simp add: unat_word_ariths take_bit_nat_eq_self unat_of_nat)
qed

lemma apart_areas:
  assumes "{unat p ..< unat p + n} \<inter> {unat q ..< unat q + m} = {}"
    and "unat p + n \<le> 2 ^ 32" and "unat q + m \<le> 2 ^ 32"
  shows "apart p n q m"
  unfolding apart_def
proof (intro allI impI notI)
  fix i j assume ij: "i < n" "j < m" "p + of_nat i = q + of_nat j"
  have "unat p + i = unat q + j"
    using unat_add_of_nat [OF assms(2) ij(1)] unat_add_of_nat [OF assms(3) ij(2)] ij(3) by simp
  moreover have "unat p + i \<in> {unat p ..< unat p + n}" "unat q + j \<in> {unat q ..< unat q + m}"
    using ij by auto
  ultimately show False using assms(1) by (metis disjoint_iff)
qed

lemma apart_live:
  assumes inv: "heap_inv a b s" and pq: "p \<in> live s" "q \<in> live s" "p \<noteq> q"
    and k: "k \<le> card (area s p)" "k \<le> card (area s q)"
  shows "apart q k p k"
proof -
  from inv pq(1) obtain j where j: "map_of (kmalloc_head s) (p - sizeof_blk) = Some j" "blk_ptr j = p"
    "area s p = {unat p ..< unat p + unat (blk_size j)}" "unat p + unat (blk_size j) < 2 ^ 32"
    by (rule area_live)
  from inv pq(2) obtain i where i: "map_of (kmalloc_head s) (q - sizeof_blk) = Some i" "blk_ptr i = q"
    "area s q = {unat q ..< unat q + unat (blk_size i)}" "unat q + unat (blk_size i) < 2 ^ 32"
    by (rule area_live)
  have "{unat q ..< unat q + k} \<inter> {unat p ..< unat p + k} \<subseteq> area s q \<inter> area s p"
    using j(3) i(3) k by auto
  then have "{unat q ..< unat q + k} \<inter> {unat p ..< unat p + k} = {}"
    using live_areas_disjoint [OF inv pq] by (metis inf_commute subset_empty)
  then show ?thesis using i j k by (intro apart_areas) auto
qed

lemma memcpy_live:
  assumes inv: "heap_inv a b s" and q: "q \<in> live s" and x: "unat x \<notin> area s q"
    and k: "unat m \<le> card (area s q)" and ap: "apart q (unat m) p (unat m)"
  shows "snd (memcpy q p m h) x = h x"
proof -
  from inv q obtain i where i: "map_of (kmalloc_head s) (q - sizeof_blk) = Some i" "blk_ptr i = q"
    "area s q = {unat q ..< unat q + unat (blk_size i)}" "unat q + unat (blk_size i) < 2 ^ 32"
    by (rule area_live)
  then have "\<forall>j < unat m. x \<noteq> q + of_nat j"
    using unat_add_of_nat [of q "unat m"] k x by auto
  then show ?thesis by (rule memcpy_bytes(2) [OF ap])
qed

text \<open>
  C27. \<^verbatim>\<open>krealloc\<close> of a live pointer moves the area: it returns whenever the allocation it makes
  does, the result is fresh, the old pointer is released, every byte that fits in the new size
  is found at the same offset in the new area, and no byte outside the new area changes.
\<close>
theorem krealloc_keeps_contents:
  assumes inv: "heap_inv a b s" and p: "p \<in> live s" and al: "kmalloc n s = Some (q, s1)"
  shows "\<exists>s'. krealloc p n s = Some (q, s') \<and> heap_inv a b s' \<and> q \<notin> live s
    \<and> live s' = insert q (live s - {p})
    \<and> (\<forall>i < min (unat n) (card (area s p)). kbytes s' (q + of_nat i) = kbytes s (p + of_nat i))
    \<and> (\<forall>x. unat x \<notin> area s' q \<longrightarrow> kbytes s' x = kbytes s x)"
proof -
  note k = kmalloc_inv [OF inv al] and ar = area_kmalloc [OF inv al]
  have qp: "p \<noteq> q" and "p \<noteq> NULL" and p1: "p \<in> live s1" and q1: "q \<in> live s1"
    using k p inv chain_live_nonnull [of a "kmalloc_head s" b p] by (auto simp: heap_inv_def live_def)
  from inv p obtain ob where ob: "map_of (kmalloc_head s) (p - sizeof_blk) = Some ob" "blk_ptr ob = p"
    by (rule area_live)
  from k(1) p1 obtain o1 where o1: "map_of (kmalloc_head s1) (p - sizeof_blk) = Some o1"
    "area s1 p = {unat p ..< unat p + unat (blk_size o1)}" by (rule area_live)
  define m where "m = (if n > blk_size o1 then blk_size o1 else n)"
  define s2 where "s2 = s1\<lparr>kbytes := snd (memcpy q p m (kbytes s1))\<rparr>"
  have m: "unat m = min (unat n) (card (area s1 p))" using o1(2) by (auto simp: m_def word_less_nat_alt)
  with ar(3) have ap: "apart q (unat m) p (unat m)" by (intro apart_live [OF k(1) p1 q1 qp]) auto
  have same: "heap_inv a b s2" "live s2 = live s1" "area s2 r = area s1 r" for r
    using k(1) by (auto simp: s2_def heap_inv_def live_def area_def)
  have p2: "p \<in> live s2" using same(2) p1 by simp
  from kfree_inv [OF same(1) p2] obtain s' where
    s': "kfree p s2 = Some s'" "heap_inv a b s'" "live s' = live s2 - {p}" by blast
  have live': "live s' = insert q (live s - {p})" using s'(3) k(3) qp same(2) by auto
  from kfree_frame [OF s'(1)] have bytes: "kbytes s' = snd (memcpy q p m (kbytes s))"
    using kmalloc_frame [OF al] by (auto simp: s2_def)
  have "krealloc p n s = Some (q, s')"
    using \<open>p \<noteq> NULL\<close> k(4) ob al o1(1) s'(1) by (simp add: krealloc_def m_def s2_def Let_def)
  moreover have "unat m = min (unat n) (card (area s p))" using m ar(1) [OF p] by simp
  moreover have "kbytes s' x = kbytes s x" if "unat x \<notin> area s' q" for x
  proof -
    have "area s' q = area s1 q" using area_kfree [OF same(1) p2 s'(1), of q] live' same(3) by simp
    with that m ar(3) ap show ?thesis unfolding bytes by (intro memcpy_live [OF k(1) q1]) auto
  qed
  ultimately show ?thesis using s'(2) k(2) live' bytes memcpy_bytes(1) [OF ap] by auto
qed

definition heap_example3 :: kheap where
  "heap_example3 = snd (the (kmalloc 200 heap_example2))"

theorem krealloc_keeps_contents_witness:
  "heap_inv 0x1000 0x2000 heap_example2 \<and> 0x1014 \<in> live heap_example2
   \<and> kmalloc 200 heap_example2 = Some (0x108C, heap_example3)
   \<and> (\<exists>s'. krealloc 0x1014 200 heap_example2 = Some (0x108C, s') \<and> live s' = {0x108C})"
proof -
  note inv = kmalloc_inv [OF heap_example_inv heap_example2_eq]
  have l: "live heap_example2 = {0x1014}"
    using inv(3) by (simp add: live_def heap_example_def kmalloc_initialize_def Let_def)
  have k: "kmalloc 200 heap_example2 = Some (0x108C, heap_example3)"
    by (simp add: heap_example3_def heap_example2_def heap_example_def kmalloc_def kmalloc_initialize_def
        kmalloc_split_def spinlock_defs sizeof_blk_def KSTACK_SIZE_def Let_def)
  from krealloc_keeps_contents [OF inv(1) _ k, of "0x1014"] l inv(1) k show ?thesis by auto
qed

end
