(* ===== verification/Segment.thy ===== *)
theory Segment
  imports KMalloc
begin

text \<open>
  Physical memory (\<^verbatim>\<open>kernel/core/mem/segment.c\<close>): a list of segments of whole pages, each free
  (reference count 0) or in use. Allocation takes the first free segment that is large enough
  and splits it; a segment whose count drops to 0 is merged with free neighbours on the list.
  The list nodes come from the kernel heap, so the state extends the heap state. The main
  results: segments never overlap, allocation and reservation move exactly the requested bytes
  from free to used memory, release moves them back, and no byte is ever lost.
\<close>

section \<open>State and operations\<close>

record segment =
  seg_base :: u32
  seg_page_size :: u32
  seg_flags :: u8
  seg_ref_count :: u16

record ksegs = kheap +
  segment_lock :: spinlock
  segment_head :: "(ptr \<times> segment) list"

definition SEGMENT_FLAGS_NONE :: u8 where "SEGMENT_FLAGS_NONE = 0"

definition SEGMENT_FLAGS_COW :: u8 where "SEGMENT_FLAGS_COW = 1"

definition sizeof_segment :: u32 where "sizeof_segment = 20"

definition segment_add :: "u32 \<Rightarrow> u32 \<Rightarrow> 'a ksegs_scheme \<Rightarrow> (int \<times> 'a ksegs_scheme) option" where
  "segment_add base page_size s = do {
     (seg, s) \<leftarrow> kmalloc sizeof_segment s;
     if seg = NULL then Some (- ENOMEM, s)
     else do {
       l \<leftarrow> spinlock_lock (segment_lock s);
       let s = s\<lparr>segment_lock := l\<rparr>;
       let sg = \<lparr>seg_base = base, seg_page_size = page_size, seg_flags = SEGMENT_FLAGS_NONE,
                 seg_ref_count = 0\<rparr>;
       let s = s\<lparr>segment_head := (seg, sg) # segment_head s\<rparr>;
       Some (0, s\<lparr>segment_lock := spinlock_unlock l\<rparr>)
     }
   }"

text \<open>
  \<^verbatim>\<open>segment_split\<close> uses what \<^verbatim>\<open>kmalloc\<close> returns without a test; \<^verbatim>\<open>kmalloc\<close> panics rather than
  return \<^verbatim>\<open>NULL\<close>.
\<close>

definition segment_split :: "ptr \<Rightarrow> u32 \<Rightarrow> u32 \<Rightarrow> 'a ksegs_scheme \<Rightarrow> 'a ksegs_scheme option" where
  "segment_split seg addr page_size s = do {
     sg \<leftarrow> map_of (segment_head s) seg;
     s \<leftarrow> (if addr > seg_base sg
           then do {
             (before, s) \<leftarrow> kmalloc sizeof_segment s;
             let bs = \<lparr>seg_base = seg_base sg, seg_page_size = (addr - seg_base sg) div PAGE_SIZE,
                       seg_flags = SEGMENT_FLAGS_NONE, seg_ref_count = 0\<rparr>;
             Some (s\<lparr>segment_head := klist_insert_before seg (before, bs) (segment_head s)\<rparr>)
           }
           else Some s);
     s \<leftarrow> (if addr + page_size * PAGE_SIZE < seg_base sg + seg_page_size sg * PAGE_SIZE
           then do {
             (after, s) \<leftarrow> kmalloc sizeof_segment s;
             let as = \<lparr>seg_base = addr + page_size * PAGE_SIZE,
                       seg_page_size = seg_page_size sg - ((addr - seg_base sg) div PAGE_SIZE + page_size),
                       seg_flags = SEGMENT_FLAGS_NONE, seg_ref_count = 0\<rparr>;
             Some (s\<lparr>segment_head := klist_insert_after seg (after, as) (segment_head s)\<rparr>)
           }
           else Some s);
     Some (s\<lparr>segment_head :=
               klist_update seg (\<lambda>sg. sg\<lparr>seg_base := addr, seg_page_size := page_size, seg_ref_count := 1\<rparr>)
                 (segment_head s)\<rparr>)
   }"

definition segment_alloc :: "u32 \<Rightarrow> 'a ksegs_scheme \<Rightarrow> (ptr \<times> 'a ksegs_scheme) option" where
  "segment_alloc page_size s =
     (if page_size = 0 then Some (NULL, s)
      else do {
        l \<leftarrow> spinlock_lock (segment_lock s);
        let s = s\<lparr>segment_lock := l\<rparr>;
        case klist_find (\<lambda>sg. seg_ref_count sg = 0 \<and> seg_page_size sg \<ge> page_size) (segment_head s) of
          Some (seg, sg) \<Rightarrow> do {
            s \<leftarrow> segment_split seg (seg_base sg) page_size s;
            Some (seg, s\<lparr>segment_lock := spinlock_unlock l\<rparr>)
          }
        | None \<Rightarrow> Some (NULL, s\<lparr>segment_lock := spinlock_unlock l\<rparr>)
      })"

definition segment_reserve :: "u32 \<Rightarrow> u32 \<Rightarrow> 'a ksegs_scheme \<Rightarrow> (int \<times> 'a ksegs_scheme) option" where
  "segment_reserve addr page_size s =
     (if page_size = 0 then Some (0, s)
      else do {
        l \<leftarrow> spinlock_lock (segment_lock s);
        let s = s\<lparr>segment_lock := l\<rparr>;
        case klist_find (\<lambda>sg. seg_ref_count sg = 0 \<and> addr \<ge> seg_base sg
               \<and> addr \<le> seg_base sg + seg_page_size sg * PAGE_SIZE) (segment_head s) of
          Some (seg, sg) \<Rightarrow>
            if addr + page_size * PAGE_SIZE > seg_base sg + seg_page_size sg * PAGE_SIZE
            then Some (0, s\<lparr>segment_lock := spinlock_unlock l\<rparr>)
            else do {
              s \<leftarrow> segment_split seg addr page_size s;
              Some (1, s\<lparr>segment_lock := spinlock_unlock l\<rparr>)
            }
        | None \<Rightarrow> Some (0, s\<lparr>segment_lock := spinlock_unlock l\<rparr>)
      })"

definition segment_alloc_address :: "u32 \<Rightarrow> 'a ksegs_scheme \<Rightarrow> (u32 \<times> 'a ksegs_scheme) option" where
  "segment_alloc_address page_size s = do {
     (seg, s) \<leftarrow> segment_alloc page_size s;
     if seg = NULL then Some (0, s)
     else do {
       sg \<leftarrow> map_of (segment_head s) seg;
       Some (seg_base sg, s)
     }
   }"

definition segment_locate :: "u32 \<Rightarrow> 'a ksegs_scheme \<Rightarrow> (ptr \<times> 'a ksegs_scheme) option" where
  "segment_locate addr s = do {
     l \<leftarrow> spinlock_lock (segment_lock s);
     let s = s\<lparr>segment_lock := l\<rparr>;
     case klist_find (\<lambda>sg. seg_base sg \<le> addr \<and> seg_base sg + seg_page_size sg * PAGE_SIZE > addr)
            (segment_head s) of
       Some (seg, _) \<Rightarrow> Some (seg, s\<lparr>segment_lock := spinlock_unlock l\<rparr>)
     | None \<Rightarrow> Some (NULL, s\<lparr>segment_lock := spinlock_unlock l\<rparr>)
   }"

text \<open>The two halves of \<^verbatim>\<open>segment_merge\<close>.\<close>

definition segment_merge_prev :: "ptr \<Rightarrow> 'a ksegs_scheme \<Rightarrow> 'a ksegs_scheme option" where
  "segment_merge_prev seg s = do {
     sg \<leftarrow> map_of (segment_head s) seg;
     case klist_prev_elem seg (segment_head s) of
       None \<Rightarrow> Some s
     | Some (prv, ps) \<Rightarrow>
         if seg_ref_count ps = 0 \<and> seg_base ps + seg_page_size ps * PAGE_SIZE = seg_base sg
         then kfree prv (s\<lparr>segment_head := klist_remove prv
                (klist_update seg (\<lambda>sg. sg\<lparr>seg_base := seg_base ps,
                    seg_page_size := seg_page_size sg + seg_page_size ps\<rparr>) (segment_head s))\<rparr>)
         else Some s
   }"

definition segment_merge_next :: "ptr \<Rightarrow> 'a ksegs_scheme \<Rightarrow> 'a ksegs_scheme option" where
  "segment_merge_next seg s = do {
     sg \<leftarrow> map_of (segment_head s) seg;
     case klist_next_elem seg (segment_head s) of
       None \<Rightarrow> Some s
     | Some (nxt, ns) \<Rightarrow>
         if seg_ref_count ns = 0 \<and> seg_base sg + seg_page_size sg * PAGE_SIZE = seg_base ns
         then kfree nxt (s\<lparr>segment_head := klist_remove nxt
                (klist_update seg (\<lambda>sg. sg\<lparr>seg_page_size := seg_page_size sg + seg_page_size ns\<rparr>)
                  (segment_head s))\<rparr>)
         else Some s
   }"

definition segment_merge :: "ptr \<Rightarrow> 'a ksegs_scheme \<Rightarrow> 'a ksegs_scheme option" where
  "segment_merge seg s = Option.bind (segment_merge_prev seg s) (segment_merge_next seg)"

text \<open>The common tail of \<^verbatim>\<open>segment_release\<close> and \<^verbatim>\<open>segment_free\<close>: drop one reference.\<close>

definition segment_drop :: "ptr \<Rightarrow> segment \<Rightarrow> 'a ksegs_scheme \<Rightarrow> 'a ksegs_scheme option" where
  "segment_drop seg sg s = do {
     let s = s\<lparr>segment_head := klist_update seg (\<lambda>sg. sg\<lparr>seg_ref_count := seg_ref_count sg - 1\<rparr>)
                               (segment_head s)\<rparr>;
     if seg_ref_count sg - 1 = 0 then segment_merge seg s else Some s
   }"

definition segment_release :: "ptr \<Rightarrow> 'a ksegs_scheme \<Rightarrow> 'a ksegs_scheme option" where
  "segment_release seg s =
     (if seg = NULL then Some s
      else do {
        sg \<leftarrow> map_of (segment_head s) seg;
        if seg_ref_count sg = 0 then Some s
        else do {
          l \<leftarrow> spinlock_lock (segment_lock s);
          s \<leftarrow> segment_drop seg sg (s\<lparr>segment_lock := l\<rparr>);
          Some (s\<lparr>segment_lock := spinlock_unlock l\<rparr>)
        }
      })"

text \<open>\<^verbatim>\<open>segment_free\<close> returns with the lock held when the segment at the address is free.\<close>

definition segment_free :: "u32 \<Rightarrow> 'a ksegs_scheme \<Rightarrow> 'a ksegs_scheme option" where
  "segment_free addr s = do {
     l \<leftarrow> spinlock_lock (segment_lock s);
     let s = s\<lparr>segment_lock := l\<rparr>;
     case klist_find (\<lambda>sg. seg_base sg = addr) (segment_head s) of
       Some (seg, sg) \<Rightarrow>
         if seg_ref_count sg = 0 then Some s
         else do {
           s \<leftarrow> segment_drop seg sg s;
           Some (s\<lparr>segment_lock := spinlock_unlock l\<rparr>)
         }
     | None \<Rightarrow> Some (s\<lparr>segment_lock := spinlock_unlock l\<rparr>)
   }"

text \<open>The glue call (GDT and protected mode set-up) does not touch this state.\<close>

definition segment_initialize :: "boot_info \<Rightarrow> 'a ksegs_scheme \<Rightarrow> 'a ksegs_scheme option" where
  "segment_initialize boot s =
     (if segs boot = [] then None
      else do {
        let s = s\<lparr>segment_head := []\<rparr>;
        s \<leftarrow> for_each (\<lambda>bs s. do {
               (ret, s) \<leftarrow> segment_add (ucast (seg_start bs)) (ucast (seg_size bs div ucast PAGE_SIZE)) s;
               if ret < 0 then None else Some s
             }) (segs boot) s;
        let s = s\<lparr>segment_lock := spinlock_init\<rparr>;
        (_, s) \<leftarrow> segment_reserve 0x0 160 s;
        (_, s) \<leftarrow> segment_reserve 0xA0000 64 s;
        (_, s) \<leftarrow> segment_reserve 0xE0000 800 s;
        Some s
      })"

section \<open>Invariant\<close>

abbreviation seg_span :: "segment \<Rightarrow> nat set" where
  "seg_span sg \<equiv> span (seg_base sg) (seg_page_size sg)"

definition seg_ok :: "segment \<Rightarrow> bool" where
  "seg_ok sg \<longleftrightarrow> fits (seg_base sg) (seg_page_size sg) \<and> 4096 dvd unat (seg_base sg)"

text \<open>Segments are distinct live heap objects with disjoint page-aligned areas.\<close>

definition segs_ok :: "ptr set \<Rightarrow> (ptr \<times> segment) list \<Rightarrow> bool" where
  "segs_ok L xs \<longleftrightarrow> distinct (map fst xs) \<and> fst ` set xs \<subseteq> L \<and> (\<forall>x \<in> set xs. seg_ok (snd x))
     \<and> disjoint_areas (map (\<lambda>x. seg_span (snd x)) xs)"

definition seg_inv :: "nat \<Rightarrow> nat \<Rightarrow> 'a ksegs_scheme \<Rightarrow> bool" where
  "seg_inv a b s \<longleftrightarrow> heap_inv a b s \<and> \<not> segment_lock s \<and> segs_ok (live s) (segment_head s)"

definition free_mem :: "(ptr \<times> segment) list \<Rightarrow> nat set" where
  "free_mem xs = (\<Union>x \<in> {x \<in> set xs. seg_ref_count (snd x) = 0}. seg_span (snd x))"

definition used_mem :: "(ptr \<times> segment) list \<Rightarrow> nat set" where
  "used_mem xs = (\<Union>x \<in> {x \<in> set xs. seg_ref_count (snd x) \<noteq> 0}. seg_span (snd x))"

lemma free_mem_simps [simp]:
  "free_mem [] = {}"
  "free_mem (x # xs) = (if seg_ref_count (snd x) = 0 then seg_span (snd x) else {}) \<union> free_mem xs"
  "free_mem (xs @ ys) = free_mem xs \<union> free_mem ys"
  by (auto simp: free_mem_def)

lemma used_mem_simps [simp]:
  "used_mem [] = {}"
  "used_mem (x # xs) = (if seg_ref_count (snd x) = 0 then {} else seg_span (snd x)) \<union> used_mem xs"
  "used_mem (xs @ ys) = used_mem xs \<union> used_mem ys"
  by (auto simp: used_mem_def)

lemma all_mem: "free_mem xs \<union> used_mem xs = \<Union>(set (map (\<lambda>x. seg_span (snd x)) xs))"
  by (induction xs) auto

lemma free_used_disjoint: "disjoint_areas (map (\<lambda>x. seg_span (snd x)) xs) \<Longrightarrow> free_mem xs \<inter> used_mem xs = {}"
proof (induction xs)
  case (Cons x xs)
  have "seg_span (snd x) \<inter> (free_mem xs \<union> used_mem xs) = {}" using Cons.prems by (simp add: all_mem)
  moreover have "free_mem xs \<inter> used_mem xs = {}" using Cons by simp
  ultimately show ?case by auto
qed simp

text \<open>The heap invariant does not depend on the fields of this layer.\<close>

lemma heap_frame [simp]:
  "heap_inv a b (s\<lparr>segment_head := xs\<rparr>) = heap_inv a b s"
  "heap_inv a b (s\<lparr>segment_lock := l\<rparr>) = heap_inv a b s"
  "live (s\<lparr>segment_head := xs\<rparr>) = live s"
  "live (s\<lparr>segment_lock := l\<rparr>) = live s"
  by (simp_all add: heap_inv_def live_def)

lemma kmalloc_segs [simp]:
  assumes "kmalloc n s = Some (p, s')"
  shows "segment_head s' = segment_head s" and "segment_lock s' = segment_lock s"
  using kmalloc_frame [OF assms] by auto

lemma kfree_segs [simp]:
  assumes "kfree p s = Some s'"
  shows "segment_head s' = segment_head s" and "segment_lock s' = segment_lock s"
  using kfree_frame [OF assms] by auto

section \<open>Splitting\<close>

text \<open>What replaces a segment that is split: the parts before and after are free.\<close>

definition seg_before :: "ptr \<Rightarrow> segment \<Rightarrow> u32 \<Rightarrow> (ptr \<times> segment) list" where
  "seg_before q sg addr =
     (if addr > seg_base sg
      then [(q, \<lparr>seg_base = seg_base sg, seg_page_size = pages_before (seg_base sg) addr,
                 seg_flags = SEGMENT_FLAGS_NONE, seg_ref_count = 0\<rparr>)] else [])"

definition seg_after :: "ptr \<Rightarrow> segment \<Rightarrow> u32 \<Rightarrow> u32 \<Rightarrow> (ptr \<times> segment) list" where
  "seg_after q sg addr n =
     (if addr + n * PAGE_SIZE < seg_base sg + seg_page_size sg * PAGE_SIZE
      then [(q, \<lparr>seg_base = addr + n * PAGE_SIZE,
                 seg_page_size = pages_after (seg_base sg) (seg_page_size sg) addr n,
                 seg_flags = SEGMENT_FLAGS_NONE, seg_ref_count = 0\<rparr>)] else [])"

abbreviation seg_taken :: "segment \<Rightarrow> u32 \<Rightarrow> u32 \<Rightarrow> segment" where
  "seg_taken sg addr n \<equiv> sg\<lparr>seg_base := addr, seg_page_size := n, seg_ref_count := 1\<rparr>"

abbreviation seg_pieces :: "ptr \<Rightarrow> ptr \<Rightarrow> ptr \<Rightarrow> segment \<Rightarrow> u32 \<Rightarrow> u32 \<Rightarrow> (ptr \<times> segment) list" where
  "seg_pieces q p r sg addr n \<equiv>
     seg_before q sg addr @ (p, seg_taken sg addr n) # seg_after r sg addr n"

abbreviation seg_split_list :: "(ptr \<times> segment) list \<Rightarrow> ptr \<Rightarrow> segment \<Rightarrow> (ptr \<times> segment) list \<Rightarrow> u32 \<Rightarrow> u32
    \<Rightarrow> ptr \<Rightarrow> ptr \<Rightarrow> (ptr \<times> segment) list" where
  "seg_split_list us p sg vs addr n q r \<equiv>
     us @ seg_pieces q p r sg addr n @ vs"

text \<open>One conditional allocation of a list node.\<close>

lemma new_node:
  assumes inv: "heap_inv a b s"
    and ok: "(if c then do { (q, s) \<leftarrow> kmalloc n s; Some (s\<lparr>segment_head := f q (segment_head s)\<rparr>) } else Some s)
       = Some s1"
  obtains q where "heap_inv a b s1" and "segment_lock s1 = segment_lock s"
    and "segment_head s1 = (if c then f q (segment_head s) else segment_head s)"
    and "live s1 = live s \<union> (if c then {q} else {})" and "c \<longrightarrow> q \<notin> live s"
proof (cases c)
  case True
  with ok obtain q t where t: "kmalloc n s = Some (q, t)" "s1 = t\<lparr>segment_head := f q (segment_head t)\<rparr>"
    by (auto simp: bind_eq_Some_iff)
  then show ?thesis using that [of q] True heap.alloc_inv [OF inv t(1)] heap.alloc_fresh [OF inv t(1)]
      heap.alloc_alive [OF inv t(1)] by simp
next
  case False
  with ok that [of 0] inv show ?thesis by simp
qed

lemma segment_split_eq:
  assumes inv: "heap_inv a b s" and h: "segment_head s = us @ (p, sg) # vs"
    and live: "fst ` set (segment_head s) \<subseteq> live s" and p: "p \<notin> fst ` set us"
    and ok: "segment_split p addr n s = Some s'"
  shows "\<exists>q r. heap_inv a b s' \<and> segment_lock s' = segment_lock s
    \<and> segment_head s' = seg_split_list us p sg vs addr n q r
    \<and> live s' = live s \<union> fst ` set (seg_before q sg addr @ seg_after r sg addr n)
    \<and> fst ` set (seg_before q sg addr @ seg_after r sg addr n) \<inter> live s = {}
    \<and> distinct (map fst (seg_before q sg addr @ seg_after r sg addr n))"
proof -
  let ?c1 = "addr > seg_base sg"
  let ?c2 = "addr + n * PAGE_SIZE < seg_base sg + seg_page_size sg * PAGE_SIZE"
  let ?b = "\<lparr>seg_base = seg_base sg, seg_page_size = pages_before (seg_base sg) addr,
               seg_flags = SEGMENT_FLAGS_NONE, seg_ref_count = 0\<rparr>"
  let ?a = "\<lparr>seg_base = addr + n * PAGE_SIZE,
               seg_page_size = pages_after (seg_base sg) (seg_page_size sg) addr n,
               seg_flags = SEGMENT_FLAGS_NONE, seg_ref_count = 0\<rparr>"
  have sg: "map_of (segment_head s) p = Some sg" unfolding h using p by (rule map_of_split)
  obtain s1 s2 where
    1: "(if ?c1 then do { (q, s) \<leftarrow> kmalloc sizeof_segment s;
           Some (s\<lparr>segment_head := klist_insert_before p (q, ?b) (segment_head s)\<rparr>) } else Some s) = Some s1"
    and 2: "(if ?c2 then do { (r, s) \<leftarrow> kmalloc sizeof_segment s1;
           Some (s\<lparr>segment_head := klist_insert_after p (r, ?a) (segment_head s)\<rparr>) } else Some s1) = Some s2"
    and 3: "s' = s2\<lparr>segment_head := klist_update p (\<lambda>sg. seg_taken sg addr n) (segment_head s2)\<rparr>"
    using ok unfolding segment_split_def Let_def sg bind_Some_conv by (elim bind_SomeE) simp
  have s': "segment_head s' = klist_update p (\<lambda>sg. seg_taken sg addr n) (segment_head s2)"
    "live s' = live s2" "segment_lock s' = segment_lock s2" "heap_inv a b s' = heap_inv a b s2"
    unfolding 3 by simp_all
  obtain q where
    q: "heap_inv a b s1" "segment_lock s1 = segment_lock s"
    "segment_head s1 = (if ?c1 then klist_insert_before p (q, ?b) (segment_head s) else segment_head s)"
    "live s1 = live s \<union> (if ?c1 then {q} else {})" "?c1 \<longrightarrow> q \<notin> live s"
    by (rule new_node [where f = "\<lambda>q. klist_insert_before p (q, ?b)", OF inv 1])
  obtain r where
    r: "heap_inv a b s2" "segment_lock s2 = segment_lock s1"
    "segment_head s2 = (if ?c2 then klist_insert_after p (r, ?a) (segment_head s1) else segment_head s1)"
    "live s2 = live s1 \<union> (if ?c2 then {r} else {})" "?c2 \<longrightarrow> r \<notin> live s1"
    by (rule new_node [where f = "\<lambda>r. klist_insert_after p (r, ?a)", OF q(1) 2])
  have "segment_head s1 = us @ seg_before q sg addr @ (p, sg) # vs"
    using q(3) h p by (simp add: seg_before_def klist_simps)
  moreover have pq: "p \<notin> fst ` set (us @ seg_before q sg addr)"
    using p q(5) live h by (auto simp: seg_before_def)
  ultimately have "segment_head s2 = us @ seg_before q sg addr @ (p, sg) # seg_after r sg addr n @ vs"
    using r(3) klist_insert_after_split [OF pq] by (simp add: seg_after_def)
  then have "segment_head s' = seg_split_list us p sg vs addr n q r"
    unfolding s'(1) using klist_update_split [OF pq] by simp
  moreover have "live s' = live s \<union> fst ` set (seg_before q sg addr @ seg_after r sg addr n)"
    unfolding s'(2) r(4) q(4) by (simp add: seg_before_def seg_after_def)
  moreover have "fst ` set (seg_before q sg addr @ seg_after r sg addr n) \<inter> live s = {}"
    and "distinct (map fst (seg_before q sg addr @ seg_after r sg addr n))"
    using q(5) r(5) unfolding q(4) by (auto simp: seg_before_def seg_after_def)
  moreover have "heap_inv a b s'" and "segment_lock s' = segment_lock s"
    using q(2) r(1, 2) s'(3, 4) by simp_all
  ultimately show ?thesis by (intro exI [of _ q] exI [of _ r] conjI)
qed

lemma seg_pieces_ok:
  assumes "area_cut (seg_base sg) (seg_page_size sg) addr n"
  shows "\<forall>x \<in> set (seg_pieces q p r sg addr n). seg_ok (snd x)"
    and "disjoint_areas (map (\<lambda>x. seg_span (snd x)) (seg_pieces q p r sg addr n))"
    and "\<Union>(set (map (\<lambda>x. seg_span (snd x)) (seg_pieces q p r sg addr n))) = seg_span sg"
    and "free_mem (seg_pieces q p r sg addr n) = seg_span sg - span addr n"
    and "used_mem (seg_pieces q p r sg addr n) = span addr n"
proof -
  note parts = cut_span [OF assms] cut_disjoint [OF assms] nothing_before [OF assms] nothing_after [OF assms]
  show "\<forall>x \<in> set (seg_pieces q p r sg addr n). seg_ok (snd x)"
    using fits_parts [OF assms] fits_new [OF assms] aligned_end [OF assms] assms
    by (auto simp: seg_before_def seg_after_def seg_ok_def area_cut_def)
  show "disjoint_areas (map (\<lambda>x. seg_span (snd x)) (seg_pieces q p r sg addr n))"
    using parts(2-4) by (simp add: seg_before_def seg_after_def Int_Un_distrib del: span_iff)
  show "\<Union>(set (map (\<lambda>x. seg_span (snd x)) (seg_pieces q p r sg addr n))) = seg_span sg"
    unfolding parts(1) using parts(5, 6) by (auto simp: seg_before_def seg_after_def simp del: span_iff)
  show "free_mem (seg_pieces q p r sg addr n) = seg_span sg - span addr n"
    unfolding parts(1) using parts(2-6) by (auto simp: seg_before_def seg_after_def simp del: span_iff)
  show "used_mem (seg_pieces q p r sg addr n) = span addr n"
    by (auto simp: seg_before_def seg_after_def simp del: span_iff)
qed

text \<open>Membership in the memory of a well-formed list.\<close>

lemma segs_ok_split:
  "segs_ok L (us @ (p, sg) # vs) \<longleftrightarrow>
     p \<notin> fst ` set us \<union> fst ` set vs \<and> p \<in> L \<and> seg_ok sg \<and> segs_ok L (us @ vs)
     \<and> seg_span sg \<inter> (free_mem us \<union> used_mem us \<union> (free_mem vs \<union> used_mem vs)) = {}"
  unfolding all_mem segs_ok_def by (simp add: Int_Un_distrib Int_Un_distrib2 ac_simps)

lemma segs_ok_replace:
  assumes ok: "segs_ok L (us @ (p, sg) # vs)" and L: "L \<subseteq> L'"
    and xs: "distinct (map fst xs)" "fst ` set xs \<subseteq> insert p (L' - L)" "\<forall>x \<in> set xs. seg_ok (snd x)"
    and d: "disjoint_areas (map (\<lambda>x. seg_span (snd x)) xs)"
      "\<Union>(set (map (\<lambda>x. seg_span (snd x)) xs)) \<subseteq> seg_span sg"
  shows "segs_ok L' (us @ xs @ vs)"
proof -
  have "p \<in> L" and us: "fst ` set us \<subseteq> L - {p}" and vs: "fst ` set vs \<subseteq> L - {p}"
    and dist: "distinct (map fst us)" "distinct (map fst vs)" "fst ` set us \<inter> fst ` set vs = {}"
    using ok by (auto simp: segs_ok_def)
  have "fst ` set xs \<inter> (L - {p}) = {}" using xs(2) by auto
  with us vs have "fst ` set us \<inter> fst ` set xs = {}" "fst ` set xs \<inter> fst ` set vs = {}" by blast+
  with dist xs(1) have "distinct (map fst (us @ xs @ vs))" by (simp add: Int_Un_distrib)
  moreover have "fst ` set (us @ xs @ vs) \<subseteq> L'" using us vs xs(2) L \<open>p \<in> L\<close> by auto
  moreover have "\<forall>x \<in> set (us @ xs @ vs). seg_ok (snd x)" using ok xs(3) by (auto simp: segs_ok_def)
  moreover have "disjoint_areas (map (\<lambda>x. seg_span (snd x)) (us @ xs @ vs))"
    unfolding map_append using ok d
    by (intro disjoint_areas_replace [of _ "seg_span sg"]) (simp_all add: segs_ok_def)
  ultimately show ?thesis by (simp add: segs_ok_def)
qed

text \<open>Splitting a free segment takes exactly the requested pages out of the free memory.\<close>

lemma segment_split_correct:
  assumes inv: "heap_inv a b s" and segs: "segs_ok (live s) (us @ (p, sg) # vs)"
    and h: "segment_head s = us @ (p, sg) # vs" and free: "seg_ref_count sg = 0"
    and cut: "area_cut (seg_base sg) (seg_page_size sg) addr n"
    and ok: "segment_split p addr n s = Some s'"
  shows "heap_inv a b s'" and "segs_ok (live s') (segment_head s')" and "segment_lock s' = segment_lock s"
    and "map_of (segment_head s') p = Some (seg_taken sg addr n)"
    and "free_mem (segment_head s') = free_mem (segment_head s) - span addr n"
    and "used_mem (segment_head s') = used_mem (segment_head s) \<union> span addr n"
    and "span addr n \<subseteq> free_mem (segment_head s)"
    and "q \<noteq> p \<Longrightarrow> map_of (segment_head s) q = Some x \<Longrightarrow> map_of (segment_head s') q = Some x"
proof -
  have "fst ` set (segment_head s) \<subseteq> live s" and p: "p \<notin> fst ` set us"
    using segs h by (auto simp: segs_ok_def)
  from segment_split_eq [OF inv h this ok] obtain q r where
    s': "heap_inv a b s'" "segment_lock s' = segment_lock s"
    "segment_head s' = seg_split_list us p sg vs addr n q r"
    "live s' = live s \<union> fst ` set (seg_before q sg addr @ seg_after r sg addr n)"
    "fst ` set (seg_before q sg addr @ seg_after r sg addr n) \<inter> live s = {}"
    "distinct (map fst (seg_before q sg addr @ seg_after r sg addr n))"
    by blast
  note pieces = seg_pieces_ok [OF cut, of q p r]
  have pl: "p \<in> live s" using segs by (simp add: segs_ok_split)
  have "segs_ok (live s') (us @ seg_pieces q p r sg addr n @ vs)"
  proof (rule segs_ok_replace [OF segs])
    show "distinct (map fst (seg_pieces q p r sg addr n))" using s'(5, 6) pl by auto
    show "fst ` set (seg_pieces q p r sg addr n) \<subseteq> insert p (live s' - live s)"
      using s'(4, 5) by auto
  qed (use s'(4) pieces in auto)
  then show segs': "segs_ok (live s') (segment_head s')" using s'(3) by simp
  then have d': "distinct (map fst (segment_head s'))" by (simp add: segs_ok_def)
  moreover have "(p, seg_taken sg addr n) \<in> set (segment_head s')" using s'(3) by simp
  ultimately show "map_of (segment_head s') p = Some (seg_taken sg addr n)" by simp
  show "map_of (segment_head s') q = Some x" if "q \<noteq> p" "map_of (segment_head s) q = Some x" for q
  proof -
    from map_of_SomeD [OF that(2)] that(1) h have "(q, x) \<in> set us \<union> set vs" by auto
    then have "(q, x) \<in> set (segment_head s')" using s'(3) by auto
    with d' show ?thesis by simp
  qed
  have out: "span addr n \<inter> (free_mem us \<union> free_mem vs) = {}"
    using segs pieces(3, 5) cut_span [OF cut] by (auto simp: segs_ok_split simp del: span_iff)
  show "free_mem (segment_head s') = free_mem (segment_head s) - span addr n"
    unfolding s'(3) h using out pieces(4) free by (simp add: Un_Diff del: span_iff) blast
  show "used_mem (segment_head s') = used_mem (segment_head s) \<union> span addr n"
    unfolding s'(3) h using pieces(5) free by (simp del: span_iff) blast
  show "span addr n \<subseteq> free_mem (segment_head s)"
    unfolding h using free cut_span [OF cut] by (simp del: span_iff) blast
  show "heap_inv a b s'" and "segment_lock s' = segment_lock s" using s' by simp_all
qed

section \<open>Allocation and reservation\<close>

lemma seg_inv_lock:
  assumes "seg_inv a b s"
  shows "spinlock_lock (segment_lock s) = Some True" and "s\<lparr>segment_lock := False\<rparr> = s"
    and "heap_inv a b s" and "segs_ok (live s) (segment_head s)"
  using assms by (auto simp: seg_inv_def spinlock_defs)

lemma segment_split_returns:
  assumes inv: "heap_inv a b s" and p: "map_of (segment_head s) p = Some sg"
    and k: "kmalloc sizeof_segment s \<noteq> None" and "seg_base sg = addr"
  shows "segment_split p addr n s \<noteq> None"
  using assms by (auto simp: segment_split_def)

lemma kmalloc_lock_None:
  assumes "heap_inv a b s"
  shows "kmalloc n (s\<lparr>segment_lock := l\<rparr>) = None \<longleftrightarrow> kmalloc n s = None"
  using assms kmalloc_None [of a b s n] kmalloc_None [of a b "s\<lparr>segment_lock := l\<rparr>" n] by simp

lemma area_cut_base:
  assumes "seg_ok sg" and "n \<le> seg_page_size sg"
  shows "area_cut (seg_base sg) (seg_page_size sg) (seg_base sg) n"
  using assms by (simp add: area_cut_def seg_ok_def word_le_nat_alt)

lemma segment_alloc_inv:
  assumes inv: "seg_inv a b s" and n: "n \<noteq> 0" and ok: "segment_alloc n s = Some (p, s')"
  shows "p = NULL \<Longrightarrow> s' = s \<and> (\<forall>x \<in> set (segment_head s). seg_ref_count (snd x) = 0 \<longrightarrow> seg_page_size (snd x) < n)"
    and "p \<noteq> NULL \<Longrightarrow> \<exists>us sg vs t. segment_head s = us @ (p, sg) # vs \<and> seg_ref_count sg = 0
       \<and> n \<le> seg_page_size sg \<and> segment_split p (seg_base sg) n (s\<lparr>segment_lock := True\<rparr>) = Some t
       \<and> s' = t\<lparr>segment_lock := False\<rparr>"
proof -
  note l = seg_inv_lock [OF inv]
  let ?t = "\<lambda>sg. seg_ref_count sg = 0 \<and> n \<le> seg_page_size sg"
  have "(p = NULL \<longrightarrow> s' = s \<and> klist_find ?t (segment_head s) = None) \<and>
    (p \<noteq> NULL \<longrightarrow> (\<exists>sg t. klist_find ?t (segment_head s) = Some (p, sg)
       \<and> segment_split p (seg_base sg) n (s\<lparr>segment_lock := True\<rparr>) = Some t \<and> s' = t\<lparr>segment_lock := False\<rparr>))"
  proof (cases "klist_find ?t (segment_head s)")
    case None
    with ok l n show ?thesis by (simp add: segment_alloc_def spinlock_defs)
  next
    case (Some x)
    obtain q sg where x: "x = (q, sg)" by (cases x)
    from Some [unfolded x] have "(q, sg) \<in> set (segment_head s)" by (rule klist_find_SomeE) simp
    then have "q \<in> live s" using l(4) by (auto simp: segs_ok_def)
    then have "q \<noteq> NULL"
      using chain_live_nonnull [of a "kmalloc_head s" b] l(3) by (auto simp: heap_inv_def live_def)
    with ok l n Some x show ?thesis
      by (auto simp: segment_alloc_def spinlock_defs bind_eq_Some_iff)
  qed
  then show "p = NULL \<Longrightarrow> s' = s \<and> (\<forall>x \<in> set (segment_head s). seg_ref_count (snd x) = 0 \<longrightarrow> seg_page_size (snd x) < n)"
    and "p \<noteq> NULL \<Longrightarrow> \<exists>us sg vs t. segment_head s = us @ (p, sg) # vs \<and> seg_ref_count sg = 0
       \<and> n \<le> seg_page_size sg \<and> segment_split p (seg_base sg) n (s\<lparr>segment_lock := True\<rparr>) = Some t
       \<and> s' = t\<lparr>segment_lock := False\<rparr>"
    by (auto simp: klist_find_None elim!: klist_find_SomeE)
qed

text \<open>The effect of taking \<open>n\<close> pages at \<open>addr\<close> on the memory map.\<close>

definition takes :: "u32 \<Rightarrow> u32 \<Rightarrow> 'a ksegs_scheme \<Rightarrow> 'a ksegs_scheme \<Rightarrow> bool" where
  "takes addr n s s' \<longleftrightarrow> span addr n \<subseteq> free_mem (segment_head s)
     \<and> free_mem (segment_head s') = free_mem (segment_head s) - span addr n
     \<and> used_mem (segment_head s') = used_mem (segment_head s) \<union> span addr n
     \<and> (\<forall>q x. map_of (segment_head s) q = Some x \<and> seg_ref_count x \<noteq> 0
              \<longrightarrow> map_of (segment_head s') q = Some x)"

lemma segment_split_takes:
  assumes inv: "seg_inv a b s" and h: "segment_head s = us @ (p, sg) # vs" and free: "seg_ref_count sg = 0"
    and cut: "area_cut (seg_base sg) (seg_page_size sg) addr n"
    and ok: "segment_split p addr n (s\<lparr>segment_lock := True\<rparr>) = Some t"
  shows "seg_inv a b (t\<lparr>segment_lock := False\<rparr>)"
    and "map_of (segment_head t) p = Some (seg_taken sg addr n)"
    and "takes addr n s (t\<lparr>segment_lock := False\<rparr>)"
proof -
  note l = seg_inv_lock [OF inv]
  have inv': "heap_inv a b (s\<lparr>segment_lock := True\<rparr>)" using l by simp
  have segs: "segs_ok (live (s\<lparr>segment_lock := True\<rparr>)) (us @ (p, sg) # vs)"
    and h': "segment_head (s\<lparr>segment_lock := True\<rparr>) = us @ (p, sg) # vs" using l h by simp_all
  note sp = segment_split_correct [OF inv' segs h' free cut ok]
  show "seg_inv a b (t\<lparr>segment_lock := False\<rparr>)" using sp(1, 2) by (simp add: seg_inv_def)
  show "map_of (segment_head t) p = Some (seg_taken sg addr n)" by (rule sp(4))
  have "p \<notin> fst ` set us" using segs by (simp add: segs_ok_split)
  then have "map_of (segment_head s) p = Some sg" unfolding h by (rule map_of_split)
  then have "map_of (segment_head t) q = Some x"
    if "map_of (segment_head s) q = Some x" "seg_ref_count x \<noteq> 0" for q x
    using sp(8) [of q x] that free by (cases "q = p") auto
  with sp(5-7) show "takes addr n s (t\<lparr>segment_lock := False\<rparr>)" by (simp add: takes_def)
qed

lemma segment_alloc_takes:
  assumes inv: "seg_inv a b s" and ok: "segment_alloc n s = Some (p, s')"
  shows "seg_inv a b s'"
    and "p \<noteq> NULL \<Longrightarrow> \<exists>sg. map_of (segment_head s') p = Some sg \<and> seg_page_size sg = n
         \<and> seg_ref_count sg = 1 \<and> takes (seg_base sg) n s s'"
proof -
  have main: "seg_inv a b s' \<and> (\<exists>sg. map_of (segment_head s') p = Some sg \<and> seg_page_size sg = n
         \<and> seg_ref_count sg = 1 \<and> takes (seg_base sg) n s s')" if p: "p \<noteq> NULL"
  proof -
    have "n \<noteq> 0" using ok p by (auto simp: segment_alloc_def)
    from segment_alloc_inv(2) [OF inv this ok p] obtain us sg vs t where
      t: "segment_head s = us @ (p, sg) # vs" "seg_ref_count sg = 0" "n \<le> seg_page_size sg"
      "segment_split p (seg_base sg) n (s\<lparr>segment_lock := True\<rparr>) = Some t"
      "s' = t\<lparr>segment_lock := False\<rparr>" by blast
    have "seg_ok sg" using seg_inv_lock(4) [OF inv] t(1) by (simp add: segs_ok_split)
    note sp = segment_split_takes [OF inv t(1, 2) area_cut_base [OF this t(3)] t(4)]
    then show ?thesis using t(5) by simp
  qed
  then show "p \<noteq> NULL \<Longrightarrow> \<exists>sg. map_of (segment_head s') p = Some sg \<and> seg_page_size sg = n
         \<and> seg_ref_count sg = 1 \<and> takes (seg_base sg) n s s'" by blast
  have "s' = s" if "p = NULL"
    using segment_alloc_inv(1) [OF inv _ ok that] ok that
    by (cases "n = 0") (auto simp: segment_alloc_def)
  with main inv show "seg_inv a b s'" by (cases "p = NULL") auto
qed

lemma segment_alloc_live:
  assumes inv: "seg_inv a b s" and ok: "segment_alloc n s = Some (p, s')" and p: "p \<noteq> NULL"
  shows "live s \<subseteq> live s'"
proof -
  have "n \<noteq> 0" using ok p by (auto simp: segment_alloc_def)
  from segment_alloc_inv(2) [OF inv this ok p] obtain us sg vs t where
    t: "segment_head s = us @ (p, sg) # vs" "segment_split p (seg_base sg) n (s\<lparr>segment_lock := True\<rparr>) = Some t"
    "s' = t\<lparr>segment_lock := False\<rparr>" by blast
  note l = seg_inv_lock [OF inv]
  have h: "segment_head (s\<lparr>segment_lock := True\<rparr>) = us @ (p, sg) # vs" using t(1) by simp
  have k: "fst ` set (segment_head (s\<lparr>segment_lock := True\<rparr>)) \<subseteq> live (s\<lparr>segment_lock := True\<rparr>)" "p \<notin> fst ` set us"
    using l(4) t(1) by (auto simp: segs_ok_def)
  have "heap_inv a b (s\<lparr>segment_lock := True\<rparr>)" using l by simp
  from segment_split_eq [OF this h k t(2)] have "live (s\<lparr>segment_lock := True\<rparr>) \<subseteq> live t" by blast
  then show ?thesis using t(3) by simp
qed

lemma seg_inv_mono:
  assumes "seg_inv a b s" and "heap_inv a b s'" and "live s \<subseteq> live s'"
    and "segment_head s' = segment_head s" and "segment_lock s' = segment_lock s"
  shows "seg_inv a b s'"
  using assms by (auto simp: seg_inv_def segs_ok_def)

definition seg_example :: ksegs where
  "seg_example = \<lparr>kmalloc_lock = False,
     kmalloc_head = [(0x1000, \<lparr>blk_ptr = 0x1014, blk_size = 20, blk_free = False\<rparr>),
                     (0x1028, \<lparr>blk_ptr = 0x103C, blk_size = 0xFC4, blk_free = True\<rparr>)],
     kbytes = (\<lambda>_. 0), segment_lock = False,
     segment_head = [(0x1014, \<lparr>seg_base = 0x100000, seg_page_size = 16, seg_flags = 0, seg_ref_count = 0\<rparr>)]\<rparr>"

lemma seg_example_inv: "seg_inv 0x1000 0x2000 seg_example"
  by (simp add: seg_inv_def heap_inv_def seg_example_def segs_ok_def live_def sizeof_blk_def seg_ok_def fits_def)

text \<open>
  C5. Physical page allocation is correct. If \<^verbatim>\<open>segment_alloc\<close> returns \<^verbatim>\<open>NULL\<close> nothing changed and
  no free segment had enough pages. Otherwise it returns a segment of exactly the requested
  size with one reference, whose bytes were free before and are used afterwards; every segment
  in use keeps its record, and segments still do not overlap. If the heap has room for a list
  node, it returns.
\<close>
theorem segment_alloc_correct:
  assumes "seg_inv a b s" and "n \<noteq> 0"
  shows "(kmalloc sizeof_segment s \<noteq> None \<longrightarrow> segment_alloc n s \<noteq> None) \<and>
   (\<forall>p s'. segment_alloc n s = Some (p, s') \<longrightarrow>
      seg_inv a b s' \<and>
      (p = NULL \<longrightarrow> s' = s \<and>
         (\<forall>x \<in> set (segment_head s). seg_ref_count (snd x) = 0 \<longrightarrow> seg_page_size (snd x) < n)) \<and>
      (p \<noteq> NULL \<longrightarrow> (\<exists>sg. map_of (segment_head s') p = Some sg \<and> seg_page_size sg = n
         \<and> seg_ref_count sg = 1 \<and> takes (seg_base sg) n s s')))"
proof (intro conjI allI impI)
  note l = seg_inv_lock [OF assms(1)]
  let ?s = "s\<lparr>segment_lock := True\<rparr>" and ?t = "\<lambda>sg. seg_ref_count sg = 0 \<and> n \<le> seg_page_size sg"
  assume k: "kmalloc sizeof_segment s \<noteq> None"
  have "segment_split p (seg_base sg) n ?s \<noteq> None" if f: "klist_find ?t (segment_head s) = Some (p, sg)" for p sg
  proof (rule segment_split_returns)
    show "heap_inv a b ?s" using l by simp
    show "kmalloc sizeof_segment ?s \<noteq> None" using k l by (simp add: kmalloc_lock_None)
    show "map_of (segment_head ?s) p = Some sg"
      using f l(4) by (auto simp: segs_ok_split map_of_split elim!: klist_find_SomeE simp del: map_of_append)
  qed simp
  with l(1) assms(2) show "segment_alloc n s \<noteq> None"
    by (cases "klist_find ?t (segment_head s)") (auto simp: segment_alloc_def Let_def)
next
  fix p s' assume ok: "segment_alloc n s = Some (p, s')"
  note al = segment_alloc_inv [OF assms ok]
  show "p = NULL \<Longrightarrow> s' = s"
    "p = NULL \<Longrightarrow> \<forall>x \<in> set (segment_head s). seg_ref_count (snd x) = 0 \<longrightarrow> seg_page_size (snd x) < n"
    using al(1) by blast+
  note tk = segment_alloc_takes [OF assms(1) ok]
  show "p \<noteq> NULL \<Longrightarrow> \<exists>sg. map_of (segment_head s') p = Some sg \<and> seg_page_size sg = n
         \<and> seg_ref_count sg = 1 \<and> takes (seg_base sg) n s s'" by (rule tk(2))
  show "seg_inv a b s'" by (rule tk(1))
qed

definition seg_example2 :: ksegs where
  "seg_example2 = snd (the (segment_alloc 4 seg_example))"

lemma seg_example2_eq:
  "segment_alloc 4 seg_example = Some (0x1014, seg_example2)"
  "segment_head seg_example2 = [(0x1014, \<lparr>seg_base = 0x100000, seg_page_size = 4, seg_flags = 0, seg_ref_count = 1\<rparr>),
     (0x103C, \<lparr>seg_base = 0x104000, seg_page_size = 12, seg_flags = 0, seg_ref_count = 0\<rparr>)]"
  by (simp_all add: seg_example2_def seg_example_def segment_alloc_def segment_split_def kmalloc_def
      kmalloc_split_def spinlock_defs sizeof_blk_def sizeof_segment_def PAGE_SIZE_def SEGMENT_FLAGS_NONE_def Let_def)

theorem segment_alloc_correct_witness:
  "seg_inv 0x1000 0x2000 seg_example \<and> segment_alloc 4 seg_example = Some (0x1014, seg_example2)
   \<and> seg_inv 0x1000 0x2000 seg_example2 \<and> takes 0x100000 4 seg_example seg_example2"
  using segment_alloc_correct [OF seg_example_inv, of 4] seg_example2_eq seg_example_inv by simp

lemma segment_reserve_cases:
  assumes inv: "seg_inv a b s" and n: "n \<noteq> 0" and ok: "segment_reserve addr n s = Some (r, s')"
  obtains (none) "r = 0" "s' = s"
      "\<forall>x \<in> set (segment_head s). \<not> (seg_ref_count (snd x) = 0 \<and> seg_base (snd x) \<le> addr
        \<and> addr \<le> seg_base (snd x) + seg_page_size (snd x) * PAGE_SIZE)"
  | (short) us p sg vs where "r = 0" "s' = s" "segment_head s = us @ (p, sg) # vs"
      "seg_ref_count sg = 0" "seg_base sg \<le> addr" "addr \<le> seg_base sg + seg_page_size sg * PAGE_SIZE"
      "addr + n * PAGE_SIZE > seg_base sg + seg_page_size sg * PAGE_SIZE"
  | (taken) us p sg vs t where "r = 1" "segment_head s = us @ (p, sg) # vs"
      "seg_ref_count sg = 0" "seg_base sg \<le> addr"
      "addr + n * PAGE_SIZE \<le> seg_base sg + seg_page_size sg * PAGE_SIZE"
      "segment_split p addr n (s\<lparr>segment_lock := True\<rparr>) = Some t" "s' = t\<lparr>segment_lock := False\<rparr>"
proof -
  note l = seg_inv_lock [OF inv]
  let ?t = "\<lambda>sg. seg_ref_count sg = 0 \<and> addr \<ge> seg_base sg
               \<and> addr \<le> seg_base sg + seg_page_size sg * PAGE_SIZE"
  show ?thesis
  proof (cases "klist_find ?t (segment_head s)")
    case None
    with ok l n have "r = 0" "s' = s" by (auto simp: segment_reserve_def spinlock_defs)
    with None none show ?thesis by (simp add: klist_find_None)
  next
    case (Some x)
    obtain p sg where x: "x = (p, sg)" by (cases x)
    from Some [unfolded x] obtain us vs where h: "segment_head s = us @ (p, sg) # vs" "?t sg"
      by (rule klist_find_SomeE)
    show ?thesis
    proof (cases "addr + n * PAGE_SIZE > seg_base sg + seg_page_size sg * PAGE_SIZE")
      case True
      with ok l n Some x have "r = 0" "s' = s" by (auto simp: segment_reserve_def spinlock_defs)
      with True h show ?thesis by (intro short [of us p sg vs]) auto
    next
      case False
      with ok l n Some x obtain t where "r = 1"
        "segment_split p addr n (s\<lparr>segment_lock := True\<rparr>) = Some t" "s' = t\<lparr>segment_lock := False\<rparr>"
        by (auto simp: segment_reserve_def spinlock_defs bind_eq_Some_iff)
      with False h show ?thesis by (intro taken [of us p sg vs t]) (auto simp: not_less)
    qed
  qed
qed

lemma area_cut_reserve:
  assumes "seg_ok sg" and "4096 dvd unat addr" and "fits addr n" and "seg_base sg \<le> addr"
    and "addr + n * PAGE_SIZE \<le> seg_base sg + seg_page_size sg * PAGE_SIZE"
  shows "area_cut (seg_base sg) (seg_page_size sg) addr n"
  using assms unat_area_end [of "seg_base sg" "seg_page_size sg"] unat_area_end [of addr n]
  by (simp add: area_cut_def seg_ok_def word_le_nat_alt)

lemma disjoint_segs_eq:
  assumes "segs_ok L xs" and "(p, x) \<in> set xs" and "(q, y) \<in> set xs" and "z \<in> seg_span x" and "z \<in> seg_span y"
  shows "p = q"
proof (rule ccontr)
  assume "p \<noteq> q"
  from assms(2) obtain us vs where xs: "xs = us @ (p, x) # vs" by (meson split_list)
  with assms(3) \<open>p \<noteq> q\<close> have "(q, y) \<in> set us \<union> set vs" by auto
  then have "seg_span y \<subseteq> free_mem us \<union> used_mem us \<union> (free_mem vs \<union> used_mem vs)"
    by (auto simp: free_mem_def used_mem_def simp del: span_iff)
  with assms(1, 4, 5) xs show False by (auto simp: segs_ok_split simp del: span_iff)
qed

text \<open>
  C20. Reservation of a given physical area is all or nothing. When \<^verbatim>\<open>segment_reserve\<close> returns 1,
  exactly the requested bytes moved from free to used memory; when it returns 0 nothing changed.
  It succeeds whenever the area lies in one free segment, provided no free segment ends exactly
  at the address (the comparison with \<^verbatim>\<open><=\<close> makes the search stop there).
\<close>
theorem segment_reserve_correct:
  assumes inv: "seg_inv a b s" and "n \<noteq> 0" and addr: "4096 dvd unat addr" "fits addr n"
    and ok: "segment_reserve addr n s = Some (r, s')"
  shows "seg_inv a b s' \<and> (r = 0 \<and> s' = s \<or> r = 1 \<and> takes addr n s s')
    \<and> ((\<exists>(p, sg) \<in> set (segment_head s). seg_ref_count sg = 0 \<and> span addr n \<subseteq> seg_span sg)
       \<and> (\<forall>(q, x) \<in> set (segment_head s). seg_ref_count x = 0 \<longrightarrow> seg_base x + seg_page_size x * PAGE_SIZE \<noteq> addr)
       \<longrightarrow> r = 1)"
  using inv assms(2) ok
proof (cases rule: segment_reserve_cases)
  case (taken us p sg vs t)
  then have "seg_ok sg" using seg_inv_lock(4) [OF inv] by (simp add: segs_ok_split)
  note cut = area_cut_reserve [OF this addr taken(4, 5)]
  show ?thesis using segment_split_takes [OF inv taken(2, 3) cut taken(6)] taken(1, 7) by simp
next
  case none
  have "\<not> span addr n \<subseteq> seg_span sg" if "(p, sg) \<in> set (segment_head s)" "seg_ref_count sg = 0" for p sg
  proof
    assume "span addr n \<subseteq> seg_span sg"
    moreover have "unat addr \<in> span addr n" using assms(2) by (simp add: unat_gt_0)
    ultimately have "unat addr \<in> seg_span sg" by blast
    moreover have "fits (seg_base sg) (seg_page_size sg)"
      using seg_inv_lock(4) [OF inv] that(1) by (auto simp: segs_ok_def seg_ok_def)
    ultimately show False using none(3) that unat_area_end [of "seg_base sg" "seg_page_size sg"]
      by (auto simp: word_le_nat_alt)
  qed
  then show ?thesis using none(1, 2) inv by auto
next
  case (short us q x vs)
  have segs: "segs_ok (live s) (segment_head s)" by (rule seg_inv_lock(4) [OF inv])
  then have fits: "fits (seg_base y) (seg_page_size y)" if "(p, y) \<in> set (segment_head s)" for p y
    using that by (auto simp: segs_ok_def seg_ok_def)
  have qx: "(q, x) \<in> set (segment_head s)" using short by simp
  have False if "(p, sg) \<in> set (segment_head s)" and sub: "span addr n \<subseteq> seg_span sg"
    and e: "seg_base x + seg_page_size x * PAGE_SIZE \<noteq> addr" for p sg
  proof -
    have z: "unat addr \<in> span addr n" using assms(2) by (simp add: unat_gt_0)
    have "addr < seg_base x + seg_page_size x * PAGE_SIZE" using e short(6) by simp
    then have "unat addr \<in> seg_span x"
      using short(5) unat_area_end [OF fits [OF qx]] by (simp add: word_le_nat_alt word_less_nat_alt)
    with z sub have "q = p" using disjoint_segs_eq [OF segs qx that(1), of "unat addr"] by blast
    then have "sg = x" using qx that(1) segs by (auto simp: segs_ok_def intro: eq_key_imp_eq_value)
    have "0 < unat n" using assms(2) by (simp add: unat_gt_0)
    then have "unat addr + unat n * 4096 - 1 \<in> span addr n" by simp
    with sub \<open>sg = x\<close> have "unat addr + unat n * 4096 - 1 \<in> seg_span x" by blast
    with short(7) unat_area_end [OF fits [OF qx]] unat_area_end [OF addr(2)] z show False
      by (auto simp: word_less_nat_alt)
  qed
  then show ?thesis using short(1-4) inv qx by fastforce
qed

theorem segment_reserve_correct_witness:
  "seg_inv 0x1000 0x2000 seg_example
   \<and> (\<exists>s'. segment_reserve 0x102000 4 seg_example = Some (1, s') \<and> takes 0x102000 4 seg_example s')"
proof -
  have "\<exists>s'. segment_reserve 0x102000 4 seg_example = Some (1, s')"
    by (simp add: seg_example_def segment_reserve_def segment_split_def kmalloc_def
      kmalloc_split_def spinlock_defs sizeof_blk_def sizeof_segment_def PAGE_SIZE_def SEGMENT_FLAGS_NONE_def Let_def)
  then obtain s' where s': "segment_reserve 0x102000 4 seg_example = Some (1, s')" ..
  from segment_reserve_correct [OF seg_example_inv _ _ _ s'] have "takes 0x102000 4 seg_example s'"
    by (simp add: fits_def)
  with s' seg_example_inv show ?thesis by blast
qed

section \<open>Release\<close>

text \<open>What merging keeps: the invariant, the memory map, the segments in use, and \<open>p\<close> itself.\<close>

definition merged :: "nat \<Rightarrow> nat \<Rightarrow> ptr \<Rightarrow> 'a ksegs_scheme \<Rightarrow> 'a ksegs_scheme \<Rightarrow> bool" where
  "merged a b p s s' \<longleftrightarrow> heap_inv a b s' \<and> segs_ok (live s') (segment_head s')
     \<and> segment_lock s' = segment_lock s
     \<and> (\<exists>sg. map_of (segment_head s') p = Some sg \<and> seg_ref_count sg = 0)
     \<and> free_mem (segment_head s') = free_mem (segment_head s)
     \<and> used_mem (segment_head s') = used_mem (segment_head s)
     \<and> (\<forall>q x. map_of (segment_head s) q = Some x \<and> seg_ref_count x \<noteq> 0
              \<longrightarrow> map_of (segment_head s') q = Some x)"

lemma merged_refl:
  assumes "heap_inv a b s" and "segs_ok (live s) (segment_head s)"
    and "map_of (segment_head s) p = Some sg" and "seg_ref_count sg = 0"
  shows "merged a b p s s"
  using assms by (simp add: merged_def)

lemma merged_trans: "merged a b p s s' \<Longrightarrow> merged a b p s' s'' \<Longrightarrow> merged a b p s s''"
  by (simp add: merged_def)

text \<open>Replacing two free neighbours by their union, one of the two list nodes being freed.\<close>

lemma merged_pair:
  assumes inv: "heap_inv a b s" and segs: "segs_ok (live s) (us @ (q1, x1) # (q2, x2) # vs)"
    and h: "segment_head s = us @ (q1, x1) # (q2, x2) # vs"
    and free: "seg_ref_count x1 = 0" "seg_ref_count x2 = 0" "seg_ref_count x = 0"
    and touch: "seg_base x1 + seg_page_size x1 * PAGE_SIZE = seg_base x2"
    and x: "seg_base x = seg_base x1" "seg_page_size x = seg_page_size x1 + seg_page_size x2"
    and pq: "{p, q} = {q1, q2}" "p \<noteq> q"
  shows "\<exists>s'. kfree q (s\<lparr>segment_head := us @ (p, x) # vs\<rparr>) = Some s' \<and> merged a b p s s'"
proof -
  let ?t = "s\<lparr>segment_head := us @ (p, x) # vs\<rparr>"
  have "q \<in> live ?t" using segs pq by (auto simp: segs_ok_def)
  moreover have "heap_inv a b ?t" using inv by simp
  ultimately obtain s' where s': "kfree q ?t = Some s'" "heap_inv a b s'" "live s' = live ?t - {q}"
    using heap.release_alive by blast
  have fr: "segment_head s' = us @ (p, x) # vs" "segment_lock s' = segment_lock s"
    using kfree_segs [OF s'(1)] by simp_all
  have ok12: "seg_ok x1" "seg_ok x2" using segs by (auto simp: segs_ok_def)
  note j = area_join [of "seg_base x1" "seg_page_size x1" "seg_base x2" "seg_page_size x2"]
  have okx: "seg_ok x" and spx: "seg_span x = seg_span x1 \<union> seg_span x2"
    using j ok12 touch x by (auto simp: seg_ok_def simp del: span_iff)
  have d: "disjoint_areas (map (\<lambda>x. seg_span (snd x)) (us @ (q1, x1) # (q2, x2) # vs))"
    using segs by (simp only: segs_ok_def)
  have "disjoint_areas (map (\<lambda>x. seg_span (snd x)) (us @ (p, x) # vs))"
    using d spx by (simp add: Int_Un_distrib Int_Un_distrib2 Un_ac del: span_iff)
  moreover have k: "distinct (map fst (us @ (p, x) # vs))" "q \<notin> fst ` set (us @ (p, x) # vs)"
    using segs pq by (auto simp: segs_ok_def)
  ultimately have "segs_ok (live s') (us @ (p, x) # vs)"
    using segs okx s'(3) pq unfolding segs_ok_def by auto
  moreover have "map_of (us @ (p, x) # vs) r = Some y"
    if "map_of (segment_head s) r = Some y" "seg_ref_count y \<noteq> 0" for r y
  proof -
    from map_of_SomeD [OF that(1)] that(2) h free have "(r, y) \<in> set (us @ (p, x) # vs)" by auto
    with k(1) show ?thesis by (rule map_of_is_SomeI)
  qed
  moreover have "map_of (us @ (p, x) # vs) p = Some x" using k(1) by (intro map_of_is_SomeI) auto
  ultimately have "merged a b p s s'"
    unfolding merged_def fr using s'(2) free spx h by (simp add: Un_ac del: span_iff map_of_append)
  with s'(1) show ?thesis by blast
qed

lemma segment_merge_prev_correct:
  assumes inv: "heap_inv a b s" and segs: "segs_ok (live s) (segment_head s)"
    and p: "map_of (segment_head s) p = Some sg" and free: "seg_ref_count sg = 0"
  shows "\<exists>s'. segment_merge_prev p s = Some s' \<and> merged a b p s s'"
proof -
  from p obtain us vs where h: "segment_head s = us @ (p, sg) # vs" and pus: "p \<notin> fst ` set us"
    by (rule map_of_SomeE)
  note keep = merged_refl [OF inv segs p free]
  show ?thesis
  proof (cases us rule: rev_cases)
    case Nil
    then have "klist_prev_elem p (segment_head s) = None" using klist_prev_elem_split [OF pus] h by simp
    with p keep show ?thesis by (simp add: segment_merge_prev_def)
  next
    case (snoc ws y)
    obtain q ps where y: "y = (q, ps)" by (cases y)
    have pe: "klist_prev_elem p (segment_head s) = Some (q, ps)"
      using klist_prev_elem_split [OF pus] h snoc y by simp
    show ?thesis
    proof (cases "seg_ref_count ps = 0 \<and> seg_base ps + seg_page_size ps * PAGE_SIZE = seg_base sg")
      case False
      with p pe keep show ?thesis by (auto simp: segment_merge_prev_def)
    next
      case True
      let ?x = "sg\<lparr>seg_base := seg_base ps, seg_page_size := seg_page_size sg + seg_page_size ps\<rparr>"
      have h': "segment_head s = ws @ (q, ps) # (p, sg) # vs" using h snoc y by simp
      have q: "q \<notin> fst ` set ws" "q \<noteq> p" using segs h' by (auto simp: segs_ok_def)
      have "klist_remove q (klist_update p (\<lambda>sg. sg\<lparr>seg_base := seg_base ps,
            seg_page_size := seg_page_size sg + seg_page_size ps\<rparr>) (segment_head s)) = ws @ (p, ?x) # vs"
        using klist_update_split [OF pus] klist_remove_split [OF q(1)] h snoc y by simp
      moreover have "\<exists>s'. kfree q (s\<lparr>segment_head := ws @ (p, ?x) # vs\<rparr>) = Some s' \<and> merged a b p s s'"
        using merged_pair [OF inv segs [unfolded h'] h'] True free q(2) by (simp add: insert_commute)
      ultimately show ?thesis using p pe True by (simp add: segment_merge_prev_def)
    qed
  qed
qed

lemma segment_merge_next_correct:
  assumes inv: "heap_inv a b s" and segs: "segs_ok (live s) (segment_head s)"
    and p: "map_of (segment_head s) p = Some sg" and free: "seg_ref_count sg = 0"
  shows "\<exists>s'. segment_merge_next p s = Some s' \<and> merged a b p s s'"
proof -
  from p obtain us vs where h: "segment_head s = us @ (p, sg) # vs" and pus: "p \<notin> fst ` set us"
    by (rule map_of_SomeE)
  note keep = merged_refl [OF inv segs p free]
  show ?thesis
  proof (cases vs)
    case Nil
    then have "klist_next_elem p (segment_head s) = None" using klist_next_elem_split [OF pus] h by simp
    with p keep show ?thesis by (simp add: segment_merge_next_def)
  next
    case (Cons y ws)
    obtain q ns where y: "y = (q, ns)" by (cases y)
    have ne: "klist_next_elem p (segment_head s) = Some (q, ns)"
      using klist_next_elem_split [OF pus] h Cons y by simp
    show ?thesis
    proof (cases "seg_ref_count ns = 0 \<and> seg_base sg + seg_page_size sg * PAGE_SIZE = seg_base ns")
      case False
      with p ne keep show ?thesis by (auto simp: segment_merge_next_def)
    next
      case True
      let ?x = "sg\<lparr>seg_page_size := seg_page_size sg + seg_page_size ns\<rparr>"
      have h': "segment_head s = us @ (p, sg) # (q, ns) # ws" using h Cons y by simp
      have q: "q \<notin> fst ` set (us @ [(p, ?x)])" "p \<noteq> q" using segs h' by (auto simp: segs_ok_def)
      have "klist_remove q (klist_update p (\<lambda>sg. sg\<lparr>seg_page_size := seg_page_size sg + seg_page_size ns\<rparr>)
              (segment_head s)) = us @ (p, ?x) # ws"
        using klist_update_split [OF pus] klist_remove_split [OF q(1)] h Cons y by simp
      moreover have "\<exists>s'. kfree q (s\<lparr>segment_head := us @ (p, ?x) # ws\<rparr>) = Some s' \<and> merged a b p s s'"
        using merged_pair [OF inv segs [unfolded h'] h'] True free q(2) by simp
      ultimately show ?thesis using p ne True by (simp add: segment_merge_next_def)
    qed
  qed
qed

lemma segment_merge_correct:
  assumes inv: "heap_inv a b s" and segs: "segs_ok (live s) (segment_head s)"
    and p: "map_of (segment_head s) p = Some sg" and free: "seg_ref_count sg = 0"
  shows "\<exists>s'. segment_merge p s = Some s' \<and> merged a b p s s'"
proof -
  from segment_merge_prev_correct [OF assms] obtain s1 where
    s1: "segment_merge_prev p s = Some s1" "merged a b p s s1" by blast
  then obtain sg1 where "heap_inv a b s1" "segs_ok (live s1) (segment_head s1)"
    "map_of (segment_head s1) p = Some sg1" "seg_ref_count sg1 = 0" by (auto simp: merged_def)
  from segment_merge_next_correct [OF this] obtain s' where
    "segment_merge_next p s1 = Some s'" "merged a b p s1 s'" by blast
  with s1 merged_trans [OF s1(2)] show ?thesis by (auto simp: segment_merge_def)
qed

text \<open>The effect of dropping one reference to the segment \<open>p\<close>.\<close>

definition drops :: "ptr \<Rightarrow> segment \<Rightarrow> 'a ksegs_scheme \<Rightarrow> 'a ksegs_scheme \<Rightarrow> bool" where
  "drops p sg s s' \<longleftrightarrow>
     (if seg_ref_count sg = 1
      then free_mem (segment_head s') = free_mem (segment_head s) \<union> seg_span sg
         \<and> used_mem (segment_head s') = used_mem (segment_head s) - seg_span sg
      else free_mem (segment_head s') = free_mem (segment_head s)
         \<and> used_mem (segment_head s') = used_mem (segment_head s)
         \<and> map_of (segment_head s') p = Some (sg\<lparr>seg_ref_count := seg_ref_count sg - 1\<rparr>))
     \<and> (\<forall>q x. q \<noteq> p \<and> map_of (segment_head s) q = Some x \<and> seg_ref_count x \<noteq> 0
              \<longrightarrow> map_of (segment_head s') q = Some x)"

lemma segment_drop_correct:
  assumes inv: "heap_inv a b s" and segs: "segs_ok (live s) (segment_head s)"
    and p: "map_of (segment_head s) p = Some sg" and used: "seg_ref_count sg \<noteq> 0"
  shows "\<exists>s'. segment_drop p sg s = Some s' \<and> heap_inv a b s' \<and> segs_ok (live s') (segment_head s')
           \<and> segment_lock s' = segment_lock s \<and> drops p sg s s'"
proof -
  from p obtain us vs where h: "segment_head s = us @ (p, sg) # vs" and pus: "p \<notin> fst ` set us"
    by (rule map_of_SomeE)
  let ?sg = "sg\<lparr>seg_ref_count := seg_ref_count sg - 1\<rparr>"
  define t where "t = s\<lparr>segment_head := us @ (p, ?sg) # vs\<rparr>"
  have up: "klist_update p (\<lambda>sg. sg\<lparr>seg_ref_count := seg_ref_count sg - 1\<rparr>) (segment_head s) = segment_head t"
    using klist_update_split [OF pus] h by (simp add: t_def)
  have t: "heap_inv a b t" "segment_head t = us @ (p, ?sg) # vs" "segment_lock t = segment_lock s"
    "live t = live s" using inv by (simp_all add: t_def)
  then have segst: "segs_ok (live t) (segment_head t)" using segs h by (simp add: segs_ok_def seg_ok_def)
  have pt: "map_of (segment_head t) p = Some ?sg" unfolding t(2) using pus by (rule map_of_split)
  have others: "map_of (segment_head t) q = map_of (segment_head s) q" if "q \<noteq> p" for q
    unfolding t(2) h map_of_split_other [OF that] by (rule refl)
  show ?thesis
  proof (cases "seg_ref_count sg = 1")
    case False
    then have "segment_drop p sg s = Some t" using up by (simp add: segment_drop_def t_def)
    moreover have "drops p sg s t"
      unfolding drops_def using False t(2) h used pt others by (simp del: map_of_append)
    ultimately show ?thesis using t segst by (intro exI [of _ t]) simp
  next
    case True
    then have "seg_ref_count ?sg = 0" by simp
    from segment_merge_correct [OF t(1) segst pt this] obtain s' where
      s': "segment_merge p t = Some s'" "merged a b p t s'" by blast
    have "segment_drop p sg s = Some s'" using s'(1) up True by (simp add: segment_drop_def t_def)
    moreover have "seg_span sg \<inter> (used_mem us \<union> used_mem vs) = {}"
      using segs h by (auto simp: segs_ok_split simp del: span_iff)
    then have "used_mem (segment_head s') = used_mem (segment_head s) - seg_span sg"
      using s'(2) t(2) h True by (auto simp: merged_def simp del: span_iff)
    moreover have "free_mem (segment_head s') = free_mem (segment_head s) \<union> seg_span sg"
      using s'(2) t(2) h True by (auto simp: merged_def simp del: span_iff)
    ultimately have "drops p sg s s'" using s'(2) others True by (simp add: drops_def merged_def)
    with \<open>segment_drop p sg s = Some s'\<close> s'(2) t(3) show ?thesis
      by (intro exI [of _ s']) (simp add: merged_def)
  qed
qed

text \<open>
  C12. Releasing a segment in use always returns and drops one reference. With the last reference
  the bytes of the segment become free memory again (merged with free neighbours); otherwise
  the memory map is unchanged. Segments in use keep their records, and the invariant holds. The
  function \<^verbatim>\<open>segment_free\<close> does the same for the base address of a segment in use.
\<close>
theorem segment_release_correct:
  assumes inv: "seg_inv a b s" and p: "map_of (segment_head s) p = Some sg" and used: "seg_ref_count sg \<noteq> 0"
  shows "\<exists>s'. segment_release p s = Some s' \<and> seg_inv a b s' \<and> drops p sg s s'
           \<and> (klist_find (\<lambda>x. seg_base x = seg_base sg) (segment_head s) = Some (p, sg)
              \<longrightarrow> segment_free (seg_base sg) s = Some s')"
proof -
  note l = seg_inv_lock [OF inv]
  let ?s = "s\<lparr>segment_lock := True\<rparr>"
  have "heap_inv a b ?s" "segs_ok (live ?s) (segment_head ?s)" "map_of (segment_head ?s) p = Some sg"
    using l p by simp_all
  from segment_drop_correct [OF this used] obtain t where
    t: "segment_drop p sg ?s = Some t" "heap_inv a b t" "segs_ok (live t) (segment_head t)"
    "drops p sg ?s t" by blast
  have "p \<in> live s" using l(4) p by (auto simp: segs_ok_def dest: map_of_SomeD)
  then have "p \<noteq> NULL"
    using chain_live_nonnull [of a "kmalloc_head s" b] l(3) by (auto simp: heap_inv_def live_def)
  let ?t = "t\<lparr>segment_lock := False\<rparr>"
  have "segment_release p s = Some ?t"
    using p used \<open>p \<noteq> NULL\<close> l(1) t(1) by (simp add: segment_release_def spinlock_unlock_def)
  moreover have "seg_inv a b ?t" "drops p sg s ?t"
    using t by (simp_all add: seg_inv_def drops_def)
  moreover have "segment_free (seg_base sg) s = Some ?t"
    if "klist_find (\<lambda>x. seg_base x = seg_base sg) (segment_head s) = Some (p, sg)"
    using that used l(1) t(1) by (simp add: segment_free_def spinlock_unlock_def)
  ultimately show ?thesis by (intro exI [of _ ?t]) simp
qed

theorem segment_release_correct_witness:
  "map_of (segment_head seg_example2) 0x1014
     = Some \<lparr>seg_base = 0x100000, seg_page_size = 4, seg_flags = 0, seg_ref_count = 1\<rparr>
   \<and> (\<exists>s'. segment_release 0x1014 seg_example2 = Some s' \<and> free_mem (segment_head s') = span 0x100000 16)"
proof -
  note inv = segment_alloc_takes(1) [OF seg_example_inv seg_example2_eq(1)]
  from segment_release_correct [OF inv, of "0x1014"]
  obtain s' where "segment_release 0x1014 seg_example2 = Some s'"
    "free_mem (segment_head s') = span 0x104000 12 \<union> span 0x100000 4"
    by (auto simp: seg_example2_eq(2) drops_def simp del: span_iff)
  moreover have "span 0x104000 12 \<union> span 0x100000 4 = span 0x100000 16" by (auto simp: span_def)
  ultimately show ?thesis by (simp add: seg_example2_eq(2))
qed

text \<open>
  C39. \<^verbatim>\<open>segment_free\<close> of an address whose segment is already free returns with \<^verbatim>\<open>segment_lock\<close> held.
  From then on no operation on physical memory returns: allocation, reservation, location and
  \<^verbatim>\<open>segment_free\<close> itself all spin on the lock.
\<close>
theorem segment_free_twice_deadlocks:
  assumes "seg_inv a b s" and "klist_find (\<lambda>x. seg_base x = addr) (segment_head s) = Some (p, sg)"
    and "seg_ref_count sg = 0" and "n \<noteq> 0"
  shows "\<exists>s'. segment_free addr s = Some s' \<and> segment_alloc n s' = None \<and> segment_reserve c n s' = None
           \<and> segment_locate c s' = None \<and> segment_free c s' = None"
proof -
  have "segment_free addr s = Some (s\<lparr>segment_lock := True\<rparr>)"
    using seg_inv_lock(1) [OF assms(1)] assms(2, 3) by (simp add: segment_free_def)
  moreover have "segment_alloc n t = None" "segment_reserve c n t = None" "segment_locate c t = None"
    "segment_free c t = None" if "segment_lock t" for t :: "'a ksegs_scheme"
    using that assms(4)
    by (simp_all add: segment_alloc_def segment_reserve_def segment_locate_def segment_free_def spinlock_defs)
  ultimately show ?thesis by simp
qed

theorem segment_free_twice_deadlocks_witness:
  "seg_inv 0x1000 0x2000 seg_example
   \<and> klist_find (\<lambda>x. seg_base x = 0x100000) (segment_head seg_example)
       = Some (0x1014, \<lparr>seg_base = 0x100000, seg_page_size = 16, seg_flags = 0, seg_ref_count = 0\<rparr>)
   \<and> (\<exists>s'. segment_free 0x100000 seg_example = Some s' \<and> segment_alloc 1 s' = None)"
proof -
  have f: "klist_find (\<lambda>x. seg_base x = 0x100000) (segment_head seg_example)
       = Some (0x1014, \<lparr>seg_base = 0x100000, seg_page_size = 16, seg_flags = 0, seg_ref_count = 0\<rparr>)"
    by (simp add: seg_example_def)
  from segment_free_twice_deadlocks [OF seg_example_inv f, of 1 0] f seg_example_inv show ?thesis by auto
qed

section \<open>Location and initialisation\<close>

lemma segment_locate_correct:
  assumes inv: "seg_inv a b s"
  obtains p where "segment_locate addr s = Some (p, s)"
    and "p \<noteq> NULL \<Longrightarrow> \<exists>sg. map_of (segment_head s) p = Some sg \<and> unat addr \<in> seg_span sg"
    and "p = NULL \<Longrightarrow> unat addr \<notin> free_mem (segment_head s) \<union> used_mem (segment_head s)"
proof -
  note l = seg_inv_lock [OF inv]
  let ?t = "\<lambda>sg. seg_base sg \<le> addr \<and> seg_base sg + seg_page_size sg * PAGE_SIZE > addr"
  have iff: "?t sg \<longleftrightarrow> unat addr \<in> seg_span sg" if "(p, sg) \<in> set (segment_head s)" for p sg
  proof -
    have "fits (seg_base sg) (seg_page_size sg)" using that l(4) by (auto simp: segs_ok_def seg_ok_def)
    from unat_area_end [OF this] show ?thesis by (auto simp: word_le_nat_alt word_less_nat_alt)
  qed
  show ?thesis
  proof (cases "klist_find ?t (segment_head s)")
    case None
    then have "segment_locate addr s = Some (NULL, s)"
      using l(1, 2) by (simp add: segment_locate_def spinlock_unlock_def)
    moreover have "unat addr \<notin> seg_span (snd x)" if "x \<in> set (segment_head s)" for x
      using None iff [of "fst x" "snd x", unfolded prod.collapse, OF that] that unfolding klist_find_None by blast
    then have "unat addr \<notin> free_mem (segment_head s) \<union> used_mem (segment_head s)"
      by (auto simp: free_mem_def used_mem_def simp del: span_iff)
    ultimately show ?thesis using that by blast
  next
    case (Some x)
    obtain p sg where x: "x = (p, sg)" by (cases x)
    have p: "(p, sg) \<in> set (segment_head s)" "?t sg"
      using Some x by (auto elim: klist_find_SomeE)
    have "segment_locate addr s = Some (p, s)"
      using Some x l(1, 2) by (simp add: segment_locate_def spinlock_unlock_def)
    moreover have "map_of (segment_head s) p = Some sg" using p(1) l(4) by (simp add: segs_ok_def)
    moreover have "p \<noteq> NULL"
      using p(1) l(3, 4) chain_live_nonnull [of a "kmalloc_head s" b p]
      by (auto simp: segs_ok_def heap_inv_def live_def)
    ultimately show ?thesis using that iff [OF p(1)] p(2) by blast
  qed
qed

abbreviation boot_base :: "boot_seg \<Rightarrow> u32" where "boot_base bs \<equiv> ucast (seg_start bs)"

abbreviation boot_pages :: "boot_seg \<Rightarrow> u32" where "boot_pages bs \<equiv> ucast (seg_size bs div ucast PAGE_SIZE)"

lemma segment_add_correct:
  assumes inv: "seg_inv a b s" and ok: "segment_add base n s = Some (r, s')"
    and sg: "fits base n" "4096 dvd unat base"
    and new: "span base n \<inter> (free_mem (segment_head s) \<union> used_mem (segment_head s)) = {}"
  shows "seg_inv a b s'" and "r = 0" and "used_mem (segment_head s') = used_mem (segment_head s)"
    and "free_mem (segment_head s') = free_mem (segment_head s) \<union> span base n"
proof -
  note l = seg_inv_lock [OF inv]
  from ok obtain p t where t: "kmalloc sizeof_segment s = Some (p, t)"
    by (auto simp: segment_add_def bind_eq_Some_iff)
  note k = heap.alloc_inv [OF l(3) t] heap.alloc_fresh [OF l(3) t] heap.alloc_alive [OF l(3) t]
  let ?sg = "\<lparr>seg_base = base, seg_page_size = n, seg_flags = SEGMENT_FLAGS_NONE, seg_ref_count = 0\<rparr>"
  have s': "r = 0" "s' = t\<lparr>segment_head := (p, ?sg) # segment_head s, segment_lock := False\<rparr>"
    using ok t k(2) kmalloc_segs [OF t] l(1) by (auto simp: segment_add_def spinlock_defs)
  have "p \<notin> fst ` set (segment_head s)" using k(2) l(4) by (auto simp: segs_ok_def)
  then have "segs_ok (live t) ((p, ?sg) # segment_head s)"
    using l(4) k(3) sg new all_mem [of "segment_head s"]
    by (auto simp: segs_ok_def seg_ok_def simp del: span_iff)
  with s' k(1) show "seg_inv a b s'" by (simp add: seg_inv_def)
  show "r = 0" by (rule s'(1))
  show "used_mem (segment_head s') = used_mem (segment_head s)"
    and "free_mem (segment_head s') = free_mem (segment_head s) \<union> span base n"
    using s'(2) by auto
qed

lemma segment_reserve_inv:
  assumes inv: "seg_inv a b s" and "n \<noteq> 0" and addr: "4096 dvd unat addr" "fits addr n"
    and ok: "segment_reserve addr n s = Some (r, s')"
  shows "seg_inv a b s' \<and>
    free_mem (segment_head s') \<union> used_mem (segment_head s') = free_mem (segment_head s) \<union> used_mem (segment_head s)"
  using inv assms(2) ok
proof (cases rule: segment_reserve_cases)
  case (taken us p sg vs t)
  then have "seg_ok sg" using seg_inv_lock(4) [OF inv] by (simp add: segs_ok_split)
  note sp = segment_split_takes [OF inv taken(2, 3) area_cut_reserve [OF this addr taken(4, 5)] taken(6)]
  from sp(3) have
    "free_mem (segment_head s') \<union> used_mem (segment_head s') = free_mem (segment_head s) \<union> used_mem (segment_head s)"
    unfolding takes_def taken(7) by blast
  with sp(1) taken(7) show ?thesis by simp
qed (use inv in auto)

lemma segment_add_all:
  fixes s :: "'a ksegs_scheme"
  assumes "for_each (\<lambda>bs s. do {
               (ret, s) \<leftarrow> segment_add (boot_base bs) (boot_pages bs) s;
               if ret < 0 then None else Some s }) bss s = Some s'"
    and "seg_inv a b s" and "\<forall>bs \<in> set bss. fits (boot_base bs) (boot_pages bs) \<and> 4096 dvd unat (boot_base bs)"
    and "disjoint_areas (map (\<lambda>bs. span (boot_base bs) (boot_pages bs)) bss)"
    and "(\<Union>bs \<in> set bss. span (boot_base bs) (boot_pages bs)) \<inter> (free_mem (segment_head s) \<union> used_mem (segment_head s)) = {}"
  shows "seg_inv a b s' \<and> used_mem (segment_head s') = used_mem (segment_head s)
     \<and> free_mem (segment_head s') = free_mem (segment_head s) \<union> (\<Union>bs \<in> set bss. span (boot_base bs) (boot_pages bs))"
  using assms
proof (induction bss arbitrary: s)
  case (Cons bs bss)
  from Cons.prems(1) obtain r t where t: "segment_add (boot_base bs) (boot_pages bs) s = Some (r, t)"
    and rest: "for_each (\<lambda>bs s. do {
               (ret, s) \<leftarrow> segment_add (boot_base bs) (boot_pages bs) s;
               if ret < 0 then None else Some s }) bss t = Some s'"
    by (auto simp: bind_eq_Some_iff split: if_splits)
  have "span (boot_base bs) (boot_pages bs) \<inter> (free_mem (segment_head s) \<union> used_mem (segment_head s)) = {}"
    using Cons.prems(5) by auto
  note ad = segment_add_correct [OF Cons.prems(2) t _ _ this]
  have f: "fits (boot_base bs) (boot_pages bs)" "4096 dvd unat (boot_base bs)" using Cons.prems(3) by auto
  have "(\<Union>bs \<in> set bss. span (boot_base bs) (boot_pages bs)) \<inter> (free_mem (segment_head t) \<union> used_mem (segment_head t)) = {}"
    using Cons.prems(4, 5) ad(3, 4) [OF f] by (auto simp del: span_iff)
  with Cons.IH [OF rest ad(1) [OF f]] Cons.prems(3, 4) ad(3, 4) [OF f]
  show ?case by (auto simp del: span_iff)
qed simp


definition boot_example :: boot_info where
  "boot_example = \<lparr>segs = [\<lparr>seg_start = 0, seg_size = 0x1000000\<rparr>], mods = [], heap_start = 0x1000, heap_size = 0x2000\<rparr>"


section \<open>The contract of the page allocator\<close>

text \<open>What the address spaces and the MMU rely on.\<close>

locale page_allocator =
  fixes inv :: "'s \<Rightarrow> bool"
    and free used :: "'s \<Rightarrow> nat set"
    and alloc :: "u32 \<Rightarrow> 's \<Rightarrow> (u32 \<times> 's) option"
  assumes disjoint: "inv s \<Longrightarrow> free s \<inter> used s = {}"
    and alloc_inv: "inv s \<Longrightarrow> alloc n s = Some (x, s') \<Longrightarrow> inv s'"
    and alloc_takes: "inv s \<Longrightarrow> alloc n s = Some (x, s') \<Longrightarrow> x \<noteq> 0 \<Longrightarrow>
          span x n \<subseteq> free s \<and> free s' = free s - span x n \<and> used s' = used s \<union> span x n"
begin

lemma alloc_twice_disjoint:
  assumes "inv s" and "alloc n s = Some (x, s1)" and "alloc m s1 = Some (y, s2)" and "x \<noteq> 0" and "y \<noteq> 0"
  shows "span x n \<inter> span y m = {}" and "span x n \<union> span y m \<subseteq> used s2"
proof -
  note a = alloc_takes [OF assms(1, 2, 4)] and b = alloc_takes [OF alloc_inv [OF assms(1, 2)] assms(3, 5)]
  from a b show "span x n \<inter> span y m = {}" by blast
  from a b show "span x n \<union> span y m \<subseteq> used s2" by blast
qed

lemma alloc_not_used:
  assumes "inv s" and "alloc n s = Some (x, s')" and "x \<noteq> 0"
  shows "span x n \<inter> used s = {}"
  using alloc_takes [OF assms] disjoint [OF assms(1)] by blast

end

lemma segment_alloc_address_cases:
  assumes "seg_inv a b s" and "segment_alloc_address n s = Some (x, s')"
  shows "seg_inv a b s'" and "x \<noteq> 0 \<Longrightarrow> takes x n s s'" and "4096 dvd unat x"
proof -
  obtain p t where p: "segment_alloc n s = Some (p, t)"
    using assms(2) by (cases "segment_alloc n s") (auto simp: segment_alloc_address_def)
  note tk = segment_alloc_takes [OF assms(1) p]
  have t: "t = s'" and x: "x \<noteq> 0 \<Longrightarrow> p \<noteq> NULL \<and> (\<exists>sg. map_of (segment_head t) p = Some sg \<and> seg_base sg = x)"
    using assms(2) p by (cases "p = NULL"; auto simp: segment_alloc_address_def bind_eq_Some_iff)+
  show "seg_inv a b s'" using tk(1) t by simp
  show "takes x n s s'" if "x \<noteq> 0" using tk(2) x [OF that] t by auto
  show "4096 dvd unat x"
  proof (cases "x = 0")
    case False
    from x [OF this] obtain sg where "map_of (segment_head t) p = Some sg" "seg_base sg = x" by blast
    then show ?thesis using seg_inv_lock(4) [OF tk(1)] by (auto simp: segs_ok_def seg_ok_def dest!: map_of_SomeD)
  qed simp
qed

interpretation frames: page_allocator "seg_inv a b" "\<lambda>s. free_mem (segment_head s)"
  "\<lambda>s. used_mem (segment_head s)" segment_alloc_address for a b
proof unfold_locales
  fix s s' :: "'a ksegs_scheme" and n x
  show "free_mem (segment_head s) \<inter> used_mem (segment_head s) = {}" if "seg_inv a b s"
    using seg_inv_lock(4) [OF that] by (intro free_used_disjoint) (simp add: segs_ok_def)
  assume ok: "seg_inv a b s" "segment_alloc_address n s = Some (x, s')"
  show "seg_inv a b s'" by (rule segment_alloc_address_cases(1) [OF ok])
  show "span x n \<subseteq> free_mem (segment_head s) \<and> free_mem (segment_head s') = free_mem (segment_head s) - span x n
     \<and> used_mem (segment_head s') = used_mem (segment_head s) \<union> span x n" if "x \<noteq> 0"
    using segment_alloc_address_cases(2) [OF ok that] by (simp add: takes_def)
qed

section \<open>Frame\<close>

text \<open>
  The operations on segments change no field of an extended state beyond the segment list, its
  lock and the heap blocks.
\<close>

definition segs_only :: "'a ksegs_scheme \<Rightarrow> 'a ksegs_scheme \<Rightarrow> bool" where
  "segs_only s s' \<longleftrightarrow> ksegs.more s' = ksegs.more s \<and> kbytes s' = kbytes s \<and> kmalloc_lock s' = kmalloc_lock s"

lemma segs_only_simps [simp]:
  "segs_only s s"
  "segs_only s (t\<lparr>segment_head := xs\<rparr>) = segs_only s t"
  "segs_only s (t\<lparr>segment_lock := l\<rparr>) = segs_only s t"
  "segs_only (s\<lparr>segment_head := xs\<rparr>) t = segs_only s t"
  "segs_only (s\<lparr>segment_lock := l\<rparr>) t = segs_only s t"
  by (simp_all add: segs_only_def)

lemma segs_only_trans: "segs_only s t \<Longrightarrow> segs_only t u \<Longrightarrow> segs_only s u"
  by (simp add: segs_only_def)

lemma kmalloc_segs_only: "kmalloc n s = Some (p, s') \<Longrightarrow> segs_only s s'"
  by (drule kmalloc_frame) (auto simp: segs_only_def)

lemma kfree_segs_only: "kfree p s = Some s' \<Longrightarrow> segs_only s s'"
  by (drule kfree_frame) (auto simp: segs_only_def)

lemma segment_split_segs_only:
  assumes "segment_split p addr n s = Some s'"
  shows "segs_only s s'"
  using assms unfolding segment_split_def Let_def
  by (elim bind_SomeE) (auto elim!: bind_pairE split: if_splits dest!: kmalloc_segs_only intro: segs_only_trans)

lemma segment_alloc_segs_only:
  assumes "segment_alloc n s = Some (p, s')"
  shows "segs_only s s'"
proof (cases "n = 0")
  case False
  then show ?thesis
    using assms unfolding segment_alloc_def Let_def
    by (auto elim!: bind_SomeE split: option.splits dest!: segment_split_segs_only)
qed (use assms in \<open>simp add: segment_alloc_def\<close>)

lemma segment_alloc_address_segs_only:
  assumes "segment_alloc_address n s = Some (x, s')"
  shows "segs_only s s'"
  using assms unfolding segment_alloc_address_def
  by (elim bind_pairE) (auto elim!: bind_SomeE split: if_splits dest!: segment_alloc_segs_only)

lemma segment_locate_segs_only: "segment_locate addr s = Some (p, s') \<Longrightarrow> segs_only s s'"
  unfolding segment_locate_def Let_def by (auto elim!: bind_SomeE split: option.splits)

lemma segment_merge_segs_only:
  assumes "segment_merge p s = Some s'"
  shows "segs_only s s'"
proof -
  have prev: "segs_only s t" if "segment_merge_prev p s = Some t" for s t :: "'a ksegs_scheme"
    using that unfolding segment_merge_prev_def
    by (auto elim!: bind_SomeE split: option.splits if_splits dest!: kfree_segs_only)
  have nxt: "segs_only s t" if "segment_merge_next p s = Some t" for s t :: "'a ksegs_scheme"
    using that unfolding segment_merge_next_def
    by (auto elim!: bind_SomeE split: option.splits if_splits dest!: kfree_segs_only)
  from assms show ?thesis
    unfolding segment_merge_def by (elim bind_SomeE) (auto dest!: prev nxt intro: segs_only_trans)
qed

lemma segment_drop_segs_only: "segment_drop p sg s = Some s' \<Longrightarrow> segs_only s s'"
  unfolding segment_drop_def Let_def by (auto split: if_splits dest!: segment_merge_segs_only)

lemma segment_release_segs_only: "segment_release p s = Some s' \<Longrightarrow> segs_only s s'"
  unfolding segment_release_def Let_def
  by (auto elim!: bind_SomeE split: if_splits dest!: segment_drop_segs_only)

lemma segment_free_segs_only: "segment_free x s = Some s' \<Longrightarrow> segs_only s s'"
  unfolding segment_free_def Let_def
  by (auto elim!: bind_SomeE split: if_splits option.splits dest!: segment_drop_segs_only)

lemmas segs_only_dests =
  segment_alloc_segs_only segment_alloc_address_segs_only segment_locate_segs_only
  segment_release_segs_only segment_free_segs_only kmalloc_segs_only kfree_segs_only

end
