(* ===== verification/Region.thy ===== *)
theory Region
  imports Segment
begin

text \<open>
  Virtual memory regions of an address space (\<^verbatim>\<open>kernel/core/mem/region.c\<close>). Every address space
  owns a list of regions, each mapped or not, in address order. This theory also declares
  \<^verbatim>\<open>struct as\<close> and \<^verbatim>\<open>struct as_mapping\<close> of \<^verbatim>\<open>include/kernel/mem/as.h\<close>, because regions live in the
  address space. The main results: the regions always tile the range of the address space
  without gap or overlap, reservation marks exactly the requested pages, release unmarks them.
\<close>

section \<open>State\<close>

record region =
  reg_base :: u32
  reg_page_size :: u32
  reg_mapped :: bool

record as_mapping =
  map_virt :: u32
  map_phy :: ptr
  map_size :: u32
  map_flags :: u32

text \<open>\<open>as_cr3\<close> is the only field of the i386 \<^verbatim>\<open>struct glue_as\<close>.\<close>

record as =
  region_lock :: spinlock
  regions :: "(ptr \<times> region) list"
  map_lock :: spinlock
  mapping :: "(ptr \<times> as_mapping) list"
  as_cr3 :: u32

text \<open>
  The address spaces by pointer. The field \<open>kernel_as\<close> is the address the linker gives to the
  object \<^verbatim>\<open>kernel_as\<close>.
\<close>

record kspaces = ksegs +
  spaces :: "ptr \<rightharpoonup> as"
  kernel_as :: ptr

definition sizeof_region :: u32 where "sizeof_region = 20"

definition as_upd :: "ptr \<Rightarrow> (as \<Rightarrow> as) \<Rightarrow> 'a kspaces_scheme \<Rightarrow> 'a kspaces_scheme" where
  "as_upd p f s = s\<lparr>spaces := (spaces s)(p := map_option f (spaces s p))\<rparr>"

section \<open>Operations\<close>

text \<open>\<^verbatim>\<open>region_split\<close> works on the list that contains the region.\<close>

definition region_split :: "ptr \<Rightarrow> u32 \<Rightarrow> u32 \<Rightarrow> (ptr \<times> region) list \<Rightarrow> 'a kspaces_scheme
    \<Rightarrow> ((ptr \<times> region) list \<times> 'a kspaces_scheme) option" where
  "region_split reg addr page_size rs s = do {
     r \<leftarrow> map_of rs reg;
     (rs, s) \<leftarrow>
       (if addr > reg_base r
        then do {
          (before, s) \<leftarrow> kmalloc sizeof_region s;
          let b = \<lparr>reg_base = reg_base r, reg_page_size = (addr - reg_base r) div PAGE_SIZE,
                   reg_mapped = False\<rparr>;
          Some (klist_insert_before reg (before, b) rs, s)
        }
        else Some (rs, s));
     (rs, s) \<leftarrow>
       (if addr + page_size * PAGE_SIZE < reg_base r + reg_page_size r * PAGE_SIZE
        then do {
          (after, s) \<leftarrow> kmalloc sizeof_region s;
          let a = \<lparr>reg_base = addr + page_size * PAGE_SIZE,
                   reg_page_size = reg_page_size r - ((addr - reg_base r) div PAGE_SIZE + page_size),
                   reg_mapped = False\<rparr>;
          Some (klist_insert_after reg (after, a) rs, s)
        }
        else Some (rs, s));
     Some (klist_update reg (\<lambda>r. r\<lparr>reg_base := addr, reg_page_size := page_size\<rparr>) rs, s)
   }"

text \<open>The loop of \<^verbatim>\<open>region_reserve\<close>: the first region at which it stops.\<close>

definition region_stops :: "u32 \<Rightarrow> u32 \<Rightarrow> region \<Rightarrow> bool" where
  "region_stops addr page_size r \<longleftrightarrow> \<not> reg_mapped r \<and>
     (if addr = 0 then reg_page_size r \<ge> page_size
      else addr \<ge> reg_base r \<and> addr < reg_base r + reg_page_size r * PAGE_SIZE)"

definition region_reserve :: "ptr \<Rightarrow> u32 \<Rightarrow> u32 \<Rightarrow> 'a kspaces_scheme \<Rightarrow> (u32 \<times> 'a kspaces_scheme) option" where
  "region_reserve as addr page_size s = do {
     A \<leftarrow> spaces s as;
     let max_range = addr + page_size * PAGE_SIZE;
     l \<leftarrow> spinlock_lock (region_lock A);
     let s = as_upd as (\<lambda>A. A\<lparr>region_lock := l\<rparr>) s;
     case klist_find (region_stops addr page_size) (regions A) of
       None \<Rightarrow> Some (0, as_upd as (\<lambda>A. A\<lparr>region_lock := spinlock_unlock l\<rparr>) s)
     | Some (reg, r) \<Rightarrow>
         if addr \<noteq> 0 \<and> max_range > reg_base r + reg_page_size r * PAGE_SIZE
         then Some (0, as_upd as (\<lambda>A. A\<lparr>region_lock := spinlock_unlock l\<rparr>) s)
         else do {
           let rs = klist_update reg (\<lambda>r. r\<lparr>reg_mapped := True\<rparr>) (regions A);
           let start = (if addr = 0 then reg_base r else addr);
           (rs, s) \<leftarrow> region_split reg start page_size rs s;
           Some (start, as_upd as (\<lambda>A. A\<lparr>regions := rs, region_lock := spinlock_unlock l\<rparr>) s)
         }
   }"

text \<open>The two halves of \<^verbatim>\<open>region_merge\<close>. The first compares with the size of \<open>reg\<close>, not of \<open>prev\<close>.\<close>

definition region_merge_prev :: "ptr \<Rightarrow> (ptr \<times> region) list \<Rightarrow> 'a kspaces_scheme
    \<Rightarrow> ((ptr \<times> region) list \<times> 'a kspaces_scheme) option" where
  "region_merge_prev reg rs s = do {
     r \<leftarrow> map_of rs reg;
     case klist_prev_elem reg rs of
       None \<Rightarrow> Some (rs, s)
     | Some (prv, p) \<Rightarrow>
         if \<not> reg_mapped p \<and> reg_base p + reg_page_size r * PAGE_SIZE = reg_base r
         then do {
           let rs = klist_update reg (\<lambda>r. r\<lparr>reg_base := reg_base p,
                                            reg_page_size := reg_page_size r + reg_page_size p\<rparr>) rs;
           let rs = klist_remove prv rs;
           s \<leftarrow> kfree prv s;
           Some (rs, s)
         }
         else Some (rs, s)
   }"

definition region_merge_next :: "ptr \<Rightarrow> (ptr \<times> region) list \<Rightarrow> 'a kspaces_scheme
    \<Rightarrow> ((ptr \<times> region) list \<times> 'a kspaces_scheme) option" where
  "region_merge_next reg rs s = do {
     r \<leftarrow> map_of rs reg;
     case klist_next_elem reg rs of
       None \<Rightarrow> Some (rs, s)
     | Some (nxt, n) \<Rightarrow>
         if \<not> reg_mapped n \<and> reg_base r + reg_page_size r * PAGE_SIZE = reg_base n
         then do {
           let rs = klist_update reg (\<lambda>r. r\<lparr>reg_page_size := reg_page_size r + reg_page_size n\<rparr>) rs;
           let rs = klist_remove nxt rs;
           s \<leftarrow> kfree nxt s;
           Some (rs, s)
         }
         else Some (rs, s)
   }"

definition region_merge :: "ptr \<Rightarrow> (ptr \<times> region) list \<Rightarrow> 'a kspaces_scheme
    \<Rightarrow> ((ptr \<times> region) list \<times> 'a kspaces_scheme) option" where
  "region_merge reg rs s = do {
     (rs, s) \<leftarrow> region_merge_prev reg rs s;
     region_merge_next reg rs s
   }"

definition region_release :: "ptr \<Rightarrow> u32 \<Rightarrow> 'a kspaces_scheme \<Rightarrow> 'a kspaces_scheme option" where
  "region_release as addr s = do {
     A \<leftarrow> spaces s as;
     l \<leftarrow> spinlock_lock (region_lock A);
     let s = as_upd as (\<lambda>A. A\<lparr>region_lock := l\<rparr>) s;
     case klist_find (\<lambda>r. reg_base r = addr) (regions A) of
       None \<Rightarrow> Some (as_upd as (\<lambda>A. A\<lparr>region_lock := spinlock_unlock l\<rparr>) s)
     | Some (reg, _) \<Rightarrow> do {
         let rs = klist_update reg (\<lambda>r. r\<lparr>reg_mapped := False\<rparr>) (regions A);
         (rs, s) \<leftarrow> region_merge reg rs s;
         Some (as_upd as (\<lambda>A. A\<lparr>regions := rs, region_lock := spinlock_unlock l\<rparr>) s)
       }
   }"

definition region_initialize :: "ptr \<Rightarrow> 'a kspaces_scheme \<Rightarrow> 'a kspaces_scheme option" where
  "region_initialize as s = do {
     (reg, s) \<leftarrow> kmalloc sizeof_region s;
     _ \<leftarrow> spaces s as;
     if as = kernel_as s
     then do {
       let r = \<lparr>reg_base = KERNEL_BEGIN, reg_page_size = 1024 + KERNEL_EXHEAP_SIZE div PAGE_SIZE,
                reg_mapped = False\<rparr>;
       let s = as_upd as (\<lambda>A. A\<lparr>regions := [(reg, r)]\<rparr>) s;
       (_, s) \<leftarrow> region_reserve as 0xC0000000 1024 s;
       Some s
     }
     else do {
       let r = \<lparr>reg_base = USER_BEGIN, reg_page_size = (KERNEL_BEGIN - USER_BEGIN) div PAGE_SIZE,
                reg_mapped = False\<rparr>;
       Some (as_upd as (\<lambda>A. A\<lparr>regions := [(reg, r)]\<rparr>) s)
     }
   }"

section \<open>Invariant\<close>

abbreviation reg_span :: "region \<Rightarrow> nat set" where
  "reg_span r \<equiv> span (reg_base r) (reg_page_size r)"

text \<open>\<open>tiles a rs b\<close>: the regions \<open>rs\<close>, in order, tile the addresses from \<open>a\<close> to \<open>b\<close>.\<close>

fun tiles :: "nat \<Rightarrow> (ptr \<times> region) list \<Rightarrow> nat \<Rightarrow> bool" where
  "tiles a [] b \<longleftrightarrow> a = b"
| "tiles a ((p, r) # rs) b \<longleftrightarrow> unat (reg_base r) = a \<and> tiles (a + unat (reg_page_size r) * 4096) rs b"

definition regs_ok :: "ptr set \<Rightarrow> (ptr \<times> region) list \<Rightarrow> bool" where
  "regs_ok L rs \<longleftrightarrow> distinct (map fst rs) \<and> fst ` set rs \<subseteq> L
     \<and> (\<exists>a b. tiles a rs b \<and> 0 < a \<and> 4096 dvd a \<and> b < 2 ^ 32)"

definition mapped_mem :: "(ptr \<times> region) list \<Rightarrow> nat set" where
  "mapped_mem rs = (\<Union>x \<in> {x \<in> set rs. reg_mapped (snd x)}. reg_span (snd x))"

definition region_mem :: "(ptr \<times> region) list \<Rightarrow> nat set" where
  "region_mem rs = (\<Union>x \<in> set rs. reg_span (snd x))"

lemma mem_simps [simp]:
  "mapped_mem [] = {}" "region_mem [] = {}"
  "mapped_mem (x # xs) = (if reg_mapped (snd x) then reg_span (snd x) else {}) \<union> mapped_mem xs"
  "region_mem (x # xs) = reg_span (snd x) \<union> region_mem xs"
  "mapped_mem (xs @ ys) = mapped_mem xs \<union> mapped_mem ys"
  "region_mem (xs @ ys) = region_mem xs \<union> region_mem ys"
  by (auto simp: mapped_mem_def region_mem_def)

lemma mapped_mem_subset: "mapped_mem rs \<subseteq> region_mem rs"
  by (auto simp: mapped_mem_def region_mem_def)

lemma tiles_append: "tiles a (us @ vs) b \<longleftrightarrow> (\<exists>c. tiles a us c \<and> tiles c vs b)"
  by (induction us arbitrary: a) auto

lemma tiles_le: "tiles a rs b \<Longrightarrow> a \<le> b"
  by (induction rs arbitrary: a) force+

lemma tiles_split:
  "tiles a (us @ (p, r) # vs) b \<longleftrightarrow>
     tiles a us (unat (reg_base r)) \<and> tiles (unat (reg_base r) + unat (reg_page_size r) * 4096) vs b"
  by (auto simp: tiles_append)

lemma tiles_mem: "tiles a rs b \<Longrightarrow> region_mem rs = {a..<b}"
proof (induction rs arbitrary: a)
  case (Cons x rs)
  obtain p r where x: "x = (p, r)" by (cases x)
  with Cons.prems have a: "unat (reg_base r) = a" and t: "tiles (a + unat (reg_page_size r) * 4096) rs b"
    by auto
  from Cons.IH [OF t] tiles_le [OF t] a x show ?case by (auto simp: span_def)
qed simp

lemma tiles_mem_split:
  assumes "tiles a (us @ (p, r) # vs) b"
  shows "reg_span r \<inter> (region_mem us \<union> region_mem vs) = {}"
  using assms tiles_mem [of a us] tiles_mem [of _ vs b] by (auto simp: tiles_split span_def)

lemma tiles_aligned:
  "tiles a rs b \<Longrightarrow> 4096 dvd a \<Longrightarrow> (p, r) \<in> set rs \<Longrightarrow> 4096 dvd unat (reg_base r)"
  by (induction rs arbitrary: a) (auto simp: dvd_add)

lemma tiles_fits:
  assumes "tiles a rs b" and "b < 2 ^ 32" and "(p, r) \<in> set rs"
  shows "fits (reg_base r) (reg_page_size r)" and "a \<le> unat (reg_base r)"
proof -
  from assms(3) obtain us vs where "rs = us @ (p, r) # vs" by (meson split_list)
  with assms show "fits (reg_base r) (reg_page_size r)" and "a \<le> unat (reg_base r)"
    by (auto simp: fits_def tiles_split dest: tiles_le)
qed

text \<open>The heap and the segments do not depend on the fields of this layer.\<close>

lemma as_upd_frame [simp]:
  "heap_inv a b (as_upd p f s) = heap_inv a b s" "live (as_upd p f s) = live s"
  "seg_inv a b (as_upd p f s) = seg_inv a b s" "segment_head (as_upd p f s) = segment_head s"
  "segment_lock (as_upd p f s) = segment_lock s" "kernel_as (as_upd p f s) = kernel_as s"
  "kmalloc_head (as_upd p f s) = kmalloc_head s" "kbytes (as_upd p f s) = kbytes s"
  by (simp_all add: as_upd_def heap_inv_def live_def seg_inv_def)

lemma as_upd_spaces [simp]:
  "spaces (as_upd p f s) q = (if q = p then map_option f (spaces s p) else spaces s q)"
  by (simp add: as_upd_def)

lemma as_upd_twice: "as_upd p f (as_upd p g s) = as_upd p (\<lambda>A. f (g A)) s"
  by (simp add: as_upd_def option.map_comp o_def)

lemma kmalloc_spaces [simp]:
  assumes "kmalloc n s = Some (p, s')"
  shows "spaces s' = spaces s" and "kernel_as s' = kernel_as s"
  using kmalloc_frame [OF assms] by auto

lemma kfree_spaces [simp]:
  assumes "kfree p s = Some s'"
  shows "spaces s' = spaces s" and "kernel_as s' = kernel_as s"
  using kfree_frame [OF assms] by auto

section \<open>Splitting\<close>

definition reg_before :: "ptr \<Rightarrow> region \<Rightarrow> u32 \<Rightarrow> (ptr \<times> region) list" where
  "reg_before q r addr =
     (if addr > reg_base r
      then [(q, \<lparr>reg_base = reg_base r, reg_page_size = pages_before (reg_base r) addr,
                 reg_mapped = False\<rparr>)] else [])"

definition reg_after :: "ptr \<Rightarrow> region \<Rightarrow> u32 \<Rightarrow> u32 \<Rightarrow> (ptr \<times> region) list" where
  "reg_after q r addr n =
     (if addr + n * PAGE_SIZE < reg_base r + reg_page_size r * PAGE_SIZE
      then [(q, \<lparr>reg_base = addr + n * PAGE_SIZE,
                 reg_page_size = pages_after (reg_base r) (reg_page_size r) addr n,
                 reg_mapped = False\<rparr>)] else [])"

abbreviation reg_pieces :: "ptr \<Rightarrow> ptr \<Rightarrow> ptr \<Rightarrow> region \<Rightarrow> u32 \<Rightarrow> u32 \<Rightarrow> (ptr \<times> region) list" where
  "reg_pieces q p q' r addr n \<equiv>
     reg_before q r addr @ (p, r\<lparr>reg_base := addr, reg_page_size := n\<rparr>) # reg_after q' r addr n"

lemma new_reg:
  fixes s s1 :: "'a kspaces_scheme"
  assumes inv: "heap_inv a b s"
    and ok: "(if c then do { (q, s) \<leftarrow> kmalloc n s; Some (f q rs, s) } else Some (rs, s)) = Some (rs1, s1)"
  obtains q where "heap_inv a b s1" and "heap_only s s1"
    and "rs1 = (if c then f q rs else rs)"
    and "live s1 = live s \<union> (if c then {q} else {})" and "c \<longrightarrow> q \<notin> live s"
proof (cases c)
  case True
  with ok obtain q where t: "kmalloc n s = Some (q, s1)" and rs1: "rs1 = f q rs"
    by (auto simp: bind_eq_Some_iff)
  show ?thesis
    using that [of q] True rs1 heap.alloc_inv [OF inv t] heap.alloc_fresh [OF inv t]
      heap.alloc_alive [OF inv t] kmalloc_heap_only [OF t] by simp
next
  case False
  with ok have eq: "rs1 = rs" "s1 = s" by simp_all
  then show ?thesis using that [of 0] False inv by simp
qed

lemma region_split_eq:
  fixes s s' :: "'a kspaces_scheme"
  assumes inv: "heap_inv a b s" and live: "fst ` set (us @ (p, r) # vs) \<subseteq> live s" and p: "p \<notin> fst ` set us"
    and ok: "region_split p addr n (us @ (p, r) # vs) s = Some (rs, s')"
  shows "\<exists>q q'. heap_inv a b s' \<and> heap_only s s'
    \<and> rs = us @ reg_pieces q p q' r addr n @ vs
    \<and> live s' = live s \<union> fst ` set (reg_before q r addr @ reg_after q' r addr n)
    \<and> fst ` set (reg_before q r addr @ reg_after q' r addr n) \<inter> live s = {}
    \<and> distinct (map fst (reg_before q r addr @ reg_after q' r addr n))"
proof -
  let ?c1 = "addr > reg_base r"
  let ?c2 = "addr + n * PAGE_SIZE < reg_base r + reg_page_size r * PAGE_SIZE"
  let ?b = "\<lparr>reg_base = reg_base r, reg_page_size = pages_before (reg_base r) addr, reg_mapped = False\<rparr>"
  let ?a = "\<lparr>reg_base = addr + n * PAGE_SIZE,
             reg_page_size = pages_after (reg_base r) (reg_page_size r) addr n, reg_mapped = False\<rparr>"
  let ?rs = "us @ (p, r) # vs"
  have r: "map_of ?rs p = Some r" using p by (rule map_of_split)
  obtain s1 s2 rs1 rs2 where
    1: "(if ?c1 then do { (q, s) \<leftarrow> kmalloc sizeof_region s; Some (klist_insert_before p (q, ?b) ?rs, s) }
         else Some (?rs, s)) = Some (rs1, s1)"
    and 2: "(if ?c2 then do { (q', s) \<leftarrow> kmalloc sizeof_region s1; Some (klist_insert_after p (q', ?a) rs1, s) }
         else Some (rs1, s1)) = Some (rs2, s2)"
    and 3: "rs = klist_update p (\<lambda>r. r\<lparr>reg_base := addr, reg_page_size := n\<rparr>) rs2" "s' = s2"
    using ok unfolding region_split_def Let_def r bind_Some_conv by (elim bind_pairE) simp
  obtain q where
    q: "heap_inv a b s1" "heap_only s s1"
    "rs1 = (if ?c1 then klist_insert_before p (q, ?b) ?rs else ?rs)"
    "live s1 = live s \<union> (if ?c1 then {q} else {})" "?c1 \<longrightarrow> q \<notin> live s"
    by (rule new_reg [where f = "\<lambda>q. klist_insert_before p (q, ?b)", OF inv 1])
  obtain q' where
    q': "heap_inv a b s2" "heap_only s1 s2"
    "rs2 = (if ?c2 then klist_insert_after p (q', ?a) rs1 else rs1)"
    "live s2 = live s1 \<union> (if ?c2 then {q'} else {})" "?c2 \<longrightarrow> q' \<notin> live s1"
    by (rule new_reg [where f = "\<lambda>q. klist_insert_after p (q, ?a)", OF q(1) 2])
  have "rs1 = us @ reg_before q r addr @ (p, r) # vs"
    using q(3) p by (simp add: reg_before_def klist_simps)
  moreover have pq: "p \<notin> fst ` set (us @ reg_before q r addr)"
    using p q(5) live by (auto simp: reg_before_def)
  ultimately have "rs2 = us @ reg_before q r addr @ (p, r) # reg_after q' r addr n @ vs"
    using q'(3) klist_insert_after_split [OF pq] by (simp add: reg_after_def)
  then have "rs = us @ reg_pieces q p q' r addr n @ vs"
    unfolding 3 using klist_update_split [OF pq] by simp
  moreover have "live s' = live s \<union> fst ` set (reg_before q r addr @ reg_after q' r addr n)"
    unfolding 3 q'(4) q(4) by (simp add: reg_before_def reg_after_def)
  moreover have "fst ` set (reg_before q r addr @ reg_after q' r addr n) \<inter> live s = {}"
    and "distinct (map fst (reg_before q r addr @ reg_after q' r addr n))"
    using q(5) q'(5) unfolding q(4) by (auto simp: reg_before_def reg_after_def)
  moreover have "heap_only s s'" using heap_only_trans [OF q(2) q'(2)] 3(2) by simp
  ultimately show ?thesis using q'(1) 3(2) by (intro exI [of _ q] exI [of _ q'] conjI) simp_all
qed

lemma tiles_pieces:
  assumes cut: "area_cut (reg_base r) (reg_page_size r) addr n"
  shows "tiles (unat (reg_base r)) (reg_pieces q p q' r addr n)
           (unat (reg_base r) + unat (reg_page_size r) * 4096)"
proof -
  note pages = before_pages [OF cut] after_pages [OF cut] end_new [OF cut]
  have le: "unat (reg_base r) \<le> unat addr" "unat addr + unat n * 4096 \<le> unat (reg_base r) + unat (reg_page_size r) * 4096"
    using cut by (auto simp: area_cut_def word_le_nat_alt)
  have b: "tiles (unat (reg_base r)) (reg_before q r addr) (unat addr)"
    using pages(1) le by (auto simp: reg_before_def word_less_nat_alt)
  have "unat (reg_base r + reg_page_size r * PAGE_SIZE) = unat (reg_base r) + unat (reg_page_size r) * 4096"
    using cut by (simp add: area_cut_def unat_area_end)
  then have "tiles (unat addr + unat n * 4096) (reg_after q' r addr n)
       (unat (reg_base r) + unat (reg_page_size r) * 4096)"
    using pages(2, 3) le by (auto simp: reg_after_def word_less_nat_alt)
  with b show ?thesis by (auto simp: tiles_append)
qed

lemma mapped_pieces:
  "reg_mapped r \<Longrightarrow> mapped_mem (reg_pieces q p q' r addr n) = span addr n"
  by (auto simp: reg_before_def reg_after_def)

lemma region_split_correct:
  fixes s s' :: "'a kspaces_scheme"
  assumes inv: "heap_inv a b s" and regs: "regs_ok (live s) (us @ (p, r) # vs)" and m: "reg_mapped r"
    and cut: "area_cut (reg_base r) (reg_page_size r) addr n"
    and ok: "region_split p addr n (us @ (p, r) # vs) s = Some (rs, s')"
  shows "heap_inv a b s'" and "heap_only s s'" and "regs_ok (live s') rs"
    and "mapped_mem rs = mapped_mem us \<union> span addr n \<union> mapped_mem vs"
    and "region_mem rs = region_mem (us @ (p, r) # vs)" and "live s \<subseteq> live s'"
    and "map_of rs p = Some (r\<lparr>reg_base := addr, reg_page_size := n\<rparr>)"
proof -
  have live: "fst ` set (us @ (p, r) # vs) \<subseteq> live s" and p: "p \<notin> fst ` set us"
    and d: "distinct (map fst (us @ (p, r) # vs))"
    using regs by (auto simp: regs_ok_def)
  from region_split_eq [OF inv live p ok] obtain q q' where
    s': "heap_inv a b s'" "heap_only s s'" "rs = us @ reg_pieces q p q' r addr n @ vs"
    "live s' = live s \<union> fst ` set (reg_before q r addr @ reg_after q' r addr n)"
    "fst ` set (reg_before q r addr @ reg_after q' r addr n) \<inter> live s = {}"
    "distinct (map fst (reg_before q r addr @ reg_after q' r addr n))"
    by blast
  show "heap_inv a b s'" "heap_only s s'" using s' by blast+
  show "mapped_mem rs = mapped_mem us \<union> span addr n \<union> mapped_mem vs"
    using mem_simps(5) [of us "reg_pieces q p q' r addr n @ vs"]
      mem_simps(5) [of "reg_pieces q p q' r addr n" vs] mapped_pieces [OF m] s'(3)
    by (simp only: Un_assoc)
  from regs obtain c e where t: "tiles c (us @ (p, r) # vs) e" "0 < c" "4096 dvd c" "e < 2 ^ 32"
    by (auto simp: regs_ok_def)
  then have t': "tiles c rs e"
    unfolding s'(3) using tiles_pieces [OF cut, of q p q'] by (auto simp: tiles_append)
  with t(1) show "region_mem rs = region_mem (us @ (p, r) # vs)" by (simp only: tiles_mem)
  have fresh: "fst ` set (reg_before q r addr @ reg_after q' r addr n) \<inter> fst ` set (us @ (p, r) # vs) = {}"
    using s'(5) live by blast
  have d': "distinct (map fst rs)"
    using s'(6) d fresh unfolding s'(3) by auto
  moreover have "fst ` set rs \<subseteq> live s'" using live s'(4) unfolding s'(3) by auto
  ultimately show "regs_ok (live s') rs" using t' t(2-4) by (auto simp: regs_ok_def)
  show "live s \<subseteq> live s'" using s'(4) by blast
  show "map_of rs p = Some (r\<lparr>reg_base := addr, reg_page_size := n\<rparr>)"
    using d' by (rule map_of_is_SomeI) (simp add: s'(3))
qed

section \<open>Reservation\<close>

definition space_inv :: "nat \<Rightarrow> nat \<Rightarrow> ptr \<Rightarrow> as \<Rightarrow> 'a kspaces_scheme \<Rightarrow> bool" where
  "space_inv a b as A s \<longleftrightarrow> heap_inv a b s \<and> spaces s as = Some A \<and> \<not> region_lock A
     \<and> regs_ok (live s) (regions A)"

text \<open>\<open>only_regions as A rs s s'\<close>: the regions of \<open>as\<close> became \<open>rs\<close>, and besides the heap nothing else
  changed.\<close>

definition only_regions :: "ptr \<Rightarrow> as \<Rightarrow> (ptr \<times> region) list \<Rightarrow> 'a kspaces_scheme \<Rightarrow> 'a kspaces_scheme \<Rightarrow> bool" where
  "only_regions as A rs s s' \<longleftrightarrow>
     (\<exists>h. s' = s\<lparr>kmalloc_head := h, spaces := (spaces s)(as \<mapsto> A\<lparr>regions := rs\<rparr>)\<rparr>)"

lemma region_unlocked:
  "\<not> region_lock A \<Longrightarrow> A\<lparr>regions := rs, region_lock := False\<rparr> = A\<lparr>regions := rs\<rparr>"
  by (simp add: as.equality)

lemma as_upd_regions:
  assumes "spaces s as = Some A" and "\<not> region_lock A"
  shows "as_upd as (\<lambda>A. A\<lparr>regions := rs, region_lock := False\<rparr>) s = s\<lparr>spaces := (spaces s)(as \<mapsto> A\<lparr>regions := rs\<rparr>)\<rparr>"
    and "as_upd as (\<lambda>A. A\<lparr>region_lock := False\<rparr>) s = s"
proof -
  have "A\<lparr>regions := rs, region_lock := False\<rparr> = A\<lparr>regions := rs\<rparr>" and A: "A\<lparr>region_lock := False\<rparr> = A"
    using assms(2) by (simp_all add: as.equality)
  with assms(1) show "as_upd as (\<lambda>A. A\<lparr>regions := rs, region_lock := False\<rparr>) s
       = s\<lparr>spaces := (spaces s)(as \<mapsto> A\<lparr>regions := rs\<rparr>)\<rparr>" by (simp add: as_upd_def)
  have "(spaces s)(as := spaces s as) = spaces s" by (rule fun_upd_triv)
  with A assms(1) show "as_upd as (\<lambda>A. A\<lparr>region_lock := False\<rparr>) s = s" by (simp add: as_upd_def)
qed

lemma region_reserve_cases:
  fixes s s' :: "'a kspaces_scheme"
  assumes inv: "space_inv a b as A s" and ok: "region_reserve as addr n s = Some (v, s')"
  obtains (none) "v = 0" "s' = s" "\<forall>x \<in> set (regions A). \<not> region_stops addr n (snd x)"
  | (short) us p r vs where "v = 0" "s' = s" "regions A = us @ (p, r) # vs" "region_stops addr n r"
      "addr \<noteq> 0" "addr + n * PAGE_SIZE > reg_base r + reg_page_size r * PAGE_SIZE"
  | (taken) us p r vs rs t where "regions A = us @ (p, r) # vs" "region_stops addr n r"
      "addr = 0 \<or> addr + n * PAGE_SIZE \<le> reg_base r + reg_page_size r * PAGE_SIZE"
      "v = (if addr = 0 then reg_base r else addr)"
      "region_split p v n (us @ (p, r\<lparr>reg_mapped := True\<rparr>) # vs) (as_upd as (\<lambda>A. A\<lparr>region_lock := True\<rparr>) s)
         = Some (rs, t)"
      "s' = as_upd as (\<lambda>A. A\<lparr>regions := rs, region_lock := False\<rparr>) t"
proof -
  have A: "spaces s as = Some A" "\<not> region_lock A" and regs: "regs_ok (live s) (regions A)"
    using inv by (auto simp: space_inv_def)
  have twice: "as_upd as (\<lambda>A. A\<lparr>region_lock := False\<rparr>) (as_upd as (\<lambda>A. A\<lparr>region_lock := True\<rparr>) s) = s"
    using as_upd_regions(2) [OF A] by (simp add: as_upd_twice)
  show ?thesis
  proof (cases "klist_find (region_stops addr n) (regions A)")
    case None
    with ok A twice have "v = 0" "s' = s" by (simp_all add: region_reserve_def spinlock_defs)
    with None none show ?thesis by (simp add: klist_find_None)
  next
    case (Some x)
    obtain p r where x: "x = (p, r)" by (cases x)
    from Some [unfolded x] obtain us vs where h: "regions A = us @ (p, r) # vs" "region_stops addr n r"
      by (rule klist_find_SomeE)
    have p: "p \<notin> fst ` set us" using regs h by (auto simp: regs_ok_def)
    show ?thesis
    proof (cases "addr \<noteq> 0 \<and> addr + n * PAGE_SIZE > reg_base r + reg_page_size r * PAGE_SIZE")
      case True
      with ok A twice Some x have "v = 0" "s' = s" by (simp_all add: region_reserve_def spinlock_defs)
      with True h show ?thesis by (intro short [of us p r vs]) auto
    next
      case False
      have up: "klist_update p (reg_mapped_update (\<lambda>_. True)) (regions A) = us @ (p, r\<lparr>reg_mapped := True\<rparr>) # vs"
        unfolding h(1) using p by (rule klist_update_split)
      obtain rs t where "region_split p (if addr = 0 then reg_base r else addr) n
          (us @ (p, r\<lparr>reg_mapped := True\<rparr>) # vs) (as_upd as (\<lambda>A. A\<lparr>region_lock := True\<rparr>) s) = Some (rs, t)"
        "v = (if addr = 0 then reg_base r else addr)"
        "s' = as_upd as (\<lambda>A. A\<lparr>regions := rs, region_lock := False\<rparr>) t"
        using ok A Some x False up
        by (auto simp: region_reserve_def spinlock_defs Let_def elim!: bind_pairE)
      with False h show ?thesis by (intro taken [of us p r vs rs t]) (auto simp: not_less)
    qed
  qed
qed

lemma space_inv_regs:
  assumes "space_inv a b as A s" and "regions A = us @ (p, r) # vs"
  shows "fits (reg_base r) (reg_page_size r)" and "4096 dvd unat (reg_base r)" and "reg_base r \<noteq> 0"
    and "reg_span r \<inter> (region_mem us \<union> region_mem vs) = {}"
proof -
  from assms obtain c e where t: "tiles c (us @ (p, r) # vs) e" "0 < c" "4096 dvd c" "e < 2 ^ 32"
    by (auto simp: space_inv_def regs_ok_def)
  note f = tiles_fits [OF t(1, 4), of p r]
  show "fits (reg_base r) (reg_page_size r)" using f by simp
  show "4096 dvd unat (reg_base r)" using tiles_aligned [OF t(1, 3), of p r] by simp
  show "reg_base r \<noteq> 0" using f(2) t(2) by auto
  show "reg_span r \<inter> (region_mem us \<union> region_mem vs) = {}" by (rule tiles_mem_split [OF t(1)])
qed

lemma region_stops_iff:
  assumes "fits (reg_base r) (reg_page_size r)" and "addr \<noteq> 0"
  shows "region_stops addr n r \<longleftrightarrow> \<not> reg_mapped r \<and> unat addr \<in> reg_span r"
  using assms unat_area_end [OF assms(1)]
  by (auto simp: region_stops_def word_le_nat_alt word_less_nat_alt)

lemma region_cut:
  assumes inv: "space_inv a b as A s" and h: "regions A = us @ (p, r) # vs" and st: "region_stops addr n r"
    and e: "addr = 0 \<or> addr + n * PAGE_SIZE \<le> reg_base r + reg_page_size r * PAGE_SIZE"
    and al: "4096 dvd unat addr" "fits addr n"
  shows "area_cut (reg_base r) (reg_page_size r) (if addr = 0 then reg_base r else addr) n"
proof (cases "addr = 0")
  case True
  with st space_inv_regs [OF inv h] show ?thesis
    by (simp add: area_cut_def region_stops_def word_le_nat_alt)
next
  case False
  note r = space_inv_regs [OF inv h]
  from False st e al r unat_area_end [OF r(1)] unat_area_end [OF al(2)] show ?thesis
    by (simp add: area_cut_def region_stops_def word_le_nat_alt)
qed

text \<open>An area that starts in a region but is not contained in it lies in no other region either.\<close>

lemma region_too_short:
  fixes s :: "'a kspaces_scheme"
  assumes inv: "space_inv a b as A s" and al: "fits addr n" and n: "n \<noteq> 0" "addr \<noteq> 0"
    and h: "regions A = us @ (p, r) # vs" and st: "region_stops addr n r"
    and long: "addr + n * PAGE_SIZE > reg_base r + reg_page_size r * PAGE_SIZE"
    and q: "(q, r') \<in> set (regions A)"
  shows "\<not> span addr n \<subseteq> reg_span r'"
proof
  assume sub: "span addr n \<subseteq> reg_span r'"
  have pos: "0 < unat n" using n by (simp add: unat_gt_0)
  then have in1: "unat addr \<in> span addr n" and last: "unat addr + unat n * 4096 - 1 \<in> span addr n"
    by simp_all
  note r = space_inv_regs [OF inv h]
  have in2: "unat addr \<in> reg_span r" using st n r(1) by (simp add: region_stops_iff)
  have "r' = r"
  proof (rule ccontr)
    assume "r' \<noteq> r"
    with q h have "(q, r') \<in> set us \<union> set vs" by auto
    then have "reg_span r' \<subseteq> region_mem us \<union> region_mem vs" by (auto simp: region_mem_def)
    with r(4) in1 in2 sub show False by blast
  qed
  with sub last have "unat addr + unat n * 4096 - 1 \<in> reg_span r" by blast
  with long unat_area_end [OF r(1)] unat_area_end [OF al] pos show False
    by (auto simp: word_less_nat_alt)
qed

lemma region_reserve_taken:
  fixes s s' :: "'a kspaces_scheme"
  assumes inv: "space_inv a b as A s" and regs: "regions A = us @ (p, r) # vs" and free: "\<not> reg_mapped r"
    and cut: "area_cut (reg_base r) (reg_page_size r) v n"
    and ok: "region_split p v n (us @ (p, r\<lparr>reg_mapped := True\<rparr>) # vs) (as_upd as (\<lambda>A. A\<lparr>region_lock := True\<rparr>) s)
         = Some (rs, t)"
    and s': "s' = as_upd as (\<lambda>A. A\<lparr>regions := rs, region_lock := False\<rparr>) t"
  shows "only_regions as A rs s s' \<and> space_inv a b as (A\<lparr>regions := rs\<rparr>) s' \<and> live s \<subseteq> live s'
         \<and> span v n \<subseteq> region_mem (regions A) \<and> span v n \<inter> mapped_mem (regions A) = {}
         \<and> mapped_mem rs = mapped_mem (regions A) \<union> span v n \<and> region_mem rs = region_mem (regions A)"
proof -
  have h: "heap_inv a b s" "spaces s as = Some A" "\<not> region_lock A" "regs_ok (live s) (regions A)"
    using inv by (auto simp: space_inv_def)
  let ?s = "as_upd as (\<lambda>A. A\<lparr>region_lock := True\<rparr>) s" and ?r = "r\<lparr>reg_mapped := True\<rparr>"
  have "heap_inv a b ?s" using h by simp
  moreover have "regs_ok (live ?s) (us @ (p, ?r) # vs)" using h(4) regs by (auto simp: regs_ok_def tiles_split)
  moreover have "area_cut (reg_base ?r) (reg_page_size ?r) v n" using cut by simp
  ultimately have sp: "heap_inv a b t" "heap_only ?s t" "regs_ok (live t) rs"
    "mapped_mem rs = mapped_mem us \<union> span v n \<union> mapped_mem vs"
    "region_mem rs = region_mem (us @ (p, ?r) # vs)" "live ?s \<subseteq> live t"
    using region_split_correct [OF _ _ _ _ ok] by simp_all
  from sp(2) obtain hh where "t = ?s\<lparr>kmalloc_head := hh\<rparr>" by (rule heap_onlyE)
  then have eq: "s' = s\<lparr>kmalloc_head := hh, spaces := (spaces s)(as \<mapsto> A\<lparr>regions := rs\<rparr>)\<rparr>"
    using h(2, 3) s' by (simp add: as_upd_def region_unlocked)
  have lv: "live s' = live t" "heap_inv a b s' = heap_inv a b t" using s' by simp_all
  with sp(1, 3) eq h(3) have "space_inv a b as (A\<lparr>regions := rs\<rparr>) s'" by (simp add: space_inv_def)
  moreover have "live s \<subseteq> live s'" using sp(6) lv by simp
  moreover have "span v n \<subseteq> reg_span r" using cut_span [OF cut] by (auto simp del: span_iff)
  then have "span v n \<subseteq> region_mem (regions A)" "span v n \<inter> mapped_mem (regions A) = {}"
    using space_inv_regs(4) [OF inv regs] regs free mapped_mem_subset [of us] mapped_mem_subset [of vs]
    by (auto simp del: span_iff)
  moreover have "mapped_mem rs = mapped_mem (regions A) \<union> span v n" "region_mem rs = region_mem (regions A)"
    using sp(4, 5) regs free by (auto simp del: span_iff)
  ultimately show ?thesis using eq by (auto simp: only_regions_def)
qed

lemma region_reserve_fresh:
  fixes s s' :: "'a kspaces_scheme"
  assumes inv: "space_inv a b as A s" and ok: "region_reserve as 0 n s = Some (v, s')" and v: "v \<noteq> 0"
    and n: "fits 0 n"
  shows "4096 dvd unat v \<and> fits v n \<and>
      (\<exists>rs. only_regions as A rs s s' \<and> space_inv a b as (A\<lparr>regions := rs\<rparr>) s' \<and> live s \<subseteq> live s'
         \<and> span v n \<subseteq> region_mem (regions A) \<and> span v n \<inter> mapped_mem (regions A) = {}
         \<and> mapped_mem rs = mapped_mem (regions A) \<union> span v n \<and> region_mem rs = region_mem (regions A))"
  using inv ok
proof (cases rule: region_reserve_cases)
  case (taken us p r vs rs t)
  note r = space_inv_regs [OF inv taken(1)]
  have f: "\<not> reg_mapped r" using taken(2) by (simp add: region_stops_def)
  have cut: "area_cut (reg_base r) (reg_page_size r) v n"
    using region_cut [OF inv taken(1-3) _ n] taken(4) by simp
  have al: "4096 dvd unat v" "fits v n" using cut unfolding area_cut_def fits_def by linarith+
  show ?thesis
    by (rule conjI [OF al(1) conjI [OF al(2)]], rule exI [of _ rs],
        rule region_reserve_taken [OF inv taken(1) f cut taken(5, 6)])
next
  case none
  with v show ?thesis by blast
next
  case short
  with v show ?thesis by blast
qed

text \<open>
  C22. Reserving virtual pages is correct. A non-zero result is the requested address (or, for
  address 0, an address the kernel chose); the requested pages lie in the range of the address
  space, were not mapped before, and are exactly what is marked in addition. The regions still
  tile the range. The result 0 changes nothing and means that no free region is large enough,
  respectively that the area does not lie in one free region. Nothing but the region list of
  this address space and the heap changes.
\<close>
theorem region_reserve_correct:
  fixes s s' :: "'a kspaces_scheme"
  assumes inv: "space_inv a b as A s" and ok: "region_reserve as addr n s = Some (v, s')"
    and al: "4096 dvd unat addr" "fits addr n" and "n \<noteq> 0"
  shows "(v = 0 \<and> s' = s \<and>
          (\<forall>(p, r) \<in> set (regions A). \<not> reg_mapped r \<longrightarrow>
              (if addr = 0 then reg_page_size r < n else \<not> span addr n \<subseteq> reg_span r))) \<or>
     (v \<noteq> 0 \<and> (addr = 0 \<or> v = addr) \<and>
      (\<exists>rs. only_regions as A rs s s' \<and> space_inv a b as (A\<lparr>regions := rs\<rparr>) s' \<and> live s \<subseteq> live s'
         \<and> span v n \<subseteq> region_mem (regions A) \<and> span v n \<inter> mapped_mem (regions A) = {}
         \<and> mapped_mem rs = mapped_mem (regions A) \<union> span v n \<and> region_mem rs = region_mem (regions A)))"
  using inv ok
proof (cases rule: region_reserve_cases)
  case none
  have "if addr = 0 then reg_page_size r < n else \<not> span addr n \<subseteq> reg_span r"
    if "(p, r) \<in> set (regions A)" "\<not> reg_mapped r" for p r
  proof (cases "addr = 0")
    case True
    with none(3) that show ?thesis by (auto simp: region_stops_def)
  next
    case False
    from that(1) obtain us vs where "regions A = us @ (p, r) # vs" by (meson split_list)
    from space_inv_regs(1) [OF inv this] False none(3) that have "unat addr \<notin> reg_span r"
      by (auto simp: region_stops_iff simp del: span_iff)
    moreover have "unat addr \<in> span addr n" using assms(5) by (simp add: unat_gt_0)
    ultimately show ?thesis using False by (auto simp del: span_iff)
  qed
  with none show ?thesis by auto
next
  case (short us p r vs)
  have "\<not> span addr n \<subseteq> reg_span r'" if "(q, r') \<in> set (regions A)" for q r'
    using region_too_short [OF inv al(2) assms(5) short(5, 3, 4, 6) that] .
  with short show ?thesis by auto
next
  case (taken us p r vs rs t)
  note r = space_inv_regs [OF inv taken(1)]
  have "\<not> reg_mapped r" using taken(2) by (simp add: region_stops_def)
  moreover have "area_cut (reg_base r) (reg_page_size r) v n"
    using region_cut [OF inv taken(1-3) al] taken(4) by simp
  ultimately have "only_regions as A rs s s' \<and> space_inv a b as (A\<lparr>regions := rs\<rparr>) s' \<and> live s \<subseteq> live s'
         \<and> span v n \<subseteq> region_mem (regions A) \<and> span v n \<inter> mapped_mem (regions A) = {}
         \<and> mapped_mem rs = mapped_mem (regions A) \<union> span v n \<and> region_mem rs = region_mem (regions A)"
    using taken(5, 6) by (rule region_reserve_taken [OF inv taken(1)])
  then show ?thesis
    using taken(4) r(3) by (intro disjI2 [OF conjI [OF _ conjI]] exI [of _ rs]) auto
qed

section \<open>Release\<close>

text \<open>What merging around the unmapped region \<open>p\<close> keeps.\<close>

definition reg_merged :: "nat \<Rightarrow> nat \<Rightarrow> ptr \<Rightarrow> (ptr \<times> region) list \<Rightarrow> 'a kspaces_scheme
    \<Rightarrow> (ptr \<times> region) list \<Rightarrow> 'a kspaces_scheme \<Rightarrow> bool" where
  "reg_merged a b p rs s rs' s' \<longleftrightarrow> heap_inv a b s' \<and> heap_only s s'
     \<and> regs_ok (live s') rs' \<and> live s - fst ` set rs \<subseteq> live s' \<and> live s' \<subseteq> live s
     \<and> fst ` set rs' \<subseteq> fst ` set rs
     \<and> (\<exists>r. map_of rs' p = Some r \<and> \<not> reg_mapped r)
     \<and> mapped_mem rs' = mapped_mem rs \<and> region_mem rs' = region_mem rs"

lemma reg_merged_refl:
  assumes "heap_inv a b s" and "regs_ok (live s) rs" and "map_of rs p = Some r" and "\<not> reg_mapped r"
  shows "reg_merged a b p rs s rs s"
  using assms by (auto simp: reg_merged_def)

lemma reg_merged_trans:
  assumes "reg_merged a b p rs s rs1 s1" and "reg_merged a b p rs1 s1 rs2 s2"
  shows "reg_merged a b p rs s rs2 s2"
proof -
  from assms(1) have 1: "heap_only s s1" "live s - fst ` set rs \<subseteq> live s1" "live s1 \<subseteq> live s"
    "fst ` set rs1 \<subseteq> fst ` set rs" "mapped_mem rs1 = mapped_mem rs" "region_mem rs1 = region_mem rs"
    by (simp_all add: reg_merged_def)
  from assms(2) have 2: "heap_only s1 s2" "live s1 - fst ` set rs1 \<subseteq> live s2" "live s2 \<subseteq> live s1"
    "fst ` set rs2 \<subseteq> fst ` set rs1"
    by (simp_all add: reg_merged_def)
  have "live s - fst ` set rs \<subseteq> live s2" using 1(2, 4) 2(2) by blast
  then show ?thesis
    using assms(2) heap_only_trans [OF 1(1) 2(1)] subset_trans [OF 2(3) 1(3)] subset_trans [OF 2(4) 1(4)] 1(5, 6)
    by (simp add: reg_merged_def)
qed

lemma reg_merged_pair:
  fixes s :: "'a kspaces_scheme"
  assumes inv: "heap_inv a b s" and regs: "regs_ok (live s) (us @ (q1, x1) # (q2, x2) # vs)"
    and free: "\<not> reg_mapped x1" "\<not> reg_mapped x2" "\<not> reg_mapped x"
    and x: "reg_base x = reg_base x1" "reg_page_size x = reg_page_size x1 + reg_page_size x2"
    and pq: "{p, q} = {q1, q2}" "p \<noteq> q"
  shows "\<exists>s'. kfree q s = Some s' \<and> reg_merged a b p (us @ (q1, x1) # (q2, x2) # vs) s (us @ (p, x) # vs) s'"
proof -
  from regs obtain c e where t: "tiles c (us @ (q1, x1) # (q2, x2) # vs) e" "0 < c" "4096 dvd c" "e < 2 ^ 32"
    by (auto simp: regs_ok_def)
  have "q \<in> live s" using regs pq by (auto simp: regs_ok_def)
  from heap.release_alive [OF inv this] obtain s' where
    s': "kfree q s = Some s'" "heap_inv a b s'" "live s' = live s - {q}" by blast
  have f: "fits (reg_base x1) (reg_page_size x1)" "fits (reg_base x2) (reg_page_size x2)"
    using tiles_fits(1) [OF t(1, 4)] by auto
  have e1: "unat (reg_base x2) = unat (reg_base x1) + unat (reg_page_size x1) * 4096"
    using t(1) by (simp add: tiles_split)
  then have "reg_base x1 + reg_page_size x1 * PAGE_SIZE = reg_base x2"
    using unat_area_end [OF f(1)] by (intro unsigned_word_eqI [where ?'a = nat]) simp
  note j = area_join [OF f this]
  have "unat (reg_page_size x) * 4096 = unat (reg_page_size x1) * 4096 + unat (reg_page_size x2) * 4096"
    using arg_cong [OF j(2), of card] j(3) x(2) by (simp add: card_Un_disjoint)
  with t(1) x(1) e1 have t': "tiles c (us @ (p, x) # vs) e" by (simp add: tiles_split algebra_simps)
  have k: "distinct (map fst (us @ (p, x) # vs))" "q \<notin> fst ` set (us @ (p, x) # vs)"
    using regs pq by (auto simp: regs_ok_def)
  then have "regs_ok (live s') (us @ (p, x) # vs)"
    using regs s'(3) t' t(2-4) pq unfolding regs_ok_def by auto
  moreover have "map_of (us @ (p, x) # vs) p = Some x" using k(1) by (intro map_of_is_SomeI) auto
  moreover have "region_mem (us @ (p, x) # vs) = region_mem (us @ (q1, x1) # (q2, x2) # vs)"
    using t(1) t' by (simp only: tiles_mem)
  moreover have "mapped_mem (us @ (p, x) # vs) = mapped_mem (us @ (q1, x1) # (q2, x2) # vs)"
    using free by simp
  moreover have "live s - fst ` set (us @ (q1, x1) # (q2, x2) # vs) \<subseteq> live s'"
    and "fst ` set (us @ (p, x) # vs) \<subseteq> fst ` set (us @ (q1, x1) # (q2, x2) # vs)"
    using s'(3) pq by auto
  ultimately show ?thesis
    using s' free(3) kfree_heap_only [OF s'(1)] by (intro exI [of _ s']) (simp add: reg_merged_def)
qed

lemma region_merge_prev_correct:
  fixes s :: "'a kspaces_scheme"
  assumes inv: "heap_inv a b s" and regs: "regs_ok (live s) rs"
    and p: "map_of rs p = Some r" and free: "\<not> reg_mapped r"
  shows "\<exists>rs' s'. region_merge_prev p rs s = Some (rs', s') \<and> reg_merged a b p rs s rs' s'"
proof -
  from p obtain us vs where h: "rs = us @ (p, r) # vs" and pus: "p \<notin> fst ` set us" by (rule map_of_SomeE)
  note keep = reg_merged_refl [OF inv regs p free]
  show ?thesis
  proof (cases us rule: rev_cases)
    case Nil
    then have "klist_prev_elem p rs = None" using klist_prev_elem_split [OF pus] h by simp
    with p keep show ?thesis by (simp add: region_merge_prev_def)
  next
    case (snoc ws y)
    obtain q pr where y: "y = (q, pr)" by (cases y)
    have pe: "klist_prev_elem p rs = Some (q, pr)" using klist_prev_elem_split [OF pus] h snoc y by simp
    have h': "rs = ws @ (q, pr) # (p, r) # vs" using h snoc y by simp
    show ?thesis
    proof (cases "\<not> reg_mapped pr \<and> reg_base pr + reg_page_size r * PAGE_SIZE = reg_base r")
      case False
      then have "region_merge_prev p rs s = Some (rs, s)"
        using p pe by (simp add: region_merge_prev_def) blast
      with keep show ?thesis by blast
    next
      case True
      let ?x = "r\<lparr>reg_base := reg_base pr, reg_page_size := reg_page_size r + reg_page_size pr\<rparr>"
      have q: "q \<notin> fst ` set ws" "q \<noteq> p" using regs h' by (auto simp: regs_ok_def)
      have "klist_remove q (klist_update p (\<lambda>r. r\<lparr>reg_base := reg_base pr,
            reg_page_size := reg_page_size r + reg_page_size pr\<rparr>) rs) = ws @ (p, ?x) # vs"
        using klist_update_split [OF pus] klist_remove_split [OF q(1)] h snoc y by simp
      moreover have "\<exists>s'. kfree q s = Some s' \<and> reg_merged a b p rs s (ws @ (p, ?x) # vs) s'"
        unfolding h' using True free q(2)
        by (intro reg_merged_pair [OF inv regs [unfolded h']]) (auto simp: insert_commute)
      ultimately show ?thesis using p pe True by (auto simp: region_merge_prev_def)
    qed
  qed
qed

lemma region_merge_next_correct:
  fixes s :: "'a kspaces_scheme"
  assumes inv: "heap_inv a b s" and regs: "regs_ok (live s) rs"
    and p: "map_of rs p = Some r" and free: "\<not> reg_mapped r"
  shows "\<exists>rs' s'. region_merge_next p rs s = Some (rs', s') \<and> reg_merged a b p rs s rs' s'"
proof -
  from p obtain us vs where h: "rs = us @ (p, r) # vs" and pus: "p \<notin> fst ` set us" by (rule map_of_SomeE)
  note keep = reg_merged_refl [OF inv regs p free]
  show ?thesis
  proof (cases vs)
    case Nil
    then have "klist_next_elem p rs = None" using klist_next_elem_split [OF pus] h by simp
    with p keep show ?thesis by (simp add: region_merge_next_def)
  next
    case (Cons y ws)
    obtain q nx where y: "y = (q, nx)" by (cases y)
    have ne: "klist_next_elem p rs = Some (q, nx)" using klist_next_elem_split [OF pus] h Cons y by simp
    have h': "rs = us @ (p, r) # (q, nx) # ws" using h Cons y by simp
    show ?thesis
    proof (cases "\<not> reg_mapped nx \<and> reg_base r + reg_page_size r * PAGE_SIZE = reg_base nx")
      case False
      then have "region_merge_next p rs s = Some (rs, s)"
        using p ne by (simp add: region_merge_next_def) blast
      with keep show ?thesis by blast
    next
      case True
      let ?x = "r\<lparr>reg_page_size := reg_page_size r + reg_page_size nx\<rparr>"
      have q: "q \<notin> fst ` set (us @ [(p, ?x)])" "p \<noteq> q" using regs h' by (auto simp: regs_ok_def)
      have "klist_remove q (klist_update p (\<lambda>r. r\<lparr>reg_page_size := reg_page_size r + reg_page_size nx\<rparr>) rs)
          = us @ (p, ?x) # ws"
        using klist_update_split [OF pus] klist_remove_split [OF q(1)] h Cons y by simp
      moreover have "\<exists>s'. kfree q s = Some s' \<and> reg_merged a b p rs s (us @ (p, ?x) # ws) s'"
        unfolding h' using True free q(2)
        by (intro reg_merged_pair [OF inv regs [unfolded h']]) auto
      ultimately show ?thesis using p ne True by (auto simp: region_merge_next_def)
    qed
  qed
qed

lemma region_merge_correct:
  fixes s :: "'a kspaces_scheme"
  assumes inv: "heap_inv a b s" and regs: "regs_ok (live s) rs"
    and p: "map_of rs p = Some r" and free: "\<not> reg_mapped r"
  shows "\<exists>rs' s'. region_merge p rs s = Some (rs', s') \<and> reg_merged a b p rs s rs' s'"
proof -
  from region_merge_prev_correct [OF assms] obtain rs1 s1 where
    1: "region_merge_prev p rs s = Some (rs1, s1)" "reg_merged a b p rs s rs1 s1" by blast
  then obtain r1 where "heap_inv a b s1" "regs_ok (live s1) rs1" "map_of rs1 p = Some r1" "\<not> reg_mapped r1"
    by (auto simp: reg_merged_def)
  from region_merge_next_correct [OF this] obtain rs2 s2 where
    2: "region_merge_next p rs1 s1 = Some (rs2, s2)" "reg_merged a b p rs1 s1 rs2 s2" by blast
  from 1(1) 2(1) reg_merged_trans [OF 1(2) 2(2)] show ?thesis by (simp add: region_merge_def)
qed

lemma region_release_merged:
  fixes s :: "'a kspaces_scheme"
  assumes inv: "space_inv a b as A s" and f: "klist_find (\<lambda>r. reg_base r = addr) (regions A) = Some (p, r)"
  obtains rs us vs hh where "regions A = us @ (p, r) # vs"
    and "region_release as addr s = Some (s\<lparr>kmalloc_head := hh, spaces := (spaces s)(as \<mapsto> A\<lparr>regions := rs\<rparr>)\<rparr>)"
    and "reg_merged a b p (us @ (p, r\<lparr>reg_mapped := False\<rparr>) # vs) s rs (s\<lparr>kmalloc_head := hh\<rparr>)"
proof -
  have h: "heap_inv a b s" "spaces s as = Some A" "\<not> region_lock A" "regs_ok (live s) (regions A)"
    using inv by (auto simp: space_inv_def)
  from f obtain us vs where rs: "regions A = us @ (p, r) # vs" by (rule klist_find_SomeE)
  have p: "p \<notin> fst ` set us" using h(4) rs by (auto simp: regs_ok_def)
  let ?r = "r\<lparr>reg_mapped := False\<rparr>" and ?s = "as_upd as (\<lambda>A. A\<lparr>region_lock := True\<rparr>) s"
  have up: "klist_update p (reg_mapped_update (\<lambda>_. False)) (regions A) = us @ (p, ?r) # vs"
    unfolding rs using p by (rule klist_update_split)
  have "heap_inv a b ?s" using h by simp
  moreover have "regs_ok (live ?s) (us @ (p, ?r) # vs)" using h(4) rs by (auto simp: regs_ok_def tiles_split)
  moreover have "map_of (us @ (p, ?r) # vs) p = Some ?r" using p by (rule map_of_split)
  moreover have "\<not> reg_mapped ?r" by simp
  ultimately obtain rs' t where t: "region_merge p (us @ (p, ?r) # vs) ?s = Some (rs', t)"
    "reg_merged a b p (us @ (p, ?r) # vs) ?s rs' t" by (metis region_merge_correct)
  from t(2) have "heap_only ?s t" by (simp add: reg_merged_def)
  then obtain hh where hh: "t = ?s\<lparr>kmalloc_head := hh\<rparr>" by (rule heap_onlyE)
  have "region_release as addr s = Some (s\<lparr>kmalloc_head := hh, spaces := (spaces s)(as \<mapsto> A\<lparr>regions := rs'\<rparr>)\<rparr>)"
    using h(2, 3) f up t(1) hh by (simp add: region_release_def spinlock_defs as_upd_def region_unlocked)
  moreover have "reg_merged a b p (us @ (p, ?r) # vs) s rs' (s\<lparr>kmalloc_head := hh\<rparr>)"
    using t(2) unfolding hh reg_merged_def
    by (simp add: as_upd_def live_def heap_inv_def heap_only_def)
  ultimately show ?thesis using that rs by blast
qed

text \<open>
  C23. Releasing the region at an address always returns: its pages are no longer marked as mapped,
  every other mark stays, the regions still tile the range, and the heap nodes given back are
  nodes of this region list. Nothing but the region list of this address space and the heap
  changes.
\<close>
theorem region_release_correct:
  fixes s :: "'a kspaces_scheme"
  assumes inv: "space_inv a b as A s" and f: "klist_find (\<lambda>r. reg_base r = addr) (regions A) = Some (p, r)"
  shows "\<exists>s' rs. region_release as addr s = Some s' \<and> only_regions as A rs s s'
    \<and> space_inv a b as (A\<lparr>regions := rs\<rparr>) s' \<and> live s - fst ` set (regions A) \<subseteq> live s' \<and> live s' \<subseteq> live s
    \<and> mapped_mem rs = mapped_mem (regions A) - reg_span r \<and> region_mem rs = region_mem (regions A)"
proof -
  from inv f obtain rs us vs hh where rs: "regions A = us @ (p, r) # vs"
    and ok: "region_release as addr s = Some (s\<lparr>kmalloc_head := hh, spaces := (spaces s)(as \<mapsto> A\<lparr>regions := rs\<rparr>)\<rparr>)"
    and m: "reg_merged a b p (us @ (p, r\<lparr>reg_mapped := False\<rparr>) # vs) s rs (s\<lparr>kmalloc_head := hh\<rparr>)"
    by (rule region_release_merged)
  let ?s = "s\<lparr>kmalloc_head := hh, spaces := (spaces s)(as \<mapsto> A\<lparr>regions := rs\<rparr>)\<rparr>"
  have same: "live ?s = live (s\<lparr>kmalloc_head := hh\<rparr>)" "heap_inv a b ?s = heap_inv a b (s\<lparr>kmalloc_head := hh\<rparr>)"
    by (simp_all add: live_def heap_inv_def)
  have "only_regions as A rs s ?s" unfolding only_regions_def by (rule exI [of _ hh]) simp
  moreover have "space_inv a b as (A\<lparr>regions := rs\<rparr>) ?s"
    using m inv same by (simp add: reg_merged_def space_inv_def)
  moreover have "live s - fst ` set (regions A) \<subseteq> live ?s" "live ?s \<subseteq> live s"
    using m same rs by (simp_all add: reg_merged_def)
  moreover have "region_mem rs = region_mem (regions A)" using m rs by (simp add: reg_merged_def)
  moreover have "reg_span r \<inter> (mapped_mem us \<union> mapped_mem vs) = {}"
    using space_inv_regs(4) [OF inv rs] mapped_mem_subset [of us] mapped_mem_subset [of vs] by blast
  then have "mapped_mem rs = mapped_mem (regions A) - reg_span r"
    using m rs by (simp add: reg_merged_def del: span_iff) blast
  ultimately show ?thesis using ok by (intro exI [of _ ?s] exI [of _ rs] conjI)
qed

definition region_example :: kspaces where
  "region_example = \<lparr>kmalloc_lock = False,
     kmalloc_head = [(0x1000, \<lparr>blk_ptr = 0x1014, blk_size = 20, blk_free = False\<rparr>),
                     (0x1028, \<lparr>blk_ptr = 0x103C, blk_size = 0xFC4, blk_free = True\<rparr>)],
     kbytes = (\<lambda>_. 0), segment_lock = False, segment_head = [],
     spaces = [0x9000 \<mapsto> \<lparr>region_lock = False,
       regions = [(0x1014, \<lparr>reg_base = 0x1000, reg_page_size = 16, reg_mapped = False\<rparr>)],
       map_lock = False, mapping = [], as_cr3 = 0\<rparr>], kernel_as = 0x8000\<rparr>"

definition region_example_as :: as where
  "region_example_as = the (spaces region_example 0x9000)"

lemma region_example_inv: "space_inv 0x1000 0x2000 0x9000 region_example_as region_example"
proof -
  have "4096 dvd (65536 + 4096 :: nat)" by simp
  then show ?thesis
    by (auto simp: space_inv_def heap_inv_def region_example_def region_example_as_def regs_ok_def live_def sizeof_blk_def)
qed

theorem region_release_correct_witness:
  "klist_find (\<lambda>r. reg_base r = 0x1000) (regions region_example_as)
     = Some (0x1014, \<lparr>reg_base = 0x1000, reg_page_size = 16, reg_mapped = False\<rparr>)
   \<and> (\<exists>s' rs. region_release 0x9000 0x1000 region_example = Some s' \<and> mapped_mem rs = {}
        \<and> region_mem rs = {0x1000..<0x11000} \<and> only_regions 0x9000 region_example_as rs region_example s')"
proof -
  have f: "klist_find (\<lambda>r. reg_base r = 0x1000) (regions region_example_as)
     = Some (0x1014, \<lparr>reg_base = 0x1000, reg_page_size = 16, reg_mapped = False\<rparr>)"
    by (simp add: region_example_as_def region_example_def)
  have m: "mapped_mem (regions region_example_as) = {}" "region_mem (regions region_example_as) = {0x1000..<0x11000}"
    by (auto simp: region_example_as_def region_example_def span_def)
  from region_release_correct [OF region_example_inv f] m f show ?thesis by auto
qed

theorem region_reserve_correct_witness:
  "\<exists>s'. region_reserve 0x9000 0x3000 2 region_example = Some (0x3000, s')
     \<and> (\<exists>rs. only_regions 0x9000 region_example_as rs region_example s' \<and> mapped_mem rs = span 0x3000 2)"
proof -
  have "map_option fst (region_reserve 0x9000 0x3000 2 region_example) = Some 0x3000" by code_simp
  then obtain s' where s': "region_reserve 0x9000 0x3000 2 region_example = Some (0x3000, s')" by auto
  have m: "mapped_mem (regions region_example_as) = {}"
    by (auto simp: region_example_as_def region_example_def)
  from region_reserve_correct [OF region_example_inv s'] m s' show ?thesis
    by (auto simp: fits_def simp del: span_iff)
qed

text \<open>
  C38. \<^verbatim>\<open>region_merge\<close> compares the end of the previous region computed with the wrong size. When the
  previous free region has another size than the released one, the two are not merged: the
  address space then has no mapped page at all in this range, and still a reservation of the
  whole range fails.
\<close>
theorem region_release_leaves_hole:
  fixes s :: "'a kspaces_scheme"
  assumes inv: "space_inv a b as A s" and rs: "regions A = [(q, x), (p, r)]" and free: "\<not> reg_mapped x"
    and sz: "reg_page_size x \<noteq> reg_page_size r" "reg_page_size x \<noteq> 0" "reg_page_size r \<noteq> 0"
  shows "\<exists>s' A'. region_release as (reg_base r) s = Some s' \<and> spaces s' as = Some A' \<and> mapped_mem (regions A') = {}
    \<and> region_mem (regions A') = span (reg_base x) (reg_page_size x + reg_page_size r)
    \<and> region_reserve as 0 (reg_page_size x + reg_page_size r) s' = Some (0, s')"
proof -
  have h: "spaces s as = Some A" "\<not> region_lock A" "distinct [q, p]" using inv rs by (auto simp: space_inv_def regs_ok_def)
  have fx: "fits (reg_base x) (reg_page_size x)" using space_inv_regs(1) [OF inv, of "[]" q x "[(p, r)]"] rs by simp
  have fr: "fits (reg_base r) (reg_page_size r)" using space_inv_regs(1) [OF inv, of "[(q, x)]" p r "[]"] rs by simp
  have e: "unat (reg_base r) = unat (reg_base x) + unat (reg_page_size x) * 4096"
    using inv rs by (auto simp: space_inv_def regs_ok_def)
  then have touch: "reg_base x + reg_page_size x * PAGE_SIZE = reg_base r"
    using unat_area_end [OF fx] by (intro unsigned_word_eqI [where ?'a = nat]) simp
  have "fits (reg_base x) (reg_page_size r)" using fr e by (simp add: fits_def)
  from unat_area_end [OF this] e sz(1) have ne: "reg_base x + reg_page_size r * PAGE_SIZE \<noteq> reg_base r"
    by (auto dest: unsigned_word_eqI [where ?'a = nat])
  have bne: "reg_base x \<noteq> reg_base r" using e sz(2) by (auto simp: unat_eq_0)
  let ?r = "r\<lparr>reg_mapped := False\<rparr>"
  let ?A = "A\<lparr>regions := [(q, x), (p, ?r)]\<rparr>"
  let ?s = "s\<lparr>spaces := (spaces s)(as \<mapsto> ?A)\<rparr>"
  have "region_release as (reg_base r) s = Some ?s"
    using h rs bne ne free
    by (simp add: region_release_def spinlock_defs as_upd_def region_merge_def region_merge_prev_def
        region_merge_next_def region_unlocked)
  moreover note j = area_join [OF fx fr touch]
  have "unat (reg_page_size x + reg_page_size r) = unat (reg_page_size x) + unat (reg_page_size r)"
    using arg_cong [OF j(2), of card] j(3) by (simp add: card_Un_disjoint)
  moreover have "0 < unat (reg_page_size x)" "0 < unat (reg_page_size r)" using sz by (simp_all add: unat_gt_0)
  ultimately have "\<forall>y \<in> set (regions ?A). \<not> region_stops 0 (reg_page_size x + reg_page_size r) (snd y)"
    by (auto simp: region_stops_def word_le_nat_alt)
  then have "klist_find (region_stops 0 (reg_page_size x + reg_page_size r)) (regions ?A) = None"
    by (simp only: klist_find_None)
  then have "region_reserve as 0 (reg_page_size x + reg_page_size r) ?s = Some (0, ?s)"
    using h(2) by (simp add: region_reserve_def spinlock_defs as_upd_def region_unlocked as.equality)
  with \<open>region_release as (reg_base r) s = Some ?s\<close> free j(2) show ?thesis by simp
qed

definition hole_example :: kspaces where
  "hole_example = region_example\<lparr>
     kmalloc_head := [(0x1000, \<lparr>blk_ptr = 0x1014, blk_size = 20, blk_free = False\<rparr>),
                      (0x1028, \<lparr>blk_ptr = 0x103C, blk_size = 0xFC4, blk_free = False\<rparr>)],
     spaces := [0x9000 \<mapsto> region_example_as\<lparr>
       regions := [(0x1014, \<lparr>reg_base = 0x1000, reg_page_size = 1, reg_mapped = False\<rparr>),
                   (0x103C, \<lparr>reg_base = 0x2000, reg_page_size = 2, reg_mapped = True\<rparr>)]\<rparr>]\<rparr>"

theorem region_release_leaves_hole_witness:
  "space_inv 0x1000 0x2000 0x9000 (the (spaces hole_example 0x9000)) hole_example
   \<and> (\<exists>s'. region_release 0x9000 0x2000 hole_example = Some s' \<and> region_reserve 0x9000 0 3 s' = Some (0, s'))"
proof -
  have inv: "space_inv 0x1000 0x2000 0x9000 (the (spaces hole_example 0x9000)) hole_example"
    by (auto simp: space_inv_def heap_inv_def hole_example_def region_example_def region_example_as_def regs_ok_def
        live_def sizeof_blk_def)
  have r: "regions (the (spaces hole_example 0x9000)) =
      [(0x1014, \<lparr>reg_base = 0x1000, reg_page_size = 1, reg_mapped = False\<rparr>),
       (0x103C, \<lparr>reg_base = 0x2000, reg_page_size = 2, reg_mapped = True\<rparr>)]"
    by (simp add: hole_example_def)
  from region_release_leaves_hole [OF inv r] inv show ?thesis by auto
qed

end
