(* ===== verification/Mmu.thy ===== *)
theory Mmu
  imports AddressSpace
begin

text \<open>
  The i386 memory management unit (\<^verbatim>\<open>kernel/arch/i386/mmu.c\<close>, \<^verbatim>\<open>kernel/glue/i386-pc/as.c\<close>). Physical
  memory holds 32-bit words; the page directory is at \<^verbatim>\<open>cr3\<close>. The kernel reaches the page tables of
  the current address space through the last entry of the directory (\<open>mirroring\<close>): the directory is
  seen at 0xFFFFF000 and page table \<open>i\<close> at 0xFFC00000 + 0x1000 * \<open>i\<close>. A page fault in the kernel panics,
  so an access to a page table that is not present is \<open>None\<close>. Stale entries of the TLB are not
  modelled. The main result: \<^verbatim>\<open>mmu_map\<close> updates the translation of exactly the mapped pages.
\<close>

section \<open>State\<close>

text \<open>
  \<open>phys\<close> is indexed by the address of a word; \<open>running_as\<close> is \<^verbatim>\<open>thread_current()->parent->as\<close> when a
  thread is running.
\<close>

record kmmu = kspaces +
  phys :: "u32 \<Rightarrow> u32"
  cpu_cr3 :: u32
  running_as :: "ptr option"

definition PD_PRESENT :: u32 where "PD_PRESENT = 1"
definition PD_WRITE :: u32 where "PD_WRITE = 2"
definition PD_USER :: u32 where "PD_USER = 4"
definition PD_4MB :: u32 where "PD_4MB = 128"
definition KERNEL_PHY_PD :: u32 where "KERNEL_PHY_PD = 0x100000"
definition KERNEL_VIRT_PD :: u32 where "KERNEL_VIRT_PD = 0xC0100000"
definition KERNEL_EXTRA_PT_BEGIN :: u32 where "KERNEL_EXTRA_PT_BEGIN = 0x2000"
definition KERNEL_EXTRA_PT_END :: u32 where "KERNEL_EXTRA_PT_END = 0x80000"

lemmas mmu_consts = PD_PRESENT_def PD_WRITE_def PD_USER_def PD_4MB_def

definition frame :: "u32 \<Rightarrow> u32" where "frame e = e AND NOT 0xFFF"

definition present :: "u32 \<Rightarrow> bool" where "present e \<longleftrightarrow> e AND PD_PRESENT \<noteq> 0"

definition pd_read :: "u32 \<Rightarrow> 'a kmmu_scheme \<Rightarrow> u32" where
  "pd_read i s = phys s (cpu_cr3 s + 4 * i)"

definition pd_write :: "u32 \<Rightarrow> u32 \<Rightarrow> 'a kmmu_scheme \<Rightarrow> 'a kmmu_scheme" where
  "pd_write i e s = s\<lparr>phys := (phys s)(cpu_cr3 s + 4 * i := e)\<rparr>"

definition pt_read :: "u32 \<Rightarrow> u32 \<Rightarrow> 'a kmmu_scheme \<Rightarrow> u32 option" where
  "pt_read i j s =
     (if present (pd_read i s) then Some (phys s (frame (pd_read i s) + 4 * j)) else None)"

definition pt_write :: "u32 \<Rightarrow> u32 \<Rightarrow> u32 \<Rightarrow> 'a kmmu_scheme \<Rightarrow> 'a kmmu_scheme option" where
  "pt_write i j e s =
     (if present (pd_read i s)
      then Some (s\<lparr>phys := (phys s)(frame (pd_read i s) + 4 * j := e)\<rparr>) else None)"

text \<open>Writing 0 to the 1024 words of a physical page.\<close>

definition zero_page :: "u32 \<Rightarrow> 'a kmmu_scheme \<Rightarrow> 'a kmmu_scheme" where
  "zero_page p s = s\<lparr>phys := fold (\<lambda>k m. m(p + 4 * of_nat k := 0)) [0..<1024] (phys s)\<rparr>"

text \<open>The translation done by the processor, with 4 MB pages, for a word access.\<close>

definition walk :: "u32 \<Rightarrow> 'a kmmu_scheme \<Rightarrow> u32 option" where
  "walk v s =
     (let i = drop_bit 22 v AND 0x3FF; j = drop_bit 12 v AND 0x3FF; pde = pd_read i s in
      if \<not> present pde then None
      else if pde AND PD_4MB \<noteq> 0 then Some ((pde AND 0xFFC00000) + (v AND 0x3FFFFF))
      else (let pte = phys s (frame pde + 4 * j) in
            if present pte then Some (frame pte + (v AND 0xFFF)) else None))"

definition vread :: "u32 \<Rightarrow> 'a kmmu_scheme \<Rightarrow> u32 option" where
  "vread v s = map_option (phys s) (walk v s)"

definition vwrite :: "u32 \<Rightarrow> u32 \<Rightarrow> 'a kmmu_scheme \<Rightarrow> 'a kmmu_scheme option" where
  "vwrite v x s = map_option (\<lambda>a. s\<lparr>phys := (phys s)(a := x)\<rparr>) (walk v s)"

section \<open>Mapping pages\<close>

definition as_to_mmu_flags :: "u32 \<Rightarrow> u32" where
  "as_to_mmu_flags flags =
     (let f = PD_PRESENT;
          f = (if flags AND AS_MAP_USER \<noteq> 0 then f OR PD_USER else f);
          f = (if flags AND AS_MAP_WRITE \<noteq> 0 then f OR PD_WRITE else f)
      in f)"

definition mmu_virt_to_phy :: "u32 \<Rightarrow> 'a kmmu_scheme \<Rightarrow> u32" where
  "mmu_virt_to_phy vaddr s =
     (let pd_index = drop_bit 22 vaddr AND 0x3FF; pt_index = drop_bit 12 vaddr AND 0x3FF in
      case pt_read pd_index pt_index s of
        None \<Rightarrow> 0
      | Some e \<Rightarrow> if present e then frame e else 0)"

definition install_pt_if_needed :: "u32 \<Rightarrow> u32 \<Rightarrow> 'a kmmu_scheme \<Rightarrow> (int \<times> 'a kmmu_scheme) option" where
  "install_pt_if_needed pd_index flags s =
     (if \<not> present (pd_read pd_index s)
      then do {
        (phy_pt, s) \<leftarrow> segment_alloc_address 1 s;
        if phy_pt = 0 then Some (0, s)
        else do {
          let s = pd_write pd_index (phy_pt OR flags) s;
          if present (pd_read pd_index s)
          then Some (1, zero_page (frame (pd_read pd_index s)) s)
          else None
        }
      }
      else Some (1, s))"

definition clean_if_needed :: "u32 \<Rightarrow> 'a kmmu_scheme \<Rightarrow> 'a kmmu_scheme option" where
  "clean_if_needed pd_index s =
     (if pd_index \<ge> 768 then Some s
      else if \<not> present (pd_read pd_index s) then None
      else if \<exists>j \<in> set [0..<1024]. pt_read pd_index (of_nat j) s \<noteq> Some 0 then Some s
      else (let addr = mmu_virt_to_phy (0xFFC00000 + 0x1000 * pd_index) s in
            if addr \<noteq> 0
            then do {
              s \<leftarrow> segment_free addr s;
              Some (pd_write pd_index 0 s)
            }
            else Some s))"

text \<open>
  The loops are \<^verbatim>\<open>while (1)\<close> loops that decrement an unsigned page count before they test it: a
  count of 0 means \<open>2 ^ 32\<close> rounds.
\<close>

definition page_rounds :: "u32 \<Rightarrow> nat" where
  "page_rounds sz = (let n = unat (sz div PAGE_SIZE) in if n = 0 then 2 ^ 32 else n)"

fun unmap_pages :: "nat \<Rightarrow> ptr \<Rightarrow> u32 \<Rightarrow> u32 \<Rightarrow> 'a kmmu_scheme \<Rightarrow> 'a kmmu_scheme option" where
  "unmap_pages 0 as pd_index pt_index s = None"
| "unmap_pages (Suc n) as pd_index pt_index s = do {
     s \<leftarrow> pt_write pd_index pt_index 0 s;
     if n = 0 then (if as \<noteq> kernel_as s then clean_if_needed pd_index s else Some s)
     else if pt_index + 1 > 1023
     then do {
       s \<leftarrow> (if as \<noteq> kernel_as s then clean_if_needed pd_index s else Some s);
       unmap_pages n as (pd_index + 1) 0 s
     }
     else unmap_pages n as pd_index (pt_index + 1) s
   }"

definition unmap_mirror :: "ptr \<Rightarrow> u32 \<Rightarrow> u32 \<Rightarrow> 'a kmmu_scheme \<Rightarrow> (int \<times> 'a kmmu_scheme) option" where
  "unmap_mirror as vaddr sz s = do {
     s \<leftarrow> unmap_pages (page_rounds sz) as (drop_bit 22 vaddr AND 0x3FF) (drop_bit 12 vaddr AND 0x3FF) s;
     Some (1, s)
   }"

text \<open>Run with the page directory of \<open>as\<close> unless it is the current one (\<^verbatim>\<open>cr3_set\<close>, call, \<^verbatim>\<open>cr3_set\<close>).\<close>

definition in_space :: "ptr \<Rightarrow> ('a kmmu_scheme \<Rightarrow> (int \<times> 'a kmmu_scheme) option) \<Rightarrow> 'a kmmu_scheme \<Rightarrow> (int \<times> 'a kmmu_scheme) option" where
  "in_space as f s =
     (if as = kernel_as s \<or> running_as s = Some as then f s
      else do {
        A \<leftarrow> spaces s as;
        let cr3 = cpu_cr3 s;
        (ret, s) \<leftarrow> f (s\<lparr>cpu_cr3 := as_cr3 A\<rparr>);
        Some (ret, s\<lparr>cpu_cr3 := cr3\<rparr>)
      })"

definition mmu_unmap :: "ptr \<Rightarrow> u32 \<Rightarrow> u32 \<Rightarrow> 'a kmmu_scheme \<Rightarrow> (int \<times> 'a kmmu_scheme) option" where
  "mmu_unmap as vaddr sz s = in_space as (unmap_mirror as vaddr sz) s"

text \<open>\<open>sz\<close> is the size of the whole request; the loop keeps \<^verbatim>\<open>vaddr\<close>, \<^verbatim>\<open>paddr\<close> and both indices.\<close>

fun map_pages :: "nat \<Rightarrow> ptr \<Rightarrow> u32 \<Rightarrow> u32 \<Rightarrow> u32 \<Rightarrow> u32 \<Rightarrow> u32 \<Rightarrow> u32 \<Rightarrow> 'a kmmu_scheme \<Rightarrow> (int \<times> 'a kmmu_scheme) option" where
  "map_pages 0 as pd_index pt_index vaddr paddr sz mmu_flags s = None"
| "map_pages (Suc n) as pd_index pt_index vaddr paddr sz mmu_flags s = do {
     s \<leftarrow> pt_write pd_index pt_index (paddr OR mmu_flags) s;
     let vaddr = vaddr + PAGE_SIZE;
     let paddr = paddr + PAGE_SIZE;
     if n = 0 then Some (1, s)
     else if pt_index + 1 > 1023
     then do {
       (ok, s) \<leftarrow> install_pt_if_needed (pd_index + 1) mmu_flags s;
       if ok = 0
       then do {
         (_, s) \<leftarrow> mmu_unmap as vaddr (sz - of_nat n * PAGE_SIZE) s;
         Some (0, s)
       }
       else map_pages n as (pd_index + 1) 0 vaddr paddr sz mmu_flags s
     }
     else map_pages n as pd_index (pt_index + 1) vaddr paddr sz mmu_flags s
   }"

definition map_mirror :: "ptr \<Rightarrow> u32 \<Rightarrow> u32 \<Rightarrow> u32 \<Rightarrow> u32 \<Rightarrow> 'a kmmu_scheme \<Rightarrow> (int \<times> 'a kmmu_scheme) option" where
  "map_mirror as vaddr paddr sz flags s =
     (let pd_index = drop_bit 22 vaddr AND 0x3FF; pt_index = drop_bit 12 vaddr AND 0x3FF;
          mmu_flags = as_to_mmu_flags flags
      in do {
        (ok, s) \<leftarrow> install_pt_if_needed pd_index mmu_flags s;
        if ok = 0 then Some (0, s)
        else map_pages (page_rounds sz) as pd_index pt_index vaddr paddr sz mmu_flags s
      })"

definition mmu_map :: "ptr \<Rightarrow> u32 \<Rightarrow> u32 \<Rightarrow> u32 \<Rightarrow> u32 \<Rightarrow> 'a kmmu_scheme \<Rightarrow> (int \<times> 'a kmmu_scheme) option" where
  "mmu_map as vaddr paddr sz flags s = in_space as (map_mirror as vaddr paddr sz flags) s"

section \<open>Page directories\<close>

text \<open>
  The functions below call \<^verbatim>\<open>as_map\<close> and \<^verbatim>\<open>as_unmap\<close>, which reach only the two entries \<^verbatim>\<open>map\<close> and
  \<^verbatim>\<open>unmap\<close> of the dispatch table; the other entries of this table are never called.
\<close>

definition mmu_map_glue :: "'a kmmu_scheme as_glue" where
  "mmu_map_glue = \<lparr>glue_init = (\<lambda>_ _. None), glue_map = mmu_map, glue_unmap = mmu_unmap,
     glue_duplicate = (\<lambda>_ _ _. None), glue_virt_to_phy = mmu_virt_to_phy, glue_destroy = (\<lambda>_ _. None)\<rparr>"

abbreviation kernel_map :: "u32 \<Rightarrow> 'a kmmu_scheme \<Rightarrow> (u32 \<times> 'a kmmu_scheme) option" where
  "kernel_map paddr s \<equiv> as_map mmu_map_glue (kernel_as s) 0 paddr PAGE_SIZE AS_MAP_WRITE s"

abbreviation kernel_unmap :: "u32 \<Rightarrow> 'a kmmu_scheme \<Rightarrow> 'a kmmu_scheme option" where
  "kernel_unmap vaddr s \<equiv> as_unmap mmu_map_glue (kernel_as s) vaddr AS_UNMAP_NORELEASE s"

definition mmu_init_kernel :: "ptr \<Rightarrow> 'a kmmu_scheme \<Rightarrow> (int \<times> 'a kmmu_scheme) option" where
  "mmu_init_kernel as s = do {
     let s = as_upd as (\<lambda>A. A\<lparr>as_cr3 := KERNEL_PHY_PD\<rparr>) s;
     s \<leftarrow> for_each (\<lambda>i s. vwrite (KERNEL_VIRT_PD + 4 * of_nat i) 0 s) [0..<768] s;
     s \<leftarrow> vwrite (KERNEL_VIRT_PD + 4 * 768) (PD_PRESENT OR PD_4MB OR PD_WRITE) s;
     s \<leftarrow> for_each (\<lambda>k s. do {
            let pt = KERNEL_EXTRA_PT_BEGIN + of_nat k * PAGE_SIZE;
            s \<leftarrow> for_each (\<lambda>j s. vwrite (KERNEL_BEGIN + pt + 4 * of_nat j) 0 s) [0..<1024] s;
            vwrite (KERNEL_VIRT_PD + 4 * (769 + of_nat k)) (pt OR PD_PRESENT OR PD_WRITE) s
          }) [0..<unat ((KERNEL_EXTRA_PT_END - KERNEL_EXTRA_PT_BEGIN) div PAGE_SIZE)] s;
     s \<leftarrow> for_each (\<lambda>i s. vwrite (KERNEL_VIRT_PD + 4 * of_nat i) 0 s)
            [769 + unat ((KERNEL_EXTRA_PT_END - KERNEL_EXTRA_PT_BEGIN) div PAGE_SIZE)..<1023] s;
     s \<leftarrow> vwrite (KERNEL_VIRT_PD + 4 * 1023) (KERNEL_PHY_PD OR PD_PRESENT OR PD_WRITE) s;
     Some (1, s)
   }"

definition mmu_init_user :: "ptr \<Rightarrow> 'a kmmu_scheme \<Rightarrow> (int \<times> 'a kmmu_scheme) option" where
  "mmu_init_user as s = do {
     (cr3, s) \<leftarrow> segment_alloc_address 1 s;
     let s = as_upd as (\<lambda>A. A\<lparr>as_cr3 := cr3\<rparr>) s;
     if cr3 = 0 then Some (0, s)
     else do {
       (vpd, s) \<leftarrow> kernel_map cr3 s;
       if vpd = 0
       then do { s \<leftarrow> segment_free cr3 s; Some (0, s) }
       else do {
         s \<leftarrow> for_each (\<lambda>i s. vwrite (vpd + 4 * of_nat i) 0 s) [0..<1024] s;
         s \<leftarrow> for_each (\<lambda>i s. do {
                e \<leftarrow> vread (KERNEL_VIRT_PD + 4 * of_nat i) s;
                vwrite (vpd + 4 * of_nat i) e s }) [768..<1023] s;
         s \<leftarrow> vwrite (vpd + 4 * 1023) (cr3 OR PD_PRESENT OR PD_WRITE) s;
         s \<leftarrow> kernel_unmap vpd s;
         Some (1, s)
       }
     }
   }"

text \<open>
  The body of the loop of \<^verbatim>\<open>mmu_duplicate\<close> for one present directory entry: copy the page table
  \<open>i\<close> of the current space to a new page, with the write bit cleared in both. The result \<open>False\<close> is
  the jump to \<^verbatim>\<open>error\<close>.
\<close>

definition duplicate_entry :: "u32 \<Rightarrow> u32 \<Rightarrow> 'a kmmu_scheme \<Rightarrow> 'a kmmu_scheme option" where
  "duplicate_entry i new_pt s =
     for_each (\<lambda>j s. do {
       e \<leftarrow> pt_read i (of_nat j) s;
       if present e
       then do {
         s \<leftarrow> pt_write i (of_nat j) (e AND NOT PD_WRITE) s;
         e \<leftarrow> pt_read i (of_nat j) s;
         vwrite (new_pt + 4 * of_nat j) e s
       }
       else vwrite (new_pt + 4 * of_nat j) 0 s }) [0..<1024] s"

fun duplicate_tables :: "nat list \<Rightarrow> u32 \<Rightarrow> 'a kmmu_scheme \<Rightarrow> (bool \<times> 'a kmmu_scheme) option" where
  "duplicate_tables [] new_pd s = Some (True, s)"
| "duplicate_tables (i # is) new_pd s =
     (if present (pd_read (of_nat i) s)
      then do {
        (seg, s) \<leftarrow> segment_alloc 1 s;
        if seg = NULL then Some (False, s)
        else do {
          base \<leftarrow> segment_base seg s;
          (new_pt, s) \<leftarrow> kernel_map base s;
          if new_pt = 0 then Some (False, s)
          else do {
            s \<leftarrow> vwrite (new_pd + 4 * of_nat i) (base OR (pd_read (of_nat i) s AND 0xFFF)) s;
            s \<leftarrow> duplicate_entry (of_nat i) new_pt s;
            s \<leftarrow> kernel_unmap new_pt s;
            duplicate_tables is new_pd s
          }
        }
      }
      else do {
        s \<leftarrow> vwrite (new_pd + 4 * of_nat i) 0 s;
        duplicate_tables is new_pd s
      })"

definition mmu_duplicate :: "ptr \<Rightarrow> ptr \<Rightarrow> 'a kmmu_scheme \<Rightarrow> (int \<times> 'a kmmu_scheme) option" where
  "mmu_duplicate old new_as s = do {
     A \<leftarrow> spaces s new_as;
     (new_pd, s) \<leftarrow> kernel_map (as_cr3 A) s;
     if new_pd = 0 then Some (0, s)
     else do {
       (ok, s) \<leftarrow> duplicate_tables [0..<768] new_pd s;
       s \<leftarrow> kernel_unmap new_pd s;
       Some (if ok then 1 else 0, s)
     }
   }"

definition mmu_remove_cr3 :: "ptr \<Rightarrow> 'a kmmu_scheme \<Rightarrow> 'a kmmu_scheme option" where
  "mmu_remove_cr3 as s = do {
     A \<leftarrow> spaces s as;
     (pd, s) \<leftarrow> kernel_map (as_cr3 A) s;
     s \<leftarrow> (if pd = 0 then Some s
           else do {
             s \<leftarrow> for_each (\<lambda>i s. do {
                    e \<leftarrow> vread (pd + 4 * of_nat i) s;
                    if present e then segment_free (frame e) s else Some s }) [0..<768] s;
             kernel_unmap pd s
           });
     segment_free (as_cr3 A) s
   }"

definition i386_pc_as_initialize :: "ptr \<Rightarrow> 'a kmmu_scheme \<Rightarrow> (int \<times> 'a kmmu_scheme) option" where
  "i386_pc_as_initialize as s = (if as = kernel_as s then mmu_init_kernel as s else mmu_init_user as s)"

definition i386_pc_as_destroy :: "ptr \<Rightarrow> 'a kmmu_scheme \<Rightarrow> (int \<times> 'a kmmu_scheme) option" where
  "i386_pc_as_destroy as s =
     (if as = kernel_as s then None else do { s \<leftarrow> mmu_remove_cr3 as s; Some (1, s) })"

definition as_glue_dispatcher :: "'a kmmu_scheme as_glue" where
  "as_glue_dispatcher = \<lparr>glue_init = i386_pc_as_initialize, glue_map = mmu_map, glue_unmap = mmu_unmap,
     glue_duplicate = mmu_duplicate, glue_virt_to_phy = mmu_virt_to_phy, glue_destroy = i386_pc_as_destroy\<rparr>"

section \<open>Copy on write\<close>

text \<open>\<^verbatim>\<open>memcpy\<close> between two kernel-visible virtual areas, word by word (sizes here are whole pages).\<close>

definition vcopy :: "u32 \<Rightarrow> u32 \<Rightarrow> u32 \<Rightarrow> 'a kmmu_scheme \<Rightarrow> 'a kmmu_scheme option" where
  "vcopy dest src sz s =
     for_each (\<lambda>k s. do { x \<leftarrow> vread (src + 4 * of_nat k) s; vwrite (dest + 4 * of_nat k) x s })
       [0..<unat (sz div 4)] s"

definition cow :: "ptr \<Rightarrow> ptr \<Rightarrow> 'a kmmu_scheme \<Rightarrow> 'a kmmu_scheme option" where
  "cow as mp s = do {
     A \<leftarrow> spaces s as;
     m \<leftarrow> map_of (mapping A) mp;
     sg \<leftarrow> map_of (segment_head s) (map_phy m);
     s \<leftarrow> (if seg_ref_count sg = 1
           then Some (s\<lparr>segment_head := klist_update (map_phy m)
                          (\<lambda>sg. sg\<lparr>seg_flags := seg_flags sg AND NOT SEGMENT_FLAGS_COW\<rparr>) (segment_head s)\<rparr>)
           else do {
             (seg, s) \<leftarrow> segment_alloc (map_size m div PAGE_SIZE) s;
             if seg = NULL then None
             else do {
               base \<leftarrow> segment_base seg s;
               (new_page, s) \<leftarrow> as_map as_glue_dispatcher (kernel_as s) 0 base (map_size m) AS_MAP_WRITE s;
               if new_page = 0 then None
               else do {
                 s \<leftarrow> vcopy new_page (map_virt m) (map_size m) s;
                 s \<leftarrow> as_unmap as_glue_dispatcher (kernel_as s) new_page AS_UNMAP_NORELEASE s;
                 s \<leftarrow> segment_release (map_phy m) s;
                 Some (as_upd as (\<lambda>A. A\<lparr>mapping := klist_update mp (\<lambda>m. m\<lparr>map_phy := seg\<rparr>) (mapping A)\<rparr>) s)
               }
             }
           });
     (ok, s) \<leftarrow> as_remap as_glue_dispatcher as mp (map_flags m) s;
     if ok = 0 then None else Some s
   }"

section \<open>Tables do not overlap\<close>

lemma aligned_top:
  assumes "4096 dvd unat (p :: u32)"
  shows "unat p + 4096 \<le> 2 ^ 32"
proof -
  obtain k where k: "unat p = 4096 * k" using assms by (auto simp: dvd_def)
  have "unat p < 2 ^ 32" using unsigned_less [of p, where ?'a = nat] by simp
  with k have "k < 1048576" by simp
  then show ?thesis using k by simp
qed

lemma unat_word_addr:
  assumes "4096 dvd unat (p :: u32)" and "j < (1024 :: u32)"
  shows "unat (p + 4 * j) = unat p + 4 * unat j"
proof -
  have j: "unat j < 1024" using assms(2) by (simp add: word_less_nat_alt)
  then have "unat (4 * j) = 4 * unat j" by (simp add: unat_word_ariths)
  moreover have "unat p + 4 * unat j < 2 ^ 32" using aligned_top [OF assms(1)] j by simp
  ultimately show ?thesis by (simp add: unat_word_ariths)
qed

lemma word_addr_eq_iff:
  assumes "4096 dvd unat (p :: u32)" "4096 dvd unat q" "j < (1024 :: u32)" "k < 1024"
  shows "p + 4 * j = q + 4 * k \<longleftrightarrow> p = q \<and> j = k"
proof
  assume e: "p + 4 * j = q + 4 * k"
  have u: "unat p + 4 * unat j = unat q + 4 * unat k"
    using arg_cong [OF e, of unat] unat_word_addr [OF assms(1, 3)] unat_word_addr [OF assms(2, 4)] by simp
  obtain x y where x: "unat p = 4096 * x" and y: "unat q = 4096 * y" using assms(1, 2) by (auto simp: dvd_def)
  have "unat j < 1024" "unat k < 1024" using assms(3, 4) by (simp_all add: word_less_nat_alt)
  with u x y have "x = y" by arith
  with u x y have "unat p = unat q" and "unat j = unat k" by simp_all
  then show "p = q \<and> j = k" by (simp add: unsigned_word_eqI)
qed simp

lemma mask_12: "(0xFFF :: u32) = mask 12"
  by (simp add: mask_eq_exp_minus_1)

lemma frame_eq: "frame e = push_bit 12 (drop_bit 12 e)"
  unfolding frame_def mask_12 by (rule bit_word_eqI) (auto simp: bit_simps)

lemma frame_aligned: "4096 dvd unat (frame e)"
proof -
  have "unat (frame e) = unat (drop_bit 12 e) * 4096 mod 2 ^ 32"
    by (simp add: frame_eq push_bit_eq_mult unat_word_ariths)
  moreover have "(4096 :: nat) dvd 2 ^ 32" by simp
  ultimately show ?thesis by (simp add: dvd_mod)
qed

lemma frame_id: "4096 dvd unat p \<Longrightarrow> frame p = p"
proof -
  assume "4096 dvd unat p"
  then have "unat (take_bit 12 p) = 0" by (simp add: take_bit_eq_mod unat_mod)
  then have "take_bit 12 p = 0" by (simp add: unat_eq_0)
  with bits_ident [of 12 p] show ?thesis by (simp add: frame_eq)
qed

lemma frame_or: "4096 dvd unat p \<Longrightarrow> frame f = 0 \<Longrightarrow> frame (p OR f) = p"
  using frame_id [of p] by (simp add: frame_def bit.conj_disj_distrib2)

lemma present_bit: "present e \<longleftrightarrow> bit e 0"
  by (simp add: present_def PD_PRESENT_def and_one_eq bit_0 mod_2_eq_odd)

lemma present_or: "present f \<Longrightarrow> present (p OR f)"
  by (simp add: present_bit bit_or_iff)

lemma flags_ok: "frame (as_to_mmu_flags flags) = 0" "present (as_to_mmu_flags flags)"
  by (simp_all add: as_to_mmu_flags_def frame_def present_def mmu_consts Let_def)

lemma fold_zero: "fold (\<lambda>k m. m(f k := 0)) xs m a = (if a \<in> f ` set xs then 0 else m a)"
  by (induction xs arbitrary: m) auto

lemma phys_zero_page:
  "phys (zero_page p s) a = (if \<exists>j < 1024. a = p + 4 * j then 0 else phys s a)"
proof -
  have "a \<in> (\<lambda>k. p + 4 * of_nat k) ` set [0..<1024] \<longleftrightarrow> (\<exists>j < 1024. a = p + 4 * j)"
  proof
    assume "a \<in> (\<lambda>k. p + 4 * of_nat k) ` set [0..<1024]"
    then obtain k where "k < 1024" "a = p + 4 * of_nat k" by auto
    moreover from this have "(of_nat k :: u32) < 1024" by (simp add: word_less_nat_alt unat_of_nat take_bit_nat_eq_self)
    ultimately show "\<exists>j < 1024. a = p + 4 * j" by blast
  next
    assume "\<exists>j < 1024. a = p + 4 * j"
    then obtain j :: u32 where "j < 1024" "a = p + 4 * j" by blast
    then have "unat j \<in> set [0..<1024]" "a = p + 4 * of_nat (unat j)" by (simp_all add: word_less_nat_alt)
    then show "a \<in> (\<lambda>k. p + 4 * of_nat k) ` set [0..<1024]" by (rule rev_image_eqI)
  qed
  then show ?thesis by (simp add: zero_page_def fold_zero)
qed

text \<open>The present entry for page \<open>j\<close> of table \<open>i\<close>: the translation as an abstract map.\<close>

definition pte :: "u32 \<Rightarrow> u32 \<Rightarrow> 'a kmmu_scheme \<Rightarrow> u32 option" where
  "pte i j s = (case pt_read i j s of None \<Rightarrow> None | Some e \<Rightarrow> if present e then Some e else None)"

text \<open>
  The directory and the page tables it names are distinct pages in use. The last entry is the
  mirror of the directory itself.
\<close>

definition tables_ok :: "'a kmmu_scheme \<Rightarrow> bool" where
  "tables_ok s \<longleftrightarrow> 4096 dvd unat (cpu_cr3 s) \<and> unat (cpu_cr3 s) \<in> used_mem (segment_head s)
     \<and> (\<forall>i < 1023. present (pd_read i s) \<longrightarrow>
          frame (pd_read i s) \<noteq> cpu_cr3 s \<and> unat (frame (pd_read i s)) \<in> used_mem (segment_head s)
          \<and> (\<forall>k < 1023. present (pd_read k s) \<and> frame (pd_read k s) = frame (pd_read i s) \<longrightarrow> k = i))"

text \<open>Writing an entry of a page table.\<close>

lemma pt_write_correct:
  fixes s :: "'a kmmu_scheme"
  assumes ok: "tables_ok s" and p: "present (pd_read i s)" and i: "i < 1023" and j: "j < 1024"
  obtains s' where "pt_write i j e s = Some s'" and "\<exists>m. s' = s\<lparr>phys := m\<rparr>" and "tables_ok s'"
    and "\<And>k. k < 1023 \<Longrightarrow> pd_read k s' = pd_read k s"
    and "\<And>k l. k < 1023 \<Longrightarrow> l < 1024 \<Longrightarrow>
           pte k l s' = (if k = i \<and> l = j then if present e then Some e else None else pte k l s)"
proof -
  let ?a = "frame (pd_read i s) + 4 * j"
  define s' where "s' = s\<lparr>phys := (phys s)(?a := e)\<rparr>"
  have fi: "frame (pd_read i s) \<noteq> cpu_cr3 s" and al: "4096 dvd unat (cpu_cr3 s)"
    using ok p i by (auto simp: tables_ok_def)
  have pd: "pd_read k s' = pd_read k s" if "k < 1023" for k
  proof -
    have k: "k < 1024" using that by (simp add: word_less_nat_alt)
    have "cpu_cr3 s + 4 * k \<noteq> ?a" using word_addr_eq_iff [OF al frame_aligned k j] fi by auto
    then show ?thesis by (simp add: pd_read_def s'_def)
  qed
  have ok': "tables_ok s'" using ok pd unfolding tables_ok_def by (simp add: s'_def)
  have pte: "pte k l s' = (if k = i \<and> l = j then if present e then Some e else None else pte k l s)"
    if k: "k < 1023" and l: "l < 1024" for k l
  proof (cases "present (pd_read k s)")
    case True
    have "frame (pd_read k s) + 4 * l = ?a \<longleftrightarrow> frame (pd_read k s) = frame (pd_read i s) \<and> l = j"
      by (rule word_addr_eq_iff [OF frame_aligned frame_aligned l j])
    moreover have "frame (pd_read k s) = frame (pd_read i s) \<longleftrightarrow> k = i"
      using ok True k p i by (auto simp: tables_ok_def)
    ultimately have "phys s' (frame (pd_read k s) + 4 * l) = (if k = i \<and> l = j then e else phys s (frame (pd_read k s) + 4 * l))"
      by (simp add: s'_def)
    with True pd [OF k] show ?thesis by (auto simp: pte_def pt_read_def)
  next
    case False
    with pd [OF k] p show ?thesis by (auto simp: pte_def pt_read_def)
  qed
  have "pt_write i j e s = Some s'" using p by (simp add: pt_write_def s'_def)
  moreover have "\<exists>m. s' = s\<lparr>phys := m\<rparr>" unfolding s'_def by (rule exI) (rule refl)
  ultimately show ?thesis using that ok' pd pte by blast
qed

lemma segs_only_kmmu:
  assumes "segs_only s s'"
  shows "phys s' = phys s" and "cpu_cr3 s' = cpu_cr3 s" and "running_as s' = running_as s"
    and "spaces s' = spaces s" and "kernel_as s' = kernel_as s"
  using assms by (cases s; cases s'; simp add: segs_only_def)+

lemma mmu_frame [simp]:
  "seg_inv a b (s\<lparr>phys := m\<rparr>) = seg_inv a b s" "seg_inv a b (s\<lparr>cpu_cr3 := c\<rparr>) = seg_inv a b s"
  "live (s\<lparr>phys := m\<rparr>) = live s" "live (s\<lparr>cpu_cr3 := c\<rparr>) = live s"
  by (simp_all add: seg_inv_def heap_inv_def live_def)

text \<open>A directory entry that names a fresh zeroed page changes no translation.\<close>

lemma new_table:
  fixes t s' :: "'a kmmu_scheme"
  assumes ok: "tables_ok t" and i: "i < 1023" and np: "\<not> present (pd_read i t)"
    and phy: "4096 dvd unat phy" "unat phy \<notin> used_mem (segment_head t)"
    and e: "frame e = phy" "present e" and s': "s' = zero_page phy (pd_write i e t)"
  shows "\<And>k. k < 1023 \<Longrightarrow> pd_read k s' = (if k = i then e else pd_read k t)"
    and "\<And>k l. k < 1023 \<Longrightarrow> l < 1024 \<Longrightarrow> pte k l s' = pte k l t"
proof -
  have cr3: "4096 dvd unat (cpu_cr3 t)" "cpu_cr3 t \<noteq> phy" "cpu_cr3 s' = cpu_cr3 t"
    using ok phy by (auto simp: tables_ok_def s' zero_page_def pd_write_def)
  have i2: "i < 1024" using i by (simp add: word_less_nat_alt)
  have other: "phys s' (q + 4 * l) = (if q = cpu_cr3 t \<and> l = i then e else phys t (q + 4 * l))"
    if "4096 dvd unat q" "q \<noteq> phy" "l < 1024" for q l
  proof -
    have "\<not> (\<exists>j < 1024. q + 4 * l = phy + 4 * j)"
      using word_addr_eq_iff [OF that(1) phy(1) that(3)] that(2) by auto
    then have "phys s' (q + 4 * l) = phys (pd_write i e t) (q + 4 * l)"
      unfolding s' phys_zero_page by (rule if_not_P)
    moreover have "q + 4 * l = cpu_cr3 t + 4 * i \<longleftrightarrow> q = cpu_cr3 t \<and> l = i"
      by (rule word_addr_eq_iff [OF that(1) cr3(1) that(3) i2])
    ultimately show ?thesis by (simp add: pd_write_def)
  qed
  show pd: "pd_read k s' = (if k = i then e else pd_read k t)" if "k < 1023" for k
  proof -
    have "k < 1024" using that by (simp add: word_less_nat_alt)
    from other [OF cr3(1, 2) this] show ?thesis unfolding pd_read_def cr3(3) by simp
  qed
  show "pte k l s' = pte k l t" if k: "k < 1023" and l: "l < 1024" for k l
  proof (cases "k = i")
    case True
    have "\<exists>j < 1024. phy + 4 * l = phy + 4 * j" using l by blast
    then have "phys s' (phy + 4 * l) = 0" unfolding s' phys_zero_page by simp
    then have "pte k l s' = None" using pd [OF k] True e by (simp add: pte_def pt_read_def present_def)
    moreover have "pte k l t = None" using True np by (simp add: pte_def pt_read_def)
    ultimately show ?thesis by simp
  next
    case False
    show ?thesis
    proof (cases "present (pd_read k t)")
      case True
      then have "frame (pd_read k t) \<noteq> phy" "frame (pd_read k t) \<noteq> cpu_cr3 t"
        using ok k phy by (auto simp: tables_ok_def)
      with other [OF frame_aligned _ l, of "pd_read k t"]
      have "phys s' (frame (pd_read k t) + 4 * l) = phys t (frame (pd_read k t) + 4 * l)" by simp
      with pd [OF k] False True show ?thesis by (simp add: pte_def pt_read_def)
    next
      case np: False
      with pd [OF k] False show ?thesis by (simp add: pte_def pt_read_def)
    qed
  qed
qed

text \<open>Installing a page table does not change the translation.\<close>

lemma install_pt_correct:
  fixes s s' :: "'a kmmu_scheme"
  assumes inv: "seg_inv a b s" and ok: "tables_ok s" and i: "i < 1023"
    and fl: "present fl" "frame fl = 0" and res: "install_pt_if_needed i fl s = Some (r, s')" "r \<noteq> 0"
  shows "seg_inv a b s' \<and> tables_ok s' \<and> present (pd_read i s') \<and> cpu_cr3 s' = cpu_cr3 s
    \<and> (\<forall>k l. k < 1023 \<longrightarrow> l < 1024 \<longrightarrow> pte k l s' = pte k l s)"
proof (cases "present (pd_read i s)")
  case True
  with res ok inv show ?thesis by (simp add: install_pt_if_needed_def)
next
  case False
  obtain phy t where al: "segment_alloc_address 1 s = Some (phy, t)"
    using res(1) False by (cases "segment_alloc_address 1 s") (auto simp: install_pt_if_needed_def)
  have phy: "phy \<noteq> 0" using res al False by (auto simp: install_pt_if_needed_def)
  note cs = segment_alloc_address_cases [OF inv al]
  note so = segs_only_kmmu [OF segment_alloc_address_segs_only [OF al]]
  have us: "used_mem (segment_head t) = used_mem (segment_head s) \<union> span phy 1"
    using cs(2) [OF phy] by (simp add: takes_def)
  have new: "unat phy \<notin> used_mem (segment_head s)"
    using frames.alloc_not_used [OF inv al phy] by (auto simp: disjoint_iff)
  define r0 where "r0 = t\<lparr>segment_head := segment_head s\<rparr>"
  have same: "pd_read k r0 = pd_read k s" "pte k l r0 = pte k l s" "cpu_cr3 r0 = cpu_cr3 s" for k l
    using so by (simp_all add: r0_def pd_read_def pte_def pt_read_def)
  have e: "frame (phy OR fl) = phy" "present (phy OR fl)"
    using frame_or [OF cs(3) fl(2)] present_or [OF fl(1)] by simp_all
  have "present (pd_read i (pd_write i (phy OR fl) t))" "frame (pd_read i (pd_write i (phy OR fl) t)) = phy"
    using e by (simp_all add: pd_write_def pd_read_def)
  then have s': "s' = zero_page phy (pd_write i (phy OR fl) t)"
    using res al False phy by (simp add: install_pt_if_needed_def)
  have ok0: "tables_ok r0" using ok same unfolding tables_ok_def by (simp add: r0_def)
  define s0 where "s0 = zero_page phy (pd_write i (phy OR fl) r0)"
  have np: "\<not> present (pd_read i r0)" and new0: "unat phy \<notin> used_mem (segment_head r0)"
    using False same new by (simp_all add: r0_def)
  note nt = new_table [OF ok0 i np cs(3) new0 e s0_def]
  have eq: "pd_read k s' = pd_read k s0" "pte k l s' = pte k l s0" "cpu_cr3 s' = cpu_cr3 s" for k l
    using so by (simp_all add: s' s0_def r0_def pd_read_def pte_def pt_read_def zero_page_def pd_write_def)
  have pd': "pd_read k s' = (if k = i then phy OR fl else pd_read k s)" if "k < 1023" for k
    using nt(1) [OF that] eq same by simp
  have us': "used_mem (segment_head s') = used_mem (segment_head s) \<union> span phy 1"
    using us by (simp add: s' zero_page_def pd_write_def)
  have "cpu_cr3 s \<noteq> phy" using ok new by (auto simp: tables_ok_def)
  moreover have "frame (pd_read k s) \<noteq> phy" if "k < 1023" "present (pd_read k s)" for k
    using ok new that by (auto simp: tables_ok_def)
  ultimately have "tables_ok s'"
    using ok pd' e unfolding tables_ok_def eq(3) us' by (auto split: if_splits)
  moreover have "present (pd_read i s')" using pd' [OF i] e by simp
  moreover have "seg_inv a b s'" using cs(1) by (simp add: s' zero_page_def pd_write_def)
  moreover have "pte k l s' = pte k l s" if "k < 1023" "l < 1024" for k l
    using nt(2) [OF that] eq same by simp
  ultimately show ?thesis using eq(3) by blast
qed

section \<open>Mapping updates the translation\<close>

text \<open>The number of a virtual page.\<close>

definition vpn :: "u32 \<Rightarrow> u32 \<Rightarrow> nat" where
  "vpn i j = unat i * 1024 + unat j"

lemma vpn_inj: "j < 1024 \<Longrightarrow> l < 1024 \<Longrightarrow> vpn k l = vpn i j \<longleftrightarrow> k = i \<and> l = j"
proof
  assume "j < 1024" "l < 1024" "vpn k l = vpn i j"
  then have e: "unat k * 1024 + unat l = unat i * 1024 + unat j" "unat j < 1024" "unat l < 1024"
    by (simp_all add: vpn_def word_less_nat_alt)
  have "unat k = (unat k * 1024 + unat l) div 1024" "unat i = (unat i * 1024 + unat j) div 1024"
    using e(2, 3) by simp_all
  then have "unat k = unat i" using e(1) by simp
  moreover from this have "unat l = unat j" using e(1) by simp
  ultimately show "k = i \<and> l = j" by (simp add: unsigned_word_eqI)
qed simp

text \<open>The indices of a virtual address.\<close>

abbreviation pd_of :: "u32 \<Rightarrow> u32" where "pd_of v \<equiv> drop_bit 22 v AND 0x3FF"

abbreviation pt_of :: "u32 \<Rightarrow> u32" where "pt_of v \<equiv> drop_bit 12 v AND 0x3FF"

lemma unat_idx: "unat (pd_of v) = unat v div 2 ^ 22" "unat (pt_of v) = unat v div 4096 mod 1024"
proof -
  have m: "(0x3FF :: u32) = mask 10" by (simp add: mask_eq_exp_minus_1)
  have "unat v < 2 ^ 32" using unsigned_less [of v, where ?'a = nat] by simp
  then have "unat v div 2 ^ 22 < 1024" by simp
  then show "unat (pd_of v) = unat v div 2 ^ 22"
    unfolding m take_bit_eq_mask [symmetric] by (simp add: drop_bit_eq_div take_bit_eq_mod unat_mod unat_div)
  show "unat (pt_of v) = unat v div 4096 mod 1024"
    unfolding m take_bit_eq_mask [symmetric] by (simp add: drop_bit_eq_div take_bit_eq_mod unat_mod unat_div)
qed

lemma vpn_of: "vpn (pd_of v) (pt_of v) = unat v div 4096"
proof -
  have "unat v div 4096 div 1024 = unat v div 2 ^ 22" by (simp add: div_mult2_eq [symmetric])
  then show ?thesis using div_mult_mod_eq [of "unat v div 4096" 1024] by (simp add: vpn_def unat_idx)
qed

text \<open>The translation after mapping \<open>n\<close> pages from \<open>(i, j)\<close> to \<open>paddr\<close>.\<close>

definition mapped_pte :: "nat \<Rightarrow> u32 \<Rightarrow> u32 \<Rightarrow> u32 \<Rightarrow> u32 \<Rightarrow> 'a kmmu_scheme \<Rightarrow> u32 \<Rightarrow> u32 \<Rightarrow> u32 option" where
  "mapped_pte n i j paddr fl s k l =
     (if vpn i j \<le> vpn k l \<and> vpn k l < vpn i j + n
      then Some ((paddr + of_nat (vpn k l - vpn i j) * PAGE_SIZE) OR fl) else pte k l s)"

lemma mapped_pte_Suc:
  assumes "j < 1024" and "l < 1024" and "vpn i' j' = Suc (vpn i j)"
    and "pte k l s1 = (if k = i \<and> l = j then Some (paddr OR fl) else pte k l s)"
  shows "mapped_pte n i' j' (paddr + PAGE_SIZE) fl s1 k l = mapped_pte (Suc n) i j paddr fl s k l"
proof (cases "vpn k l = vpn i j")
  case True
  then show ?thesis using assms vpn_inj [OF assms(1, 2)] by (simp add: mapped_pte_def)
next
  case False
  then have "pte k l s1 = pte k l s" using assms(4) by auto
  moreover have "paddr + PAGE_SIZE + of_nat (vpn k l - vpn i' j') * PAGE_SIZE = paddr + of_nat (vpn k l - vpn i j) * PAGE_SIZE"
    if "vpn i' j' \<le> vpn k l"
  proof -
    have "vpn k l - vpn i j = Suc (vpn k l - vpn i' j')" using that assms(3) by simp
    then show ?thesis by (simp add: algebra_simps)
  qed
  ultimately show ?thesis using False assms(3) by (auto simp: mapped_pte_def add.assoc)
qed

lemma map_pages_correct:
  fixes s s' :: "'a kmmu_scheme"
  assumes "map_pages n as i j vaddr paddr sz fl s = Some (r, s')" and "r \<noteq> 0"
    and "seg_inv a b s" and "tables_ok s" and "present (pd_read i s)" and "i < 1023" and "j < 1024"
    and "vpn i j + n \<le> 1023 * 1024" and "present fl" and "frame fl = 0"
  shows "seg_inv a b s' \<and> tables_ok s' \<and> cpu_cr3 s' = cpu_cr3 s
    \<and> (\<forall>k l. k < 1023 \<longrightarrow> l < 1024 \<longrightarrow> pte k l s' = mapped_pte n i j paddr fl s k l)"
  using assms
proof (induction n arbitrary: i j vaddr paddr s)
  case 0
  from 0(1) show ?case by simp
next
  case (Suc n)
  have ep: "present (paddr OR fl)" using Suc.prems(9) by (rule present_or)
  from Suc.prems(4-7) obtain s1 where s1: "pt_write i j (paddr OR fl) s = Some s1" "\<exists>m. s1 = s\<lparr>phys := m\<rparr>"
    "tables_ok s1" "\<And>k. k < 1023 \<Longrightarrow> pd_read k s1 = pd_read k s"
    "\<And>k l. k < 1023 \<Longrightarrow> l < 1024 \<Longrightarrow> pte k l s1 = (if k = i \<and> l = j then if present (paddr OR fl) then Some (paddr OR fl) else None else pte k l s)"
    by (rule pt_write_correct) blast
  from s1(2) obtain m where m: "s1 = s\<lparr>phys := m\<rparr>" ..
  have inv1: "seg_inv a b s1" "cpu_cr3 s1 = cpu_cr3 s" using Suc.prems(3) by (simp_all add: m)
  have pte1: "pte k l s1 = (if k = i \<and> l = j then Some (paddr OR fl) else pte k l s)" if "k < 1023" "l < 1024" for k l
    using s1(5) [OF that] ep by simp
  note step = mapped_pte_Suc [OF Suc.prems(7) _ _ pte1]
  show ?case
  proof (cases "n = 0")
    case True
    then have "s' = s1" using Suc.prems(1) s1(1) by simp
    moreover have "mapped_pte (Suc 0) i j paddr fl s k l = pte k l s1" if "k < 1023" "l < 1024" for k l
      using pte1 [OF that] vpn_inj [OF Suc.prems(7) that(2), of k i]
      by (cases "vpn k l = vpn i j") (auto simp: mapped_pte_def)
    ultimately show ?thesis using s1(3) inv1 True by simp
  next
    case n: False
    show ?thesis
    proof (cases "j + 1 > 1023")
      case True
      have j: "unat j = 1023"
        using True Suc.prems(7) by (simp add: word_less_nat_alt unat_word_ariths)
      then have bnd: "unat i + 1 < 1023" using Suc.prems(8) n by (simp add: vpn_def)
      then have i1: "i + 1 < 1023" "unat (i + 1) = unat i + 1"
        by (simp_all add: word_less_nat_alt unat_word_ariths)
      then have v: "vpn (i + 1) 0 = Suc (vpn i j)" using j by (simp add: vpn_def)
      from Suc.prems(1, 2) s1(1) n True obtain ok s2 where
        s2: "install_pt_if_needed (i + 1) fl s1 = Some (ok, s2)" "ok \<noteq> 0"
        "map_pages n as (i + 1) 0 (vaddr + PAGE_SIZE) (paddr + PAGE_SIZE) sz fl s2 = Some (r, s')"
        by (auto simp: Let_def simp del: not_less elim!: bind_pairE split: if_splits)
      note ins = install_pt_correct [OF inv1(1) s1(3) i1(1) Suc.prems(9, 10) s2(1, 2)]
      have "vpn (i + 1) 0 + n \<le> 1023 * 1024" using Suc.prems(8) v by simp
      note ih = Suc.IH [OF s2(3) Suc.prems(2) _ _ _ i1(1) _ this Suc.prems(9, 10)]
      have IH: "seg_inv a b s'" "tables_ok s'" "cpu_cr3 s' = cpu_cr3 s2"
        "\<And>k l. k < 1023 \<Longrightarrow> l < 1024 \<Longrightarrow> pte k l s' = mapped_pte n (i + 1) 0 (paddr + PAGE_SIZE) fl s2 k l"
        using ih ins by simp_all
      have "pte k l s' = mapped_pte (Suc n) i j paddr fl s k l" if "k < 1023" "l < 1024" for k l
      proof -
        have "mapped_pte n (i + 1) 0 (paddr + PAGE_SIZE) fl s2 k l = mapped_pte n (i + 1) 0 (paddr + PAGE_SIZE) fl s1 k l"
          using ins that by (simp add: mapped_pte_def)
        then show ?thesis using IH(4) [OF that] step [OF that(2) v that] by simp
      qed
      with IH inv1 ins show ?thesis by simp
    next
      case False
      have ju: "unat (j + 1) = unat j + 1" using Suc.prems(7) by (simp add: word_less_nat_alt unat_word_ariths)
      then have j1: "j + 1 < 1024" using False by (simp add: word_less_nat_alt)
      from ju have v: "vpn i (j + 1) = Suc (vpn i j)" by (simp add: vpn_def)
      have rest: "map_pages n as i (j + 1) (vaddr + PAGE_SIZE) (paddr + PAGE_SIZE) sz fl s1 = Some (r, s')"
        using Suc.prems(1) s1(1) n False by (simp add: Let_def)
      have pr: "present (pd_read i s1)" using s1(4) Suc.prems(5, 6) by simp
      have "vpn i (j + 1) + n \<le> 1023 * 1024" using Suc.prems(8) v by simp
      note ih = Suc.IH [OF rest Suc.prems(2) inv1(1) s1(3) pr Suc.prems(6) j1 this Suc.prems(9, 10)]
      have IH: "seg_inv a b s'" "tables_ok s'" "cpu_cr3 s' = cpu_cr3 s1"
        "\<And>k l. k < 1023 \<Longrightarrow> l < 1024 \<Longrightarrow> pte k l s' = mapped_pte n i (j + 1) (paddr + PAGE_SIZE) fl s1 k l"
        using ih by simp_all
      have "pte k l s' = mapped_pte (Suc n) i j paddr fl s k l" if "k < 1023" "l < 1024" for k l
        using IH(4) [OF that] step [OF that(2) v that] by simp
      with IH inv1 show ?thesis by simp
    qed
  qed
qed

lemma mapped_pte_addr:
  assumes v: "4096 dvd unat v" and va: "4096 dvd unat va" and sz: "4096 dvd unat sz"
  shows "mapped_pte (unat (sz div PAGE_SIZE)) (pd_of v) (pt_of v) p fl s (pd_of va) (pt_of va) =
    (if v \<le> va \<and> va - v < sz then Some ((p + (va - v)) OR fl) else pte (pd_of va) (pt_of va) s)"
proof -
  obtain x y where x: "unat v = 4096 * x" and y: "unat va = 4096 * y" using v va by (auto simp: dvd_def)
  have n: "unat (sz div PAGE_SIZE) * 4096 = unat sz" by (rule pages_of_aligned [OF sz])
  have le: "v \<le> va \<longleftrightarrow> x \<le> y" using x y by (simp add: word_le_nat_alt)
  have "unat (va - v) = 4096 * (y - x)" if "x \<le> y"
    using that x y le by (simp add: unat_sub word_le_nat_alt diff_mult_distrib2)
  then have lt: "v \<le> va \<and> va - v < sz \<longleftrightarrow> x \<le> y \<and> y < x + unat (sz div PAGE_SIZE)"
    using le n by (auto simp: word_less_nat_alt)
  have "of_nat (y - x) * PAGE_SIZE = va - v" if "x \<le> y"
  proof -
    have "va - v = of_nat (unat va) - of_nat (unat v)" by simp
    also have "\<dots> = of_nat (y - x) * PAGE_SIZE"
      unfolding x y using that by (simp add: of_nat_diff PAGE_SIZE_def algebra_simps)
    finally show ?thesis by simp
  qed
  then show ?thesis unfolding mapped_pte_def vpn_of lt using x y by auto
qed

section \<open>The i386 functions implement the interface\<close>

text \<open>What a successful mapping keeps of the rest of the state.\<close>

definition mmu_keeps :: "nat \<Rightarrow> nat \<Rightarrow> 'a kmmu_scheme \<Rightarrow> 'a kmmu_scheme \<Rightarrow> bool" where
  "mmu_keeps a b s s' \<longleftrightarrow> seg_inv a b s' \<and> spaces s' = spaces s \<and> kernel_as s' = kernel_as s
     \<and> running_as s' = running_as s \<and> cpu_cr3 s' = cpu_cr3 s
     \<and> used_mem (segment_head s) \<subseteq> used_mem (segment_head s') \<and> live s \<subseteq> live s'"

lemma mmu_keeps_refl: "seg_inv a b s \<Longrightarrow> mmu_keeps a b s s"
  by (simp add: mmu_keeps_def)

lemma mmu_keeps_trans: "mmu_keeps a b s t \<Longrightarrow> mmu_keeps a b t u \<Longrightarrow> mmu_keeps a b s u"
  by (auto simp: mmu_keeps_def)

lemma pt_write_keeps:
  assumes "pt_write i j e s = Some s'" and "seg_inv a b s"
  shows "mmu_keeps a b s s'"
  using assms by (auto simp: pt_write_def mmu_keeps_def split: if_splits)

lemma install_pt_keeps:
  fixes s s' :: "'a kmmu_scheme"
  assumes ok: "install_pt_if_needed i fl s = Some (r, s')" and r: "r \<noteq> 0" and inv: "seg_inv a b s"
  shows "mmu_keeps a b s s'"
proof (cases "present (pd_read i s)")
  case True
  with ok inv show ?thesis by (simp add: install_pt_if_needed_def mmu_keeps_def)
next
  case False
  obtain phy t where al: "segment_alloc_address 1 s = Some (phy, t)"
    using ok False by (cases "segment_alloc_address 1 s") (auto simp: install_pt_if_needed_def)
  have phy: "phy \<noteq> 0" using ok r al False by (auto simp: install_pt_if_needed_def)
  let ?t = "pd_write i (phy OR fl) t"
  have s': "s' = zero_page (frame (pd_read i ?t)) ?t"
    using ok al False phy by (cases "present (pd_read i ?t)") (simp_all add: install_pt_if_needed_def Let_def)
  obtain seg t' where sa': "segment_alloc 1 s = Some (seg, t')"
    using al by (cases "segment_alloc 1 s") (auto simp: segment_alloc_address_def)
  then have sa: "segment_alloc 1 s = Some (seg, t)" "seg \<noteq> NULL"
    using al phy by (cases "seg = NULL"; cases "map_of (segment_head t') seg"; simp add: segment_alloc_address_def)+
  note cs = segment_alloc_address_cases [OF inv al]
  note so = segs_only_kmmu [OF segment_alloc_address_segs_only [OF al]]
  have "used_mem (segment_head s) \<subseteq> used_mem (segment_head t)" using cs(2) [OF phy] by (auto simp: takes_def)
  with cs(1) so segment_alloc_live [OF inv sa] show ?thesis by (simp add: s' mmu_keeps_def zero_page_def pd_write_def)
qed

lemma map_pages_keeps:
  assumes "map_pages n as i j vaddr paddr sz fl s = Some (r, s')" and "r \<noteq> 0" and "seg_inv a b s"
  shows "mmu_keeps a b s s'"
  using assms
proof (induction n arbitrary: i j vaddr paddr s)
  case 0
  from 0(1) show ?case by simp
next
  case (Suc n)
  from Suc.prems(1) obtain t where t: "pt_write i j (paddr OR fl) s = Some t"
    by (cases "pt_write i j (paddr OR fl) s") auto
  note kt = pt_write_keeps [OF t Suc.prems(3)]
  then have it: "seg_inv a b t" by (simp add: mmu_keeps_def)
  consider "n = 0" | "n \<noteq> 0" "j + 1 > 1023" | "n \<noteq> 0" "\<not> j + 1 > 1023" by blast
  then show ?case
  proof cases
    case 1
    with Suc.prems(1) t kt show ?thesis by simp
  next
    case 2
    with Suc.prems(1, 2) t obtain ok u where u: "install_pt_if_needed (i + 1) fl t = Some (ok, u)" "ok \<noteq> 0"
      "map_pages n as (i + 1) 0 (vaddr + PAGE_SIZE) (paddr + PAGE_SIZE) sz fl u = Some (r, s')"
      by (auto simp: Let_def simp del: not_less elim!: bind_pairE split: if_splits)
    note ku = install_pt_keeps [OF u(1, 2) it]
    then have "seg_inv a b u" by (simp add: mmu_keeps_def)
    from Suc.IH [OF u(3) Suc.prems(2) this] kt ku show ?thesis by (blast intro: mmu_keeps_trans)
  next
    case 3
    then have "map_pages n as i (j + 1) (vaddr + PAGE_SIZE) (paddr + PAGE_SIZE) sz fl t = Some (r, s')"
      using Suc.prems(1) t by (simp add: Let_def)
    from Suc.IH [OF this Suc.prems(2) it] kt show ?thesis by (blast intro: mmu_keeps_trans)
  qed
qed

text \<open>The state with the page directory that is current while the code works on \<open>as\<close>.\<close>

definition as_view :: "ptr \<Rightarrow> 'a kmmu_scheme \<Rightarrow> 'a kmmu_scheme" where
  "as_view as s = (if as = kernel_as s \<or> running_as s = Some as then s
     else case spaces s as of None \<Rightarrow> s | Some A \<Rightarrow> s\<lparr>cpu_cr3 := as_cr3 A\<rparr>)"

lemma in_space_keeps:
  fixes s s' :: "'a kmmu_scheme"
  assumes ok: "in_space as f s = Some (r, s')"
    and f: "\<And>t. f (as_view as s) = Some (r, t) \<Longrightarrow> mmu_keeps a b (as_view as s) t"
  shows "mmu_keeps a b s s' \<and> f (as_view as s) = Some (r, as_view as s')"
proof (cases "as = kernel_as s \<or> running_as s = Some as")
  case True
  then have v: "as_view as s = s" "f s = Some (r, s')" using ok by (simp_all add: in_space_def as_view_def)
  with f have k: "mmu_keeps a b s s'" by simp
  moreover from k True have "as_view as s' = s'" by (simp add: as_view_def mmu_keeps_def)
  ultimately show ?thesis using v by simp
next
  case False
  obtain A where A: "spaces s as = Some A"
    using ok False by (cases "spaces s as") (auto simp: in_space_def)
  have v: "as_view as s = s\<lparr>cpu_cr3 := as_cr3 A\<rparr>" using A False by (simp add: as_view_def)
  obtain t where t: "f (s\<lparr>cpu_cr3 := as_cr3 A\<rparr>) = Some (r, t)" "s' = t\<lparr>cpu_cr3 := cpu_cr3 s\<rparr>"
    using ok False A by (cases "f (s\<lparr>cpu_cr3 := as_cr3 A\<rparr>)") (auto simp: in_space_def Let_def)
  with f v have k: "mmu_keeps a b (s\<lparr>cpu_cr3 := as_cr3 A\<rparr>) t" by simp
  then have "t\<lparr>cpu_cr3 := as_cr3 A\<rparr> = t" by (simp add: mmu_keeps_def)
  then have "as_view as s' = t" using k False A t(2) by (simp add: as_view_def mmu_keeps_def)
  with k t v show ?thesis by (simp add: mmu_keeps_def)
qed

definition mmu_trans :: "ptr \<Rightarrow> 'a kmmu_scheme \<Rightarrow> u32 \<Rightarrow> u32 option" where
  "mmu_trans as s va = pte (pd_of va) (pt_of va) (as_view as s)"

definition mmu_entry :: "u32 \<Rightarrow> u32 \<Rightarrow> u32" where
  "mmu_entry p fl = p OR as_to_mmu_flags fl"

lemma map_mirror_correct:
  fixes s s' :: "'a kmmu_scheme"
  assumes ok: "map_mirror as v p sz fl s = Some (r, s')" and r: "r \<noteq> 0"
    and inv: "seg_inv a b s" and tab: "tables_ok s"
    and v: "4096 dvd unat v" and sz: "4096 dvd unat sz" "sz \<noteq> 0" and rng: "unat v + unat sz \<le> 0xFFC00000"
  shows "mmu_keeps a b s s' \<and> tables_ok s' \<and> (\<forall>va. 4096 dvd unat va \<longrightarrow> unat va < 0xFFC00000 \<longrightarrow>
      pte (pd_of va) (pt_of va) s' =
        (if v \<le> va \<and> va - v < sz then Some (mmu_entry (p + (va - v)) fl) else pte (pd_of va) (pt_of va) s))"
proof -
  let ?fl = "as_to_mmu_flags fl"
  let ?n = "unat (sz div PAGE_SIZE)"
  have n: "?n * 4096 = unat sz" "0 < unat sz" using pages_of_aligned [OF sz(1)] sz(2) by (simp_all add: unat_gt_0)
  then have rounds: "page_rounds sz = ?n" by (auto simp: page_rounds_def Let_def)
  obtain q t where t: "install_pt_if_needed (pd_of v) ?fl s = Some (q, t)"
    using ok by (cases "install_pt_if_needed (pd_of v) ?fl s") (auto simp: map_mirror_def Let_def)
  have q: "q \<noteq> 0" using ok t r by (auto simp: map_mirror_def Let_def)
  then have mp: "map_pages ?n as (pd_of v) (pt_of v) v p sz ?fl t = Some (r, s')"
    using ok t rounds by (simp add: map_mirror_def Let_def)
  have small: "pd_of x < 1023" "pt_of x < 1024" if "unat x < 0xFFC00000" for x
    using that by (simp_all add: word_less_nat_alt unat_idx)
  have vlt: "unat v < 0xFFC00000" using rng n(2) by simp
  have "vpn (pd_of v) (pt_of v) + ?n \<le> 1023 * 1024"
    using rng n v unfolding vpn_of by (auto elim!: dvdE)
  note m1 = install_pt_correct [OF inv tab small(1) [OF vlt] flags_ok(2, 1) t q]
  then have "seg_inv a b t" "tables_ok t" "present (pd_read (pd_of v) t)" by simp_all
  note m2 = map_pages_correct [OF mp r this small(1, 2) [OF vlt] \<open>vpn _ _ + _ \<le> _\<close> flags_ok(2, 1)]
  have "mmu_keeps a b s s'"
    using install_pt_keeps [OF t q inv] map_pages_keeps [OF mp r \<open>seg_inv a b t\<close>] by (rule mmu_keeps_trans)
  moreover have "pte (pd_of va) (pt_of va) s' =
        (if v \<le> va \<and> va - v < sz then Some (mmu_entry (p + (va - v)) fl) else pte (pd_of va) (pt_of va) s)"
    if va: "4096 dvd unat va" "unat va < 0xFFC00000" for va
    using m1 m2 small [OF va(2)] mapped_pte_addr [OF v va(1) sz(1), of p ?fl t] by (simp add: mmu_entry_def)
  ultimately show ?thesis using m2 by simp
qed

lemma mmu_map_law:
  fixes s s' :: "'a kmmu_scheme"
  assumes ok: "mmu_map as v p sz fl s = Some (r, s')" and r: "r \<noteq> 0"
    and inv: "seg_inv a b s" and tab: "tables_ok (as_view as s)"
    and v: "4096 dvd unat v" and sz: "4096 dvd unat sz" "sz \<noteq> 0" and rng: "unat v + unat sz \<le> 0xFFC00000"
  shows "mmu_keeps a b s s' \<and> tables_ok (as_view as s') \<and> (\<forall>va. 4096 dvd unat va \<longrightarrow> unat va < 0xFFC00000 \<longrightarrow>
      mmu_trans as s' va = (if v \<le> va \<and> va - v < sz then Some (mmu_entry (p + (va - v)) fl) else mmu_trans as s va))"
proof -
  have "seg_inv a b (as_view as s)" using inv by (simp add: as_view_def split: option.split)
  note mm = map_mirror_correct [OF _ r this tab v sz rng]
  have "mmu_keeps a b s s' \<and> map_mirror as v p sz fl (as_view as s) = Some (r, as_view as s')"
    using mm by (intro in_space_keeps [OF ok [unfolded mmu_map_def]]) blast
  with mm [of as p fl "as_view as s'"] show ?thesis by (simp add: mmu_trans_def)
qed

lemma grows_view:
  fixes s s' :: "'a kmmu_scheme"
  assumes "grows as s s'"
  shows "phys (as_view as s') = phys (as_view as s)" and "cpu_cr3 (as_view as s') = cpu_cr3 (as_view as s)"
    and "segment_head (as_view as s) = segment_head s" and "segment_head (as_view as s') = segment_head s'"
proof -
  have "phys s' = phys s" "cpu_cr3 s' = cpu_cr3 s" "running_as s' = running_as s" "kernel_as s' = kernel_as s"
    "map_option as_cr3 (spaces s' as) = map_option as_cr3 (spaces s as)"
    using assms by (cases s; cases s'; simp add: grows_def)+
  then show "phys (as_view as s') = phys (as_view as s)" and "cpu_cr3 (as_view as s') = cpu_cr3 (as_view as s)"
    and "segment_head (as_view as s) = segment_head s" and "segment_head (as_view as s') = segment_head s'"
    by (auto simp: as_view_def split: option.splits)
qed

lemma grows_pte:
  fixes s s' :: "'a kmmu_scheme"
  assumes "grows as s s'"
  shows "pd_read i (as_view as s') = pd_read i (as_view as s)" and "pte i j (as_view as s') = pte i j (as_view as s)"
  using grows_view [OF assms] by (simp_all add: pd_read_def pte_def pt_read_def)

interpretation i386: as_arch as_glue_dispatcher "\<lambda>as s. tables_ok (as_view as s)" mmu_trans mmu_entry "0xFFC00000"
proof unfold_locales
  fix as v p sz fl r a b va and s s' :: "'a kmmu_scheme"
  show "tables_ok (as_view as s')" if "grows as s s'" "tables_ok (as_view as s)"
    using that grows_view [OF that(1)] grows_pte [OF that(1)] unfolding tables_ok_def grows_def by auto
  show "mmu_trans as s' va = mmu_trans as s va" if "grows as s s'"
    using grows_pte [OF that] by (simp add: mmu_trans_def)
  assume "glue_map as_glue_dispatcher as v p sz fl s = Some (r, s')" "r \<noteq> 0" "seg_inv a b s" "tables_ok (as_view as s)"
    "4096 dvd unat v" "4096 dvd unat sz" "sz \<noteq> 0" "unat v + unat sz \<le> 0xFFC00000"
  then show "seg_inv a b s' \<and> tables_ok (as_view as s') \<and> spaces s' = spaces s \<and> kernel_as s' = kernel_as s
        \<and> used_mem (segment_head s) \<subseteq> used_mem (segment_head s') \<and> live s \<subseteq> live s'
        \<and> (\<forall>va. 4096 dvd unat va \<longrightarrow> unat va < 0xFFC00000 \<longrightarrow> mmu_trans as s' va =
             (if v \<le> va \<and> va - v < sz then Some (mmu_entry (p + (va - v)) fl) else mmu_trans as s va))"
    using mmu_map_law [of as v p sz fl s r s' a b] by (simp add: as_glue_dispatcher_def mmu_keeps_def)
qed simp

section \<open>Fresh memory\<close>

text \<open>
  C2. Mapping memory with no address given is correct down to the page tables. If \<^verbatim>\<open>as_map\<close>
  succeeds, the virtual pages it chose lay in the range of the address space, were not reserved
  before and are reserved now; the physical pages were free and are now in use; the new mapping
  heads the list of the address space and no other address space changed. In the page tables of
  this address space every chosen page translates to its physical page with the requested flags,
  and the translation of every other page is unchanged. All invariants still hold.
\<close>
theorem as_map_gives_fresh_memory:
  fixes s s' :: "'a kmmu_scheme"
  assumes "seg_inv a b s" and "space_inv a b as A s" and "tables_ok (as_view as s)"
    and "align sz PAGE_SIZE \<noteq> 0" and "region_mem (regions A) \<subseteq> {..<0xFFC00000}"
    and "as_map as_glue_dispatcher as 0 0 sz fl s = Some (v, s')" and "v \<noteq> 0"
  shows "\<exists>A' mp phy base. seg_inv a b s' \<and> space_inv a b as A' s' \<and> tables_ok (as_view as s')
    \<and> (\<forall>q. q \<noteq> as \<longrightarrow> spaces s' q = spaces s q)
    \<and> mapping A' = (mp, \<lparr>map_virt = v, map_phy = phy, map_size = align sz PAGE_SIZE, map_flags = fl\<rparr>) # mapping A
    \<and> span v (align sz PAGE_SIZE div PAGE_SIZE) \<subseteq> region_mem (regions A) - mapped_mem (regions A)
    \<and> mapped_mem (regions A') = mapped_mem (regions A) \<union> span v (align sz PAGE_SIZE div PAGE_SIZE)
    \<and> span base (align sz PAGE_SIZE div PAGE_SIZE) \<subseteq> free_mem (segment_head s)
    \<and> used_mem (segment_head s) \<union> span base (align sz PAGE_SIZE div PAGE_SIZE) \<subseteq> used_mem (segment_head s')
    \<and> (\<forall>va. 4096 dvd unat va \<longrightarrow> unat va < 0xFFC00000 \<longrightarrow>
         mmu_trans as s' va = (if v \<le> va \<and> va - v < align sz PAGE_SIZE then Some (mmu_entry (base + (va - v)) fl)
                               else mmu_trans as s va))"
  using assms by (rule i386.as_map_fresh)

definition mmu_example_as :: as where
  "mmu_example_as = \<lparr>region_lock = False,
     regions = [(0x1014, \<lparr>reg_base = 0x1000, reg_page_size = 16, reg_mapped = False\<rparr>)],
     map_lock = False, mapping = [], as_cr3 = 0x100000\<rparr>"

definition mmu_example :: kmmu where
  "mmu_example = \<lparr>kmalloc_lock = False,
     kmalloc_head = [(0x1000, \<lparr>blk_ptr = 0x1014, blk_size = 20, blk_free = False\<rparr>),
                     (0x1028, \<lparr>blk_ptr = 0x103C, blk_size = 20, blk_free = False\<rparr>),
                     (0x1050, \<lparr>blk_ptr = 0x1064, blk_size = 20, blk_free = False\<rparr>),
                     (0x1078, \<lparr>blk_ptr = 0x108C, blk_size = 0xF74, blk_free = True\<rparr>)],
     kbytes = (\<lambda>_. 0), segment_lock = False,
     segment_head = [(0x103C, \<lparr>seg_base = 0x100000, seg_page_size = 2, seg_flags = 0, seg_ref_count = 1\<rparr>),
                     (0x1064, \<lparr>seg_base = 0x200000, seg_page_size = 16, seg_flags = 0, seg_ref_count = 0\<rparr>)],
     spaces = [0x9000 \<mapsto> mmu_example_as], kernel_as = 0x8000,
     phys = (\<lambda>_. 0)(0x100000 := 0x101007), cpu_cr3 = 0x100000, running_as = Some 0x9000\<rparr>"

lemma mmu_example_invs:
  "seg_inv 0x1000 0x2000 mmu_example" "space_inv 0x1000 0x2000 0x9000 mmu_example_as mmu_example"
  "tables_ok (as_view 0x9000 mmu_example)" "region_mem (regions mmu_example_as) = {0x1000..<0x11000}"
proof -
  have h: "heap_inv 0x1000 0x2000 mmu_example" by (simp add: heap_inv_def mmu_example_def sizeof_blk_def)
  have l: "live mmu_example = {0x1014, 0x103C, 0x1064}" by (auto simp: live_def mmu_example_def)
  show "seg_inv 0x1000 0x2000 mmu_example"
    using h l by (simp add: seg_inv_def segs_ok_def seg_ok_def fits_def) (simp add: mmu_example_def span_def)
  have sp: "spaces mmu_example 0x9000 = Some mmu_example_as" by (simp add: mmu_example_def)
  have r: "\<not> region_lock mmu_example_as"
    "regions mmu_example_as = [(0x1014, \<lparr>reg_base = 0x1000, reg_page_size = 16, reg_mapped = False\<rparr>)]"
    by (simp_all add: mmu_example_as_def)
  have "4096 dvd (65536 + 4096 :: nat)" by simp
  then show "space_inv 0x1000 0x2000 0x9000 mmu_example_as mmu_example"
    using h l sp r by (auto simp: space_inv_def regs_ok_def)
  show "region_mem (regions mmu_example_as) = {0x1000..<0x11000}" by (auto simp: mmu_example_as_def span_def)
  have v: "as_view 0x9000 mmu_example = mmu_example" by (simp add: as_view_def mmu_example_def)
  have pd: "pd_read k mmu_example = (if k = 0 then 0x101007 else 0)" if "k < 1023" for k
    using that word_addr_eq_iff [of "0x100000" "0x100000" k 0]
    by (simp add: pd_read_def mmu_example_def word_less_nat_alt)
  have u: "used_mem (segment_head mmu_example) = span 0x100000 2" "cpu_cr3 mmu_example = 0x100000"
    by (simp_all add: mmu_example_def)
  have "tables_ok mmu_example"
    unfolding tables_ok_def u using pd by (auto simp: present_def mmu_consts frame_def split: if_splits)
  then show "tables_ok (as_view 0x9000 mmu_example)" by (simp add: v)
qed

theorem as_map_gives_fresh_memory_witness:
  "\<exists>s'. as_map as_glue_dispatcher 0x9000 0 0 0x1800 AS_MAP_WRITE mmu_example = Some (0x1000, s')
     \<and> (\<exists>base. span base 2 \<subseteq> span 0x200000 16
          \<and> mmu_trans 0x9000 s' 0x1000 = Some (mmu_entry base AS_MAP_WRITE)
          \<and> mmu_trans 0x9000 s' 0x2000 = Some (mmu_entry (base + 0x1000) AS_MAP_WRITE))"
proof -
  have "map_option fst (as_map as_glue_dispatcher 0x9000 0 0 0x1800 AS_MAP_WRITE mmu_example) = Some 0x1000"
    by code_simp
  then obtain s' where s': "as_map as_glue_dispatcher 0x9000 0 0 0x1800 AS_MAP_WRITE mmu_example = Some (0x1000, s')"
    by auto
  have al: "align 0x1800 PAGE_SIZE = 0x2000" by (simp add: align_def PAGE_SIZE_def)
  have f: "free_mem (segment_head mmu_example) = span 0x200000 16" by (simp add: mmu_example_def)
  have hyp: "align 0x1800 PAGE_SIZE \<noteq> 0" "region_mem (regions mmu_example_as) \<subseteq> {..<0xFFC00000}" "(0x1000 :: u32) \<noteq> 0"
    unfolding al mmu_example_invs(4) by auto
  from as_map_gives_fresh_memory [OF mmu_example_invs(1-3) hyp(1, 2) s' hyp(3)] obtain base where
    "span base (0x2000 div PAGE_SIZE) \<subseteq> free_mem (segment_head mmu_example)"
    "\<forall>va. 4096 dvd unat va \<longrightarrow> unat va < 0xFFC00000 \<longrightarrow> mmu_trans 0x9000 s' va =
       (if 0x1000 \<le> va \<and> va - 0x1000 < 0x2000 then Some (mmu_entry (base + (va - 0x1000)) AS_MAP_WRITE)
        else mmu_trans 0x9000 mmu_example va)"
    unfolding al by blast
  note b = this
  have "span base 2 \<subseteq> span 0x200000 16" using b(1) f by (simp add: PAGE_SIZE_def)
  moreover have "mmu_trans 0x9000 s' 0x1000 = Some (mmu_entry base AS_MAP_WRITE)" using b(2) by simp
  moreover have "mmu_trans 0x9000 s' 0x2000 = Some (mmu_entry (base + 0x1000) AS_MAP_WRITE)" using b(2) by simp
  ultimately show ?thesis using s' by (intro exI [of _ s'] conjI exI [of _ base])
qed

section \<open>Frame\<close>

text \<open>Memory operations do not touch what later layers add to the state.\<close>

definition mem_only :: "'a kmmu_scheme \<Rightarrow> 'a kmmu_scheme \<Rightarrow> bool" where
  "mem_only s s' \<longleftrightarrow> kmmu.more s' = kmmu.more s"

named_theorems mem_frame

lemma mem_only_simps [simp]:
  "mem_only s s" "mem_only s (as_upd p f s') = mem_only s s'" "mem_only (as_upd p f s) s' = mem_only s s'"
  "mem_only s (s'\<lparr>phys := m\<rparr>) = mem_only s s'" "mem_only s (s'\<lparr>cpu_cr3 := c\<rparr>) = mem_only s s'"
  "mem_only (s\<lparr>cpu_cr3 := c\<rparr>) s' = mem_only s s'" "mem_only s (s'\<lparr>spaces := sp\<rparr>) = mem_only s s'"
  "mem_only (s\<lparr>spaces := sp\<rparr>) s' = mem_only s s'"
  "mem_only s (s'\<lparr>segment_head := h\<rparr>) = mem_only s s'" "mem_only (s\<lparr>segment_head := h\<rparr>) s' = mem_only s s'"
  by (simp_all add: mem_only_def as_upd_def)

lemma mem_only_trans: "mem_only s t \<Longrightarrow> mem_only t u \<Longrightarrow> mem_only s u"
  by (simp add: mem_only_def)

lemma heap_mem_only: "heap_only s s' \<Longrightarrow> mem_only s s'"
proof -
  assume "heap_only s s'"
  then obtain h where "s' = s\<lparr>kmalloc_head := h\<rparr>" by (rule heap_onlyE)
  then show ?thesis by (simp add: mem_only_def)
qed

lemma segs_mem_only: "segs_only s s' \<Longrightarrow> mem_only s s'"
  by (cases s; cases s') (simp add: segs_only_def mem_only_def)

lemmas mem_frame_base [mem_frame] =
  heap_mem_only [OF kmalloc_heap_only] heap_mem_only [OF kfree_heap_only]
  segs_mem_only [OF segment_alloc_segs_only] segs_mem_only [OF segment_alloc_address_segs_only]
  segs_mem_only [OF segment_locate_segs_only] segs_mem_only [OF segment_release_segs_only]
  segs_mem_only [OF segment_free_segs_only]

lemma for_each_mem_only:
  assumes "for_each body xs s = Some s'" and "\<And>x s t. x \<in> set xs \<Longrightarrow> body x s = Some t \<Longrightarrow> mem_only s t"
  shows "mem_only s s'"
  by (rule for_each_inv [OF assms(1), of "mem_only s"]) (auto intro: mem_only_trans dest: assms(2))

lemma region_split_mem_only: "region_split r a n rs s = Some (rs', s') \<Longrightarrow> mem_only s s'"
  unfolding region_split_def Let_def
  by (elim bind_SomeE) (auto elim!: bind_pairE split: if_splits dest!: mem_frame_base(1) intro: mem_only_trans)

lemma region_merge_mem_only:
  assumes "region_merge r rs s = Some (rs', s')"
  shows "mem_only s s'"
proof -
  have prv: "mem_only s t" if "region_merge_prev r rs s = Some (rs', t)" for rs rs' and s t :: "'a kmmu_scheme"
    using that unfolding region_merge_prev_def Let_def
    by (auto elim!: bind_SomeE split: option.splits if_splits dest!: mem_frame_base(2))
  have nxt: "mem_only s t" if "region_merge_next r rs s = Some (rs', t)" for rs rs' and s t :: "'a kmmu_scheme"
    using that unfolding region_merge_next_def Let_def
    by (auto elim!: bind_SomeE split: option.splits if_splits dest!: mem_frame_base(2))
  from assms show ?thesis
    unfolding region_merge_def by (elim bind_pairE) (auto dest!: prv nxt intro: mem_only_trans)
qed

lemma region_release_mem_only [mem_frame]: "region_release as addr s = Some s' \<Longrightarrow> mem_only s s'"
  unfolding region_release_def Let_def
  by (elim bind_SomeE) (auto split: option.splits elim!: bind_pairE dest!: region_merge_mem_only)

lemma region_reserve_mem_only [mem_frame]: "region_reserve as addr n s = Some (v, s') \<Longrightarrow> mem_only s s'"
  unfolding region_reserve_def Let_def
  by (elim bind_SomeE) (auto split: option.splits if_splits elim!: bind_pairE dest!: region_split_mem_only)

lemma vwrite_mem_only [mem_frame]: "vwrite v x s = Some s' \<Longrightarrow> mem_only s s'"
  by (auto simp: vwrite_def)

lemma pt_write_mem_only [mem_frame]: "pt_write i j e s = Some s' \<Longrightarrow> mem_only s s'"
  by (auto simp: pt_write_def split: if_splits)

lemma pd_zero_mem_only [simp]: "mem_only s (pd_write i e s') = mem_only s s'" "mem_only s (zero_page p s') = mem_only s s'"
  by (simp_all add: pd_write_def zero_page_def)

lemma install_pt_mem_only [mem_frame]: "install_pt_if_needed i fl s = Some (r, s') \<Longrightarrow> mem_only s s'"
  unfolding install_pt_if_needed_def Let_def
  by (auto split: if_splits elim!: bind_pairE dest!: mem_frame_base(4))

lemma clean_mem_only: "clean_if_needed i s = Some s' \<Longrightarrow> mem_only s s'"
  unfolding clean_if_needed_def Let_def
  by (auto split: if_splits elim!: bind_SomeE dest!: mem_frame_base(7))

lemma unmap_pages_mem_only: "unmap_pages n as i j s = Some s' \<Longrightarrow> mem_only s s'"
proof (induction n arbitrary: i j s)
  case (Suc n)
  from Suc.prems obtain t where t: "pt_write i j 0 s = Some t" by (cases "pt_write i j 0 s") auto
  have cl: "mem_only t u" if "(if as \<noteq> kernel_as t then clean_if_needed i t else Some t) = Some u" for u
    using that clean_mem_only [of i t u] by (auto split: if_splits)
  have "mem_only t s'"
    using Suc.prems t Suc.IH cl by (auto split: if_splits elim!: bind_SomeE intro: mem_only_trans)
  then show ?case using pt_write_mem_only [OF t] by (blast intro: mem_only_trans)
qed simp

lemma in_space_mem_only:
  assumes "in_space as f s = Some (r, s')" and "\<And>s t r. f s = Some (r, t) \<Longrightarrow> mem_only s t"
  shows "mem_only s s'"
  using assms(1) unfolding in_space_def Let_def
  by (auto split: if_splits elim!: bind_SomeE bind_pairE dest!: assms(2))

lemma mmu_unmap_mem_only [mem_frame]: "mmu_unmap as v sz s = Some (r, s') \<Longrightarrow> mem_only s s'"
  unfolding mmu_unmap_def
  by (erule in_space_mem_only) (auto simp: unmap_mirror_def elim!: bind_SomeE dest!: unmap_pages_mem_only)

lemma map_pages_mem_only: "map_pages n as i j v p sz fl s = Some (r, s') \<Longrightarrow> mem_only s s'"
proof (induction n arbitrary: i j v p s)
  case (Suc n)
  from Suc.prems obtain t where t: "pt_write i j (p OR fl) s = Some t" by (cases "pt_write i j (p OR fl) s") auto
  have "mem_only t s'"
    using Suc.prems t Suc.IH
    by (auto simp: Let_def split: if_splits elim!: bind_pairE dest!: mmu_unmap_mem_only install_pt_mem_only intro: mem_only_trans)
  then show ?case using pt_write_mem_only [OF t] by (blast intro: mem_only_trans)
qed simp

lemma mmu_map_mem_only [mem_frame]: "mmu_map as v p sz fl s = Some (r, s') \<Longrightarrow> mem_only s s'"
  unfolding mmu_map_def
  by (erule in_space_mem_only)
     (auto simp: map_mirror_def Let_def split: if_splits elim!: bind_pairE
       dest!: install_pt_mem_only map_pages_mem_only intro: mem_only_trans)

lemma as_mapping_locate_mem_only [mem_frame]: "as_mapping_locate as v s = Some (r, s') \<Longrightarrow> mem_only s s'"
  unfolding as_mapping_locate_def Let_def by (auto elim!: bind_SomeE)

lemma setup_mapping_mem_only:
  assumes "setup_mapping as v p sz fl s = Some (r, s')"
  shows "mem_only s s'"
proof -
  have obj: "mem_only s t" if "setup_mapping_object as v sz fl s = Some (r, t)" for r and s t :: "'a kmmu_scheme"
    using that unfolding setup_mapping_object_def Let_def
    by (auto split: if_splits elim!: bind_SomeE bind_pairE dest!: mem_frame; simp add: mem_only_def)
  have undo: "mem_only s t" if "setup_mapping_undo as v q m s = Some (r, t)" for q m r and s t :: "'a kmmu_scheme"
    using that unfolding setup_mapping_undo_def
    by (auto split: if_splits elim!: bind_SomeE dest!: mem_frame; simp add: mem_only_def)
  from assms obtain ob t where t: "setup_mapping_object as v sz fl s = Some (ob, t)"
    by (cases "setup_mapping_object as v sz fl s") (auto simp: setup_mapping_def)
  have "mem_only t s'"
    using assms t unfolding setup_mapping_def Let_def
    by (auto split: option.splits if_splits elim!: bind_SomeE bind_pairE dest!: mem_frame undo; simp add: mem_only_def)
  then show ?thesis using obj [OF t] by (blast intro: mem_only_trans)
qed

lemma as_map_mem_only:
  assumes ok: "as_map G as v p sz fl s = Some (r, s')" and G: "glue_map G = mmu_map"
  shows "mem_only s s'"
proof (cases "sz = 0")
  case False
  let ?st = "setup_mapping as (align v PAGE_SIZE) (align p PAGE_SIZE) (align sz PAGE_SIZE) fl s"
  obtain ob t where t: "?st = Some (ob, t)"
    using ok False by (cases ?st) (auto simp: as_map_def Let_def)
  have "mem_only t s'"
    using ok False t G unfolding as_map_def Let_def
    by (auto split: option.splits if_splits elim!: bind_SomeE bind_pairE dest!: mem_frame; simp add: mem_only_def)
  then show ?thesis using setup_mapping_mem_only [OF t] by (blast intro: mem_only_trans)
qed (use ok in \<open>simp add: as_map_def\<close>)

lemma as_unmap_mem_only:
  assumes ok: "as_unmap G as v fl s = Some s'" and G: "glue_unmap G = mmu_unmap"
  shows "mem_only s s'"
  using ok G unfolding as_unmap_def Let_def
  by (auto split: option.splits if_splits elim!: bind_SomeE bind_pairE dest!: mem_frame; simp add: mem_only_def)

lemma mmu_remove_cr3_mem_only: "mmu_remove_cr3 as s = Some s' \<Longrightarrow> mem_only s s'"
proof -
  assume "mmu_remove_cr3 as s = Some s'"
  then show ?thesis
    unfolding mmu_remove_cr3_def
    by (auto split: if_splits elim!: bind_SomeE bind_pairE
        dest!: mem_frame as_map_mem_only as_unmap_mem_only for_each_mem_only simp: mmu_map_glue_def;
        simp add: mem_only_def)
qed

lemma as_destroy_mem_only:
  fixes s s' :: "'a kmmu_scheme"
  assumes ok: "as_destroy as_glue_dispatcher as s = Some s'"
  shows "mem_only s s'"
proof -
  have dst: "mem_only s t" if "i386_pc_as_destroy as s = Some (r, t)" for r and s t :: "'a kmmu_scheme"
    using that by (auto simp: i386_pc_as_destroy_def split: if_splits elim!: bind_SomeE dest!: mmu_remove_cr3_mem_only)
  have maps: "mem_only s t"
    if "for_each (\<lambda>(mp, m) s. do {
            s \<leftarrow> segment_release (map_phy m) s;
            kfree mp (as_upd as (\<lambda>A. A\<lparr>mapping := klist_remove mp (mapping A)\<rparr>) s) }) ms s = Some t" for ms and s t :: "'a kmmu_scheme"
    using that
    by (rule for_each_mem_only) (auto simp: Let_def elim!: bind_SomeE dest!: mem_frame; simp add: mem_only_def)
  have regs: "mem_only s t"
    if "for_each (\<lambda>(reg, _) s. kfree reg (as_upd as (\<lambda>A. A\<lparr>regions := klist_remove reg (regions A)\<rparr>) s)) rs s = Some t" for rs :: "(ptr \<times> region) list" and s t :: "'a kmmu_scheme"
    using that
    by (rule for_each_mem_only) (auto simp: Let_def dest!: mem_frame)
  show ?thesis
    using ok unfolding as_destroy_def as_glue_dispatcher_def Let_def
    by (auto elim!: bind_SomeE bind_pairE dest!: maps regs dst; simp add: mem_only_def)
qed

end
