(* ===== verification/Scheduler.thy ===== *)
theory Scheduler
  imports Mmu
begin

text \<open>
  Threads, processes and the scheduler: the data of \<^verbatim>\<open>include/kernel/proc\<close>, the run queue of
  \<^verbatim>\<open>kernel/core/scheduler/scheduler.c\<close>, events (\<^verbatim>\<open>event.c\<close>), timers (\<^verbatim>\<open>timer.c\<close>, \<^verbatim>\<open>time.c\<close>), the
  cpus (\<^verbatim>\<open>cpu.c\<close>), the i386 context switch and the end of threads and processes, which the
  scheduler triggers. An operation that leaves the thread for another one is modelled up to the
  state in which the other thread starts to run; code that runs after such a point takes the
  run of the rest of the system as an argument. The main results: the election terminates and
  is fair, an update elects a runnable thread, an event wakes exactly its waiters, and a timer
  fires exactly once, after the time it was set for.
\<close>

section \<open>Data\<close>

record thread_regs =
  tr_gs :: u32
  tr_fs :: u32
  tr_es :: u32
  tr_ds :: u32
  tr_edi :: u32
  tr_esi :: u32
  tr_ebp :: u32
  tr_esp0 :: u32
  tr_ebx :: u32
  tr_edx :: u32
  tr_ecx :: u32
  tr_eax :: u32
  tr_eip :: u32
  tr_cs :: u32
  tr_eflags :: u32
  tr_esp :: u32
  tr_ss :: u32

record irq_regs =
  gs :: u32
  fs :: u32
  es :: u32
  ds :: u32
  edi :: u32
  esi :: u32
  ebp :: u32
  esp :: u32
  ebx :: u32
  edx :: u32
  ecx :: u32
  eax :: u32
  irq_num :: u32
  irq_data :: u32
  eip :: u32
  cs :: u32
  eflags :: u32
  user_esp :: u32
  user_ss :: u32

record scheduler_event =
  ev_event :: int
  ev_data :: int

record thread =
  th_state :: int
  th_parent :: ptr
  th_uid :: u16
  th_gid :: u16
  th_tid :: int
  th_cpu :: int
  th_event :: scheduler_event
  th_interrupts :: "u8 list"
  th_kstack :: u32
  th_regs :: thread_regs

definition THREAD_STATE_RUNNING :: int where "THREAD_STATE_RUNNING = 1"

definition THREAD_STATE_BLOCKED :: int where "THREAD_STATE_BLOCKED = 2"

definition THREAD_STATE_ZOMBIE :: int where "THREAD_STATE_ZOMBIE = 3"

lemmas thread_states = THREAD_STATE_RUNNING_def THREAD_STATE_BLOCKED_def THREAD_STATE_ZOMBIE_def

text \<open>
  The tables of file operations of the kernel are named by a datatype; a file holds the name of its
  table, \<open>None\<close> for a null pointer. The position of a file is its process and its descriptor.
\<close>

datatype fops = ChannelSlaveFops | ChannelMasterFops | DevfsFops | FiuFops

record vfs_file =
  f_used :: bool
  f_inode :: ptr
  f_offset :: int
  f_ops :: "fops option"
  f_private :: ptr
  f_mount :: "nat option"

record process =
  pid :: int
  p_parent :: ptr
  p_state :: int
  exit_state :: int
  p_type :: u32
  p_as :: ptr
  thread_count :: u32
  plock :: bool
  files_lock :: bool
  files :: "vfs_file list"
  p_threads :: "ptr list"
  children :: "ptr list"

definition PROCESS_STATE_ALIVE :: int where "PROCESS_STATE_ALIVE = 0"

definition PROCESS_STATE_ZOMBIE :: int where "PROCESS_STATE_ZOMBIE = 1"

record scheduler =
  sc_time :: u32
  sc_running :: ptr
  sc_idle :: ptr
  sc_thread_num :: u32
  sched_lock :: bool
  sc_threads :: "ptr list"

record cpu =
  cpu_id :: int
  sched :: scheduler
  cpu_timers :: "nat list"

text \<open>The only callback that the kernel gives to a timer.\<close>

datatype timer_callback = TimerCallbackSleep

record timer_entry =
  tm_free :: bool
  tm_type :: int
  tm_value :: u32
  tm_next :: u32
  tm_callback :: "timer_callback option"
  tm_data :: int

definition TIMER_NUM :: nat where "TIMER_NUM = 255"

definition TIMER_ONESHOT :: int where "TIMER_ONESHOT = 0"

definition TIMER_PERIODIC :: int where "TIMER_PERIODIC = 1"

definition SCHEDULER_TIME :: u32 where "SCHEDULER_TIME = 10"

definition CPU_COUNT :: nat where "CPU_COUNT = 1"

definition SCHED_EV_TIMER :: int where "SCHED_EV_TIMER = 1"

definition SCHED_EV_PEXIT :: int where "SCHED_EV_PEXIT = 5"

definition SCHED_EV_PEXIT_PARENT :: int where "SCHED_EV_PEXIT_PARENT = 6"

definition SCHED_EV_SIZE :: nat where "SCHED_EV_SIZE = 6"

text \<open>
  The state of this layer. A thread lives at the top of its kernel stack page; \<open>current\<close> is the
  result of \<^verbatim>\<open>thread_current\<close>, which computes it from the stack pointer. \<open>tss_esp0\<close> is the kernel stack
  that the processor takes on an interrupt, and \<open>cpu_regs\<close> are the registers that the last switch loaded.
\<close>

record kproc = kmmu +
  threads :: "ptr \<Rightarrow> thread option"
  procs :: "ptr \<Rightarrow> process option"
  processes :: "ptr list"
  cpus :: "cpu list"
  waiting_list :: "ptr list list"
  event_lock :: bool
  ticks :: u32
  timers :: "timer_entry list"
  timer_lock :: bool
  current :: ptr
  tss_esp0 :: u32
  cpu_regs :: thread_regs

definition thread_upd :: "ptr \<Rightarrow> (thread \<Rightarrow> thread) \<Rightarrow> 'a kproc_scheme \<Rightarrow> 'a kproc_scheme" where
  "thread_upd t f s = s\<lparr>threads := (threads s)(t := map_option f (threads s t))\<rparr>"

definition proc_upd :: "ptr \<Rightarrow> (process \<Rightarrow> process) \<Rightarrow> 'a kproc_scheme \<Rightarrow> 'a kproc_scheme" where
  "proc_upd p f s = s\<lparr>procs := (procs s)(p := map_option f (procs s p))\<rparr>"

definition sched_upd :: "nat \<Rightarrow> (scheduler \<Rightarrow> scheduler) \<Rightarrow> 'a kproc_scheme \<Rightarrow> 'a kproc_scheme" where
  "sched_upd c f s = s\<lparr>cpus := (cpus s)[c := (cpus s ! c)\<lparr>sched := f (sched (cpus s ! c))\<rparr>]\<rparr>"

abbreviation scheduler_of :: "nat \<Rightarrow> 'a kproc_scheme \<Rightarrow> scheduler" where
  "scheduler_of c s \<equiv> sched (cpus s ! c)"

section \<open>Run queues\<close>

text \<open>\<^verbatim>\<open>cpu_get\<close>: the index of the first cpu with the given id; there is one cpu, with id 0.\<close>

definition cpu_get :: "int \<Rightarrow> 'a kproc_scheme \<Rightarrow> nat option" where
  "cpu_get i s = find (\<lambda>c. cpu_id (cpus s ! c) = i) [0..<length (cpus s)]"

definition cpu_id_get :: int where "cpu_id_get = 0"

definition sched_lock_acquire :: "nat \<Rightarrow> 'a kproc_scheme \<Rightarrow> 'a kproc_scheme option" where
  "sched_lock_acquire c s = do {
     l \<leftarrow> spinlock_lock (sched_lock (scheduler_of c s));
     Some (sched_upd c (\<lambda>sc. sc\<lparr>sched_lock := l\<rparr>) s)
   }"

definition sched_lock_release :: "nat \<Rightarrow> 'a kproc_scheme \<Rightarrow> 'a kproc_scheme" where
  "sched_lock_release c s = sched_upd c (\<lambda>sc. sc\<lparr>sched_lock := spinlock_unlock (sched_lock sc)\<rparr>) s"

definition scheduler_event_initialize :: "'a kproc_scheme \<Rightarrow> 'a kproc_scheme" where
  "scheduler_event_initialize s = s\<lparr>event_lock := spinlock_init, waiting_list := replicate SCHED_EV_SIZE []\<rparr>"

definition scheduler_initialize :: "nat \<Rightarrow> 'a kproc_scheme \<Rightarrow> 'a kproc_scheme" where
  "scheduler_initialize c s =
     scheduler_event_initialize
       (sched_upd c (\<lambda>sc. sc\<lparr>sc_time := 0, sc_running := NULL, sc_thread_num := 0,
                           sched_lock := spinlock_init, sc_threads := []\<rparr>) s)"

text \<open>
  Linking a node that is already linked corrupts the list: this is \<open>None\<close> here.
\<close>

definition scheduler_add_thread :: "nat \<Rightarrow> ptr \<Rightarrow> 'a kproc_scheme \<Rightarrow> 'a kproc_scheme option" where
  "scheduler_add_thread c t s = do {
     s \<leftarrow> sched_lock_acquire c s;
     let s = sched_upd c (\<lambda>sc. sc\<lparr>sc_thread_num := sc_thread_num sc + 1\<rparr>) s;
     s \<leftarrow> (if t \<in> set (sc_threads (scheduler_of c s)) then None
           else Some (sched_upd c (\<lambda>sc. sc\<lparr>sc_threads := sc_threads sc @ [t]\<rparr>) s));
     let sc = scheduler_of c s;
     let s = (if sc_running sc \<noteq> NULL \<and> sc_running sc = sc_idle sc
              then sched_upd c (\<lambda>sc. sc\<lparr>sc_time := 1\<rparr>) s else s);
     Some (sched_lock_release c s)
   }"

text \<open>The loop of \<^verbatim>\<open>cpu_add_thread\<close> compares every cpu with the first one.\<close>

definition cpu_add_thread :: "ptr \<Rightarrow> 'a kproc_scheme \<Rightarrow> 'a kproc_scheme option" where
  "cpu_add_thread t s =
     (if cpus s = [] \<or> threads s t = None then None
      else (let num = sc_thread_num (scheduler_of 0 s);
                c = fold (\<lambda>i c. if sc_thread_num (scheduler_of i s) < num then i else c) [1..<length (cpus s)] 0;
                s = thread_upd t (\<lambda>th. th\<lparr>th_cpu := cpu_id (cpus s ! c)\<rparr>) s
            in scheduler_add_thread c t s))"

definition thread_unblock :: "ptr \<Rightarrow> 'a kproc_scheme \<Rightarrow> 'a kproc_scheme option" where
  "thread_unblock t s = cpu_add_thread t (thread_upd t (\<lambda>th. th\<lparr>th_state := THREAD_STATE_RUNNING\<rparr>) s)"

section \<open>Events\<close>

text \<open>The lists of waiting threads are linked through \<^verbatim>\<open>block\<close>; event \<open>e\<close> has list \<open>e - 1\<close>.\<close>

definition scheduler_event_notify :: "int \<Rightarrow> int \<Rightarrow> 'a kproc_scheme \<Rightarrow> 'a kproc_scheme option" where
  "scheduler_event_notify event data s = do {
     l \<leftarrow> spinlock_lock (event_lock s);
     let s = s\<lparr>event_lock := l\<rparr>;
     let e = nat (event - 1);
     if event < 1 \<or> e \<ge> length (waiting_list s) then None
     else do {
       s \<leftarrow> for_each (\<lambda>w s. do {
              th \<leftarrow> threads s w;
              if ev_event (th_event th) = event \<and> ev_data (th_event th) = data
              then do {
                s \<leftarrow> thread_unblock w s;
                Some (s\<lparr>waiting_list := (waiting_list s)[e := remove1 w (waiting_list s ! e)]\<rparr>)
              }
              else Some s }) (waiting_list s ! e) s;
       Some (s\<lparr>event_lock := spinlock_unlock l\<rparr>)
     }
   }"

definition scheduler_event_wait :: "int \<Rightarrow> ptr \<Rightarrow> 'a kproc_scheme \<Rightarrow> 'a kproc_scheme option" where
  "scheduler_event_wait event t s = do {
     l \<leftarrow> spinlock_lock (event_lock s);
     let e = nat (event - 1);
     if event < 1 \<or> e \<ge> length (waiting_list s) then None
     else Some (s\<lparr>waiting_list := (waiting_list s)[e := t # (waiting_list s ! e)], event_lock := spinlock_unlock l\<rparr>)
   }"

section \<open>The end of processes and threads\<close>

text \<open>After \<^verbatim>\<open>kfree (p->as)\<close> the address space is gone.\<close>

definition process_destroy :: "ptr \<Rightarrow> 'a kproc_scheme \<Rightarrow> 'a kproc_scheme option" where
  "process_destroy p s = do {
     P \<leftarrow> procs s p;
     if pid P = 1 then None
     else do {
       s \<leftarrow> as_destroy as_glue_dispatcher (p_as P) s;
       s \<leftarrow> kfree (p_as P) s;
       let s = s\<lparr>spaces := (spaces s)(p_as P := None)\<rparr>;
       l \<leftarrow> spinlock_lock (plock P);
       let s = proc_upd p (\<lambda>P. P\<lparr>plock := l\<rparr>) s;
       s \<leftarrow> scheduler_event_notify SCHED_EV_PEXIT (pid P) s;
       Q \<leftarrow> procs s (p_parent P);
       s \<leftarrow> scheduler_event_notify SCHED_EV_PEXIT_PARENT (pid Q) s;
       Some (proc_upd p (\<lambda>P. P\<lparr>plock := spinlock_unlock l\<rparr>) s)
     }
   }"

text \<open>The thread structure is in the page that the last call unmaps.\<close>

definition thread_destroy :: "ptr \<Rightarrow> 'a kproc_scheme \<Rightarrow> 'a kproc_scheme option" where
  "thread_destroy t s = do {
     th \<leftarrow> threads s t;
     let kstack = align (th_kstack th) PAGE_SIZE - PAGE_SIZE;
     let s = thread_upd t (\<lambda>th. th\<lparr>th_kstack := kstack\<rparr>) s;
     let s = proc_upd (th_parent th)
               (\<lambda>P. P\<lparr>p_threads := remove1 t (p_threads P), thread_count := thread_count P - 1\<rparr>) s;
     P \<leftarrow> procs s (th_parent th);
     s \<leftarrow> (if thread_count P = 0 then process_destroy (th_parent th) s else Some s);
     s \<leftarrow> as_unmap as_glue_dispatcher (kernel_as s) kstack AS_UNMAP_RELEASE s;
     Some (s\<lparr>threads := (threads s)(t := None)\<rparr>)
   }"

section \<open>Election and context switch\<close>

text \<open>
  \<^verbatim>\<open>scheduler_elect\<close> returns the elected thread and the new order of the queue; it calls itself when
  the running thread must not be elected again.
\<close>

partial_function (option) scheduler_elect :: "ptr list \<Rightarrow> ptr \<Rightarrow> ptr \<Rightarrow> bool \<Rightarrow> (ptr \<times> ptr list) option" where
  "scheduler_elect ts idle running force = (case ts of
     [] \<Rightarrow> Some (idle, [])
   | t # us \<Rightarrow>
       if force \<and> running = t
       then if us = [] then Some (idle, us @ [t]) else scheduler_elect (us @ [t]) idle running force
       else Some (t, us @ [t]))"

declare scheduler_elect.simps [code]

definition KERNEL_CS :: u32 where "KERNEL_CS = 0x8"

definition KERNEL_DS :: u32 where "KERNEL_DS = 0x10"

definition sizeof_irq_regs :: u32 where "sizeof_irq_regs = 76"

text \<open>Saved registers come with their address.\<close>

type_synonym regs_ptr = "(u32 \<times> irq_regs) option"

definition save_regs :: "u32 \<Rightarrow> irq_regs \<Rightarrow> thread_regs \<Rightarrow> thread_regs" where
  "save_regs a r t =
     (let t = t\<lparr>tr_gs := gs r, tr_fs := fs r, tr_es := es r, tr_ds := ds r, tr_edi := edi r, tr_esi := esi r,
                tr_ebp := ebp r, tr_ebx := ebx r, tr_edx := edx r, tr_ecx := ecx r, tr_eax := eax r,
                tr_eip := eip r, tr_cs := cs r, tr_eflags := eflags r\<rparr>
      in if tr_cs t \<noteq> KERNEL_CS
         then t\<lparr>tr_esp := user_esp r, tr_ss := user_ss r\<rparr>
         else t\<lparr>tr_esp := a + sizeof_irq_regs - 8, tr_ss := KERNEL_DS\<rparr>)"

definition thread_save_state :: "ptr \<Rightarrow> regs_ptr \<Rightarrow> 'a kproc_scheme \<Rightarrow> 'a kproc_scheme option" where
  "thread_save_state t regs s =
     (if t = NULL then Some s
      else case regs of None \<Rightarrow> Some s
      | Some (a, r) \<Rightarrow>
          if threads s t = None then None
          else Some (thread_upd t (\<lambda>th. th\<lparr>th_regs := save_regs a r (th_regs th)\<rparr>) s))"

definition i386_switch :: "regs_ptr \<Rightarrow> ptr \<Rightarrow> ptr \<Rightarrow> nat \<Rightarrow> 'a kproc_scheme \<Rightarrow> 'a kproc_scheme option" where
  "i386_switch regs new old c s = do {
     N \<leftarrow> threads s new;
     s \<leftarrow> thread_save_state old regs s;
     let s = sched_lock_release c s;
     P \<leftarrow> procs s (th_parent N);
     A \<leftarrow> spaces s (p_as P);
     N \<leftarrow> threads s new;
     Some (s\<lparr>tss_esp0 := th_kstack N, cpu_cr3 := as_cr3 A, running_as := Some (p_as P),
             cpu_regs := th_regs N, current := new\<rparr>)
   }"

definition scheduler_switch :: "nat \<Rightarrow> ptr \<Rightarrow> regs_ptr \<Rightarrow> 'a kproc_scheme \<Rightarrow> 'a kproc_scheme option" where
  "scheduler_switch c new_thread regs s =
     (let old = sc_running (scheduler_of c s);
          s = sched_upd c (\<lambda>sc. sc\<lparr>sc_running := new_thread, sc_time := SCHEDULER_TIME\<rparr>) s
      in i386_switch regs new_thread old c s)"

text \<open>
  The loop that cleans the run queue. Destroying a thread may wake others, which are appended to
  the queue as running threads; whether the loop still visits them makes no difference.
\<close>

definition clean_one :: "nat \<Rightarrow> ptr \<Rightarrow> 'a kproc_scheme \<Rightarrow> 'a kproc_scheme option" where
  "clean_one c t s = do {
     th \<leftarrow> threads s t;
     if th_state th = THREAD_STATE_BLOCKED
     then Some (sched_upd c (\<lambda>sc. sc\<lparr>sc_threads := remove1 t (sc_threads sc)\<rparr>) s)
     else if th_state th = THREAD_STATE_ZOMBIE
     then if sc_running (scheduler_of c s) = t then Some s
          else do {
            let s = sched_upd c (\<lambda>sc. sc\<lparr>sc_threads := remove1 t (sc_threads sc)\<rparr>) s;
            s \<leftarrow> thread_destroy t (sched_lock_release c s);
            sched_lock_acquire c s
          }
     else Some s }"

definition scheduler_clean :: "nat \<Rightarrow> 'a kproc_scheme \<Rightarrow> 'a kproc_scheme option" where
  "scheduler_clean c s = for_each (clean_one c) (sc_threads (scheduler_of c s)) s"

definition scheduler_update :: "regs_ptr \<Rightarrow> bool \<Rightarrow> 'a kproc_scheme \<Rightarrow> 'a kproc_scheme option" where
  "scheduler_update regs force s = do {
     c \<leftarrow> cpu_get cpu_id_get s;
     s \<leftarrow> sched_lock_acquire c s;
     let s = sched_upd c (\<lambda>sc. sc\<lparr>sc_time := sc_time sc - 1\<rparr>) s;
     let sc = scheduler_of c s;
     resched \<leftarrow> (if sc_time sc \<le> 0 then Some True
                else do {
                  r \<leftarrow> threads s (sc_running sc);
                  Some (th_state r \<noteq> THREAD_STATE_RUNNING \<or> regs = None \<or> force
                        \<or> sc_running sc = sc_idle sc \<and> sc_threads sc \<noteq> [])
                });
     if resched
     then do {
       s \<leftarrow> scheduler_clean c s;
       let sc = scheduler_of c s;
       (t, ts) \<leftarrow> scheduler_elect (sc_threads sc) (sc_idle sc) (sc_running sc) force;
       let s = sched_upd c (\<lambda>sc. sc\<lparr>sc_threads := ts\<rparr>) s;
       if t \<noteq> sc_running sc then scheduler_switch c t regs s
       else Some (sched_lock_release c (sched_upd c (\<lambda>sc. sc\<lparr>sc_time := SCHEDULER_TIME\<rparr>) s))
     }
     else Some (sched_lock_release c s)
   }"

definition scheduler_start :: "nat \<Rightarrow> 'a kproc_scheme \<Rightarrow> 'a kproc_scheme option" where
  "scheduler_start c s = scheduler_update None False (sched_upd c (\<lambda>sc. sc\<lparr>sc_time := 1\<rparr>) s)"

text \<open>
  \<open>yield\<close> is the run of the system from the software interrupt 0x20 until the thread runs again.
\<close>

definition scheduler_remove_thread ::
    "('a kproc_scheme \<Rightarrow> 'a kproc_scheme option) \<Rightarrow> ptr \<Rightarrow> nat \<Rightarrow> 'a kproc_scheme \<Rightarrow> 'a kproc_scheme option" where
  "scheduler_remove_thread yield t c s = do {
     th \<leftarrow> threads s t;
     let sc = scheduler_of c s;
     if th_state th = THREAD_STATE_RUNNING then Some (sched_lock_release c s)
     else if t = sc_running sc
     then do {
       let s = sched_lock_release c (sched_upd c (\<lambda>sc. sc\<lparr>sc_thread_num := sc_thread_num sc - 1\<rparr>) s);
       if th_state th \<noteq> THREAD_STATE_ZOMBIE then yield s
       else scheduler_update None True (sched_upd c (\<lambda>sc. sc\<lparr>sc_running := NULL, sc_time := 1\<rparr>) s)
     }
     else Some (sched_lock_release c (sched_upd c
            (\<lambda>sc. sc\<lparr>sc_thread_num := sc_thread_num sc - 1, sc_threads := remove1 t (sc_threads sc)\<rparr>) s))
   }"

section \<open>Timers\<close>

definition MSEC_PER_SEC :: u32 where "MSEC_PER_SEC = 1000"

definition TICK_PER_SEC :: u32 where "TICK_PER_SEC = 1000"

text \<open>Both constants are 1000, so the preprocessor keeps the first branch of each function.\<close>

definition ms_to_ticks :: "u32 \<Rightarrow> u32" where
  "ms_to_ticks ms = (MSEC_PER_SEC * ms) div TICK_PER_SEC"

definition ticks_to_ms :: "u32 \<Rightarrow> u32" where
  "ticks_to_ms tick = (TICK_PER_SEC * tick) div MSEC_PER_SEC"

text \<open>\<open>init\<close> is the platform's initialisation; a negative result is a panic.\<close>

definition timer_initialize :: "('a kproc_scheme \<Rightarrow> (int \<times> 'a kproc_scheme) option) \<Rightarrow> 'a kproc_scheme \<Rightarrow> 'a kproc_scheme option" where
  "timer_initialize init s = do {
     (r, s) \<leftarrow> init s;
     if r < 0 then None
     else Some (s\<lparr>timers := map (\<lambda>tm. tm\<lparr>tm_free := True\<rparr>) (timers s), timer_lock := spinlock_init\<rparr>)
   }"

definition timer_callback_sleep :: "int \<Rightarrow> 'a kproc_scheme \<Rightarrow> 'a kproc_scheme option" where
  "timer_callback_sleep data s = scheduler_event_notify SCHED_EV_TIMER data s"

text \<open>A call through the pointer of a timer; a null pointer is a fault.\<close>

definition run_callback :: "timer_callback option \<Rightarrow> int \<Rightarrow> 'a kproc_scheme \<Rightarrow> 'a kproc_scheme option" where
  "run_callback cb data s = (case cb of None \<Rightarrow> None | Some TimerCallbackSleep \<Rightarrow> timer_callback_sleep data s)"

definition timer_upd :: "nat \<Rightarrow> (timer_entry \<Rightarrow> timer_entry) \<Rightarrow> 'a kproc_scheme \<Rightarrow> 'a kproc_scheme" where
  "timer_upd i f s = s\<lparr>timers := (timers s)[i := f (timers s ! i)]\<rparr>"

definition cpu_timers_upd :: "nat \<Rightarrow> (nat list \<Rightarrow> nat list) \<Rightarrow> 'a kproc_scheme \<Rightarrow> 'a kproc_scheme" where
  "cpu_timers_upd c f s = s\<lparr>cpus := (cpus s)[c := (cpus s ! c)\<lparr>cpu_timers := f (cpu_timers (cpus s ! c))\<rparr>]\<rparr>"

text \<open>The body of the loop of \<^verbatim>\<open>timer_handler\<close> for one timer of the cpu.\<close>

definition timer_tick :: "nat \<Rightarrow> nat \<Rightarrow> 'a kproc_scheme \<Rightarrow> 'a kproc_scheme option" where
  "timer_tick c i s =
     (let tm = timers s ! i in
      if tm_next tm = ticks s
      then do {
        s \<leftarrow> run_callback (tm_callback tm) (tm_data tm) s;
        if odd (tm_type tm)
        then Some (timer_upd i (\<lambda>tm. tm\<lparr>tm_next := ticks s + tm_value tm\<rparr>) s)
        else Some (timer_upd i (\<lambda>tm. tm\<lparr>tm_free := True\<rparr>) (cpu_timers_upd c (remove1 i) s))
      }
      else Some s)"

definition timer_handler :: "regs_ptr \<Rightarrow> 'a kproc_scheme \<Rightarrow> 'a kproc_scheme option" where
  "timer_handler regs s = do {
     c \<leftarrow> cpu_get cpu_id_get s;
     let s = s\<lparr>ticks := ticks s + 1\<rparr>;
     s \<leftarrow> for_each (timer_tick c) (cpu_timers (cpus s ! c)) s;
     scheduler_update regs False s
   }"

definition timer_new :: "'a kproc_scheme \<Rightarrow> int" where
  "timer_new s = (case find (\<lambda>i. tm_free (timers s ! i)) [0..<TIMER_NUM] of Some i \<Rightarrow> int i | None \<Rightarrow> - 1)"

definition timer_register :: "int \<Rightarrow> u32 \<Rightarrow> timer_callback option \<Rightarrow> int \<Rightarrow> 'a kproc_scheme \<Rightarrow> (int \<times> 'a kproc_scheme) option" where
  "timer_register type time callback data s = do {
     c \<leftarrow> cpu_get cpu_id_get s;
     if type \<noteq> TIMER_ONESHOT \<and> type \<noteq> TIMER_PERIODIC then Some (- EINVAL, s)
     else if callback = None then Some (- EINVAL, s)
     else if time = 0 then Some (- EINVAL, s)
     else do {
       l \<leftarrow> spinlock_lock (timer_lock s);
       let s = s\<lparr>timer_lock := l\<rparr>;
       let t = timer_new s;
       if t < 0 then Some (- 1, s\<lparr>timer_lock := spinlock_unlock l\<rparr>)
       else do {
         let i = nat t;
         let s = (timer_upd i (\<lambda>tm. tm\<lparr>tm_free := False\<rparr>) s)\<lparr>timer_lock := spinlock_unlock l\<rparr>;
         let s = timer_upd i (\<lambda>tm. tm\<lparr>tm_type := type, tm_value := time, tm_next := ticks s + time,
                                      tm_callback := callback, tm_data := data\<rparr>) s;
         Some (1, cpu_timers_upd c (\<lambda>ts. i # ts) s)
       }
     }
   }"

section \<open>Blocking\<close>

text \<open>
  \<open>unlock\<close> is the effect of releasing the caller's lock, if it gave one. An interrupt may come before
  the scheduler lock is taken; the model runs the code without it.
\<close>

definition thread_block :: "('a kproc_scheme \<Rightarrow> 'a kproc_scheme option) \<Rightarrow> ptr \<Rightarrow> int \<Rightarrow> int
    \<Rightarrow> ('a kproc_scheme \<Rightarrow> 'a kproc_scheme) \<Rightarrow> 'a kproc_scheme \<Rightarrow> 'a kproc_scheme option" where
  "thread_block yield t event data unlock s = do {
     th \<leftarrow> threads s t;
     c \<leftarrow> cpu_get (th_cpu th) s;
     let s = thread_upd t (\<lambda>th. th\<lparr>th_state := THREAD_STATE_BLOCKED,
                                   th_event := \<lparr>ev_event = event, ev_data = data\<rparr>\<rparr>) s;
     s \<leftarrow> scheduler_event_wait event t s;
     let s = unlock s;
     s \<leftarrow> sched_lock_acquire c s;
     th \<leftarrow> threads s t;
     if th_state th = THREAD_STATE_BLOCKED then scheduler_remove_thread yield t c s
     else Some (sched_lock_release c s)
   }"

definition thread_sleep :: "('a kproc_scheme \<Rightarrow> 'a kproc_scheme option) \<Rightarrow> ptr \<Rightarrow> u32 \<Rightarrow> regs_ptr
    \<Rightarrow> 'a kproc_scheme \<Rightarrow> 'a kproc_scheme option" where
  "thread_sleep yield t ms regs s = do {
     th \<leftarrow> threads s t;
     P \<leftarrow> procs s (th_parent th);
     let data = sint (push_bit 16 (word_of_int (pid P)) OR word_of_int (th_tid th) :: u32);
     s \<leftarrow> thread_save_state t regs s;
     (_, s) \<leftarrow> timer_register TIMER_ONESHOT ms (Some TimerCallbackSleep) data s;
     thread_block yield t SCHED_EV_TIMER data id s
   }"

record wait_queue =
  wq_lock :: bool
  wq_threads :: "ptr list"

definition wait_queue_init :: wait_queue where
  "wait_queue_init = \<lparr>wq_lock = spinlock_init, wq_threads = []\<rparr>"

text \<open>
  A wait queue lives inside another object: \<open>get\<close> and \<open>put\<close> read and write it. The macro
  \<^verbatim>\<open>wait_queue_wait\<close> loops until the condition holds.
\<close>

partial_function (option) wait_queue_wait ::
    "('a kproc_scheme \<Rightarrow> wait_queue option) \<Rightarrow> (wait_queue \<Rightarrow> 'a kproc_scheme \<Rightarrow> 'a kproc_scheme)
     \<Rightarrow> ('a kproc_scheme \<Rightarrow> 'a kproc_scheme option) \<Rightarrow> ptr \<Rightarrow> ('a kproc_scheme \<Rightarrow> bool)
     \<Rightarrow> 'a kproc_scheme \<Rightarrow> 'a kproc_scheme option" where
  "wait_queue_wait get put yield t cond s = do {
     q \<leftarrow> get s;
     _ \<leftarrow> spinlock_lock (wq_lock q);
     if cond s then Some s
     else do {
       th \<leftarrow> threads s t;
       c \<leftarrow> cpu_get (th_cpu th) s;
       let s = put (q\<lparr>wq_threads := wq_threads q @ [t]\<rparr>) (thread_upd t (\<lambda>th. th\<lparr>th_state := THREAD_STATE_BLOCKED\<rparr>) s);
       s \<leftarrow> sched_lock_acquire c s;
       s \<leftarrow> scheduler_remove_thread yield t c s;
       if cond s then Some s else wait_queue_wait get put yield t cond s
     }
   }"

definition wait_queue_notify ::
    "('a kproc_scheme \<Rightarrow> wait_queue option) \<Rightarrow> (wait_queue \<Rightarrow> 'a kproc_scheme \<Rightarrow> 'a kproc_scheme)
     \<Rightarrow> 'a kproc_scheme \<Rightarrow> 'a kproc_scheme option" where
  "wait_queue_notify get put s = do {
     q \<leftarrow> get s;
     _ \<leftarrow> spinlock_lock (wq_lock q);
     case wq_threads q of
       [] \<Rightarrow> Some s
     | t # ts \<Rightarrow> do {
         s \<leftarrow> cpu_add_thread t (thread_upd t (\<lambda>th. th\<lparr>th_state := THREAD_STATE_RUNNING\<rparr>) s);
         q \<leftarrow> get s;
         Some (put (q\<lparr>wq_threads := ts\<rparr>) s)
       }
   }"

section \<open>Basic facts\<close>

text \<open>There is one cpu, with id 0.\<close>

definition one_cpu :: "'a kproc_scheme \<Rightarrow> bool" where
  "one_cpu s \<longleftrightarrow> length (cpus s) = 1 \<and> cpu_id (cpus s ! 0) = 0"

abbreviation runq :: "'a kproc_scheme \<Rightarrow> scheduler" where
  "runq s \<equiv> scheduler_of 0 s"

lemma cpu_get_0: "one_cpu s \<Longrightarrow> cpu_get cpu_id_get s = Some 0" "one_cpu s \<Longrightarrow> cpu_get 0 s = Some 0"
  by (simp_all add: one_cpu_def cpu_get_def cpu_id_get_def)

lemma thread_upd_simps [simp]:
  "threads (thread_upd t f s) u = (if u = t then map_option f (threads s t) else threads s u)"
  "procs (thread_upd t f s) = procs s" "cpus (thread_upd t f s) = cpus s"
  "waiting_list (thread_upd t f s) = waiting_list s" "event_lock (thread_upd t f s) = event_lock s"
  "ticks (thread_upd t f s) = ticks s" "timers (thread_upd t f s) = timers s"
  "timer_lock (thread_upd t f s) = timer_lock s" "spaces (thread_upd t f s) = spaces s"
  "processes (thread_upd t f s) = processes s" "current (thread_upd t f s) = current s"
  "one_cpu (thread_upd t f s) = one_cpu s"
  by (simp_all add: thread_upd_def one_cpu_def)

lemma proc_upd_simps [simp]:
  "procs (proc_upd p f s) q = (if q = p then map_option f (procs s p) else procs s q)"
  "threads (proc_upd p f s) = threads s" "cpus (proc_upd p f s) = cpus s"
  "waiting_list (proc_upd p f s) = waiting_list s" "event_lock (proc_upd p f s) = event_lock s"
  "ticks (proc_upd p f s) = ticks s" "timers (proc_upd p f s) = timers s"
  "spaces (proc_upd p f s) = spaces s" "processes (proc_upd p f s) = processes s"
  "current (proc_upd p f s) = current s" "one_cpu (proc_upd p f s) = one_cpu s"
  by (simp_all add: proc_upd_def one_cpu_def)

lemma sched_upd_simps [simp]:
  "one_cpu s \<Longrightarrow> runq (sched_upd 0 f s) = f (runq s)"
  "threads (sched_upd c f s) = threads s" "procs (sched_upd c f s) = procs s"
  "waiting_list (sched_upd c f s) = waiting_list s" "event_lock (sched_upd c f s) = event_lock s"
  "ticks (sched_upd c f s) = ticks s" "timers (sched_upd c f s) = timers s" "timer_lock (sched_upd c f s) = timer_lock s"
  "spaces (sched_upd c f s) = spaces s" "processes (sched_upd c f s) = processes s"
  "current (sched_upd c f s) = current s" "one_cpu (sched_upd 0 f s) = one_cpu s"
  "one_cpu s \<Longrightarrow> cpu_timers (cpus (sched_upd 0 f s) ! 0) = cpu_timers (cpus s ! 0)"
  by (auto simp: sched_upd_def one_cpu_def nth_list_update)

lemma sched_upd_cong: "f (runq s) = g (runq s) \<Longrightarrow> sched_upd 0 f s = sched_upd 0 g s"
  by (simp add: sched_upd_def)

lemma sched_upd_twice: "one_cpu s \<Longrightarrow> sched_upd 0 f (sched_upd 0 g s) = sched_upd 0 (\<lambda>sc. f (g sc)) s"
  by (simp add: sched_upd_def one_cpu_def)

lemma mem_only_kproc:
  fixes s s' :: "'a kproc_scheme"
  assumes "mem_only s s'"
  shows "threads s' = threads s" and "procs s' = procs s" and "processes s' = processes s" and "cpus s' = cpus s"
    and "waiting_list s' = waiting_list s" and "event_lock s' = event_lock s" and "ticks s' = ticks s"
    and "timers s' = timers s" and "timer_lock s' = timer_lock s" and "current s' = current s"
  using assms by (cases s; cases s'; simp add: mem_only_def)+

section \<open>Adding to the run queue\<close>

lemma cpu_add_thread_eq:
  assumes c: "one_cpu s" and l: "\<not> sched_lock (runq s)" and t: "threads s t \<noteq> None"
  shows "cpu_add_thread t s = (if t \<in> set (sc_threads (runq s)) then None
    else Some (sched_upd 0 (\<lambda>sc. sc\<lparr>sc_thread_num := sc_thread_num sc + 1, sc_threads := sc_threads sc @ [t],
           sc_time := (if sc_running sc \<noteq> NULL \<and> sc_running sc = sc_idle sc then 1 else sc_time sc),
           sched_lock := False\<rparr>) (thread_upd t (\<lambda>th. th\<lparr>th_cpu := 0\<rparr>) s)))"
proof -
  let ?s = "thread_upd t (\<lambda>th. th\<lparr>th_cpu := 0\<rparr>) s"
  have "cpus s \<noteq> []" "[1..<length (cpus s)] = []" "cpu_id (cpus s ! 0) = 0" using c by (auto simp: one_cpu_def)
  then have "cpu_add_thread t s = scheduler_add_thread 0 t ?s" using t by (auto simp: cpu_add_thread_def Let_def)
  moreover have "one_cpu ?s" "\<not> sched_lock (runq ?s)" using c l by simp_all
  ultimately show ?thesis
    using c l by (auto simp: scheduler_add_thread_def sched_lock_acquire_def sched_lock_release_def spinlock_defs
      sched_upd_twice Let_def intro!: sched_upd_cong)
qed

text \<open>A thread that an event wakes.\<close>

abbreviation woken :: "thread \<Rightarrow> thread" where
  "woken th \<equiv> th\<lparr>th_state := THREAD_STATE_RUNNING, th_cpu := 0\<rparr>"

text \<open>What waking threads leaves unchanged.\<close>

definition sched_frame :: "'a kproc_scheme \<Rightarrow> 'a kproc_scheme \<Rightarrow> bool" where
  "sched_frame s s' \<longleftrightarrow> procs s' = procs s \<and> processes s' = processes s \<and> ticks s' = ticks s \<and> timers s' = timers s
     \<and> timer_lock s' = timer_lock s \<and> current s' = current s \<and> spaces s' = spaces s \<and> one_cpu s' = one_cpu s
     \<and> sc_running (runq s') = sc_running (runq s) \<and> sc_idle (runq s') = sc_idle (runq s)
     \<and> sched_lock (runq s') = sched_lock (runq s) \<and> cpu_timers (cpus s' ! 0) = cpu_timers (cpus s ! 0)"

lemma sched_frame_refl [simp]: "sched_frame s s"
  by (simp add: sched_frame_def)

lemma sched_frame_trans: "sched_frame s t \<Longrightarrow> sched_frame t u \<Longrightarrow> sched_frame s u"
  by (simp add: sched_frame_def)

lemma sched_frame_simps [simp]:
  "sched_frame s (s'\<lparr>waiting_list := w\<rparr>) = sched_frame s s'" "sched_frame s (s'\<lparr>event_lock := l\<rparr>) = sched_frame s s'"
  "sched_frame (s\<lparr>event_lock := l\<rparr>) s' = sched_frame s s'"
  by (simp_all add: sched_frame_def one_cpu_def)

lemma thread_unblock_Some:
  assumes ok: "thread_unblock t s = Some s'" and c: "one_cpu s" "\<not> sched_lock (runq s)"
  shows "t \<notin> set (sc_threads (runq s))" and "sc_threads (runq s') = sc_threads (runq s) @ [t]"
    and "threads s' = (threads s)(t := map_option woken (threads s t))" and "threads s t \<noteq> None"
    and "sched_frame s s'" and "waiting_list s' = waiting_list s" and "event_lock s' = event_lock s"
proof -
  let ?s = "thread_upd t (\<lambda>th. th\<lparr>th_state := THREAD_STATE_RUNNING\<rparr>) s"
  have t: "threads ?s t \<noteq> None" using ok by (cases "threads s t") (auto simp: thread_unblock_def cpu_add_thread_def)
  then show "threads s t \<noteq> None" by simp
  have eq: "cpu_add_thread t ?s = Some s'" using ok by (simp add: thread_unblock_def)
  have c': "one_cpu ?s" "\<not> sched_lock (runq ?s)" using c by simp_all
  note s' = eq [unfolded cpu_add_thread_eq [OF c' t]]
  show "t \<notin> set (sc_threads (runq s))" using s' by (auto split: if_splits)
  with s' have s'': "s' = sched_upd 0 (\<lambda>sc. sc\<lparr>sc_thread_num := sc_thread_num sc + 1, sc_threads := sc_threads sc @ [t],
           sc_time := (if sc_running sc \<noteq> NULL \<and> sc_running sc = sc_idle sc then 1 else sc_time sc),
           sched_lock := False\<rparr>) (thread_upd t (\<lambda>th. th\<lparr>th_cpu := 0\<rparr>) ?s)" by simp
  show "sc_threads (runq s') = sc_threads (runq s) @ [t]" using c by (simp add: s'')
  show "threads s' = (threads s)(t := map_option woken (threads s t))"
    by (rule ext) (simp add: s'' option.map_comp o_def)
  show "sched_frame s s'" using c by (simp add: s'' sched_frame_def)
  show "waiting_list s' = waiting_list s" "event_lock s' = event_lock s" by (simp_all add: s'')
qed

lemma thread_unblock_returns:
  assumes "one_cpu s" "\<not> sched_lock (runq s)" and "threads s t \<noteq> None" and "t \<notin> set (sc_threads (runq s))"
  shows "\<exists>s'. thread_unblock t s = Some s'"
proof -
  let ?s = "thread_upd t (\<lambda>th. th\<lparr>th_state := THREAD_STATE_RUNNING\<rparr>) s"
  have "one_cpu ?s" "\<not> sched_lock (runq ?s)" "threads ?s t \<noteq> None" using assms by simp_all
  from cpu_add_thread_eq [OF this] assms(4) show ?thesis by (simp add: thread_unblock_def)
qed

section \<open>Waking the waiters of an event\<close>

definition waits_for :: "int \<Rightarrow> int \<Rightarrow> 'a kproc_scheme \<Rightarrow> ptr \<Rightarrow> bool" where
  "waits_for event data s w =
     (case threads s w of None \<Rightarrow> False | Some th \<Rightarrow> ev_event (th_event th) = event \<and> ev_data (th_event th) = data)"

definition notify_one :: "int \<Rightarrow> int \<Rightarrow> nat \<Rightarrow> ptr \<Rightarrow> 'a kproc_scheme \<Rightarrow> 'a kproc_scheme option" where
  "notify_one event data e w s = do {
     th \<leftarrow> threads s w;
     if ev_event (th_event th) = event \<and> ev_data (th_event th) = data
     then do {
       s \<leftarrow> thread_unblock w s;
       Some (s\<lparr>waiting_list := (waiting_list s)[e := remove1 w (waiting_list s ! e)]\<rparr>)
     }
     else Some s }"

lemma scheduler_event_notify_eq:
  assumes "\<not> event_lock s" and "1 \<le> event" and "nat (event - 1) < length (waiting_list s)"
  shows "scheduler_event_notify event data s = do {
     s \<leftarrow> for_each (notify_one event data (nat (event - 1))) (waiting_list s ! nat (event - 1)) (s\<lparr>event_lock := True\<rparr>);
     Some (s\<lparr>event_lock := False\<rparr>) }"
  using assms by (simp add: scheduler_event_notify_def notify_one_def [abs_def] spinlock_defs Let_def)

lemma notify_loop:
  fixes s :: "'a kproc_scheme"
  assumes "one_cpu s" "\<not> sched_lock (runq s)" and "distinct ws" and "\<forall>w \<in> set ws. threads s w \<noteq> None"
    and "set (filter (waits_for event data s) ws) \<inter> set (sc_threads (runq s)) = {}" and "e < length (waiting_list s)"
  shows "\<exists>s'. for_each (notify_one event data e) ws s = Some s' \<and> sched_frame s s' \<and> event_lock s' = event_lock s
    \<and> sc_threads (runq s') = sc_threads (runq s) @ filter (waits_for event data s) ws
    \<and> waiting_list s' = (waiting_list s)[e := fold remove1 (filter (waits_for event data s) ws) (waiting_list s ! e)]
    \<and> threads s' = (\<lambda>t. if t \<in> set (filter (waits_for event data s) ws) then map_option woken (threads s t) else threads s t)"
  using assms
proof (induction ws arbitrary: s)
  case (Cons w ws)
  obtain th where th: "threads s w = Some th" using Cons.prems(4) by auto
  show ?case
  proof (cases "waits_for event data s w")
    case False
    then have "notify_one event data e w s = Some s" using th by (auto simp: notify_one_def waits_for_def)
    with Cons.IH [of s] Cons.prems False show ?thesis by auto
  next
    case True
    have "w \<notin> set (sc_threads (runq s))" "threads s w \<noteq> None" using Cons.prems(5) True th by auto
    from thread_unblock_returns [OF Cons.prems(1, 2) this(2, 1)] obtain u where u: "thread_unblock w s = Some u" by blast
    note ub = thread_unblock_Some [OF u Cons.prems(1, 2)]
    define v where "v = u\<lparr>waiting_list := (waiting_list s)[e := remove1 w (waiting_list s ! e)]\<rparr>"
    have body: "notify_one event data e w s = Some v"
      using True th u ub(6) by (auto simp: notify_one_def v_def waits_for_def)
    have v: "one_cpu v" "\<not> sched_lock (runq v)" "sched_frame s v" "event_lock v = event_lock s"
      "threads v = (threads s)(w := map_option woken (threads s w))" "sc_threads (runq v) = sc_threads (runq s) @ [w]"
      "waiting_list v = (waiting_list s)[e := remove1 w (waiting_list s ! e)]"
      using ub Cons.prems(1, 2) by (auto simp: v_def sched_frame_def one_cpu_def)
    have same: "waits_for event data v x = waits_for event data s x" for x using v(5) th by (auto simp: waits_for_def)
    have "\<forall>x \<in> set ws. threads v x \<noteq> None" using v(5) Cons.prems(3, 4) by auto
    moreover have "set (filter (waits_for event data v) ws) \<inter> set (sc_threads (runq v)) = {}"
      using Cons.prems(3, 5) v(6) same True by auto
    ultimately obtain s' where s': "for_each (notify_one event data e) ws v = Some s'" "sched_frame v s'" "event_lock s' = event_lock v"
      "sc_threads (runq s') = sc_threads (runq v) @ filter (waits_for event data v) ws"
      "waiting_list s' = (waiting_list v)[e := fold remove1 (filter (waits_for event data v) ws) (waiting_list v ! e)]"
      "threads s' = (\<lambda>t. if t \<in> set (filter (waits_for event data v) ws) then map_option woken (threads v t) else threads v t)"
      using Cons.IH [of v] Cons.prems(3, 6) v by auto
    have nw: "w \<notin> set ws" using Cons.prems(3) by simp
    show ?thesis
    proof (intro exI [of _ s'] conjI)
      show "for_each (notify_one event data e) (w # ws) s = Some s'" using body s'(1) by simp
      show "sched_frame s s'" using v(3) s'(2) by (rule sched_frame_trans)
      show "threads s' = (\<lambda>t. if t \<in> set (filter (waits_for event data s) (w # ws)) then map_option woken (threads s t) else threads s t)"
        using s'(6) v(5) True nw unfolding same by (auto simp: fun_eq_iff)
      show "sc_threads (runq s') = sc_threads (runq s) @ filter (waits_for event data s) (w # ws)"
        using s'(4) v(6) True unfolding same by simp
      show "waiting_list s' = (waiting_list s)[e := fold remove1 (filter (waits_for event data s) (w # ws)) (waiting_list s ! e)]"
        using s'(5) v(7) True Cons.prems(6) unfolding same by simp
    qed (use s'(3) v(4) in simp)
  qed
qed simp

lemma notify_one_Some:
  assumes ok: "notify_one event data e x s = Some v" and c: "one_cpu s" "\<not> sched_lock (runq s)"
  shows "one_cpu v" and "\<not> sched_lock (runq v)" and "set (sc_threads (runq s)) \<subseteq> set (sc_threads (runq v))"
    and "waits_for event data v = waits_for event data s"
    and "waits_for event data s x \<Longrightarrow> x \<notin> set (sc_threads (runq s))"
proof -
  obtain th where th: "threads s x = Some th" using ok by (cases "threads s x") (auto simp: notify_one_def)
  have "one_cpu v \<and> \<not> sched_lock (runq v) \<and> set (sc_threads (runq s)) \<subseteq> set (sc_threads (runq v))
      \<and> waits_for event data v = waits_for event data s
      \<and> (waits_for event data s x \<longrightarrow> x \<notin> set (sc_threads (runq s)))"
  proof (cases "waits_for event data s x")
    case False
    then have "v = s" using ok th by (auto simp: notify_one_def waits_for_def split: if_splits)
    with False c show ?thesis by simp
  next
    case True
    then obtain u where u: "thread_unblock x s = Some u" "v = u\<lparr>waiting_list := (waiting_list u)[e := remove1 x (waiting_list u ! e)]\<rparr>"
      using ok th by (cases "thread_unblock x s") (auto simp: notify_one_def waits_for_def)
    note ub = thread_unblock_Some [OF u(1) c]
    have "waits_for event data v = waits_for event data s"
      using ub(3) th by (auto simp: u(2) waits_for_def fun_eq_iff)
    then show ?thesis using ub(1, 2, 5) c by (auto simp: u(2) sched_frame_def one_cpu_def)
  qed
  then show "one_cpu v" and "\<not> sched_lock (runq v)" and "set (sc_threads (runq s)) \<subseteq> set (sc_threads (runq v))"
    and "waits_for event data v = waits_for event data s"
    and "waits_for event data s x \<Longrightarrow> x \<notin> set (sc_threads (runq s))" by blast+
qed

lemma notify_stuck:
  assumes "one_cpu s" "\<not> sched_lock (runq s)" and "w \<in> set ws" "waits_for event data s w" "w \<in> set (sc_threads (runq s))"
  shows "for_each (notify_one event data e) ws s = None"
  using assms
proof (induction ws arbitrary: s)
  case (Cons x ws)
  show ?case
  proof (cases "notify_one event data e x s")
    case (Some v)
    note n = notify_one_Some [OF Some Cons.prems(1, 2)]
    have "x \<noteq> w" using n(5) Cons.prems(4, 5) by auto
    then have "for_each (notify_one event data e) ws v = None"
      using Cons.IH [OF n(1, 2)] Cons.prems(3-5) n(3, 4) by auto
    with Some show ?thesis by simp
  qed simp
qed simp

lemma fold_remove1: "distinct xs \<Longrightarrow> fold remove1 ys xs = filter (\<lambda>x. x \<notin> set ys) xs"
  by (induction ys arbitrary: xs) (auto simp: distinct_remove1_removeAll removeAll_filter_not_eq intro: filter_cong)


section \<open>Election\<close>

lemma scheduler_elect_simps:
  "scheduler_elect [] idle running force = Some (idle, [])"
  "\<not> (force \<and> running = t) \<Longrightarrow> scheduler_elect (t # us) idle running force = Some (t, us @ [t])"
  "scheduler_elect [t] idle t True = Some (idle, [t])"
  "t \<noteq> u \<Longrightarrow> scheduler_elect (t # u # us) idle t True = Some (u, us @ [t, u])"
proof -
  show "scheduler_elect [] idle running force = Some (idle, [])" "scheduler_elect [t] idle t True = Some (idle, [t])"
    by (subst scheduler_elect.simps; simp)+
  show other: "scheduler_elect (t # us) idle running force = Some (t, us @ [t])" if "\<not> (force \<and> running = t)" for t us running force
    using that by (subst scheduler_elect.simps) auto
  show "scheduler_elect (t # u # us) idle t True = Some (u, us @ [t, u])" if "t \<noteq> u"
    using that other [of True t u] by (subst scheduler_elect.simps) simp
qed

lemma scheduler_elect_returns:
  assumes "distinct ts"
  shows "\<exists>t ts'. scheduler_elect ts idle running force = Some (t, ts') \<and> set ts' = set ts \<and> distinct ts'
    \<and> (t \<in> set ts \<or> t = idle) \<and> (force \<longrightarrow> t = running \<longrightarrow> t = idle)
    \<and> (\<not> (force \<and> set ts \<subseteq> {running}) \<longrightarrow> ts \<noteq> [] \<longrightarrow> t \<in> set ts)"
proof (cases ts)
  case (Cons t us)
  show ?thesis
  proof (cases "force \<and> running = t")
    case True
    then show ?thesis using assms Cons by (cases us) (auto simp: scheduler_elect_simps)
  qed (use Cons assms in \<open>auto simp: scheduler_elect_simps\<close>)
qed (simp add: scheduler_elect_simps)

text \<open>\<open>n\<close> elections in a row, each with the thread that was elected before as the running one.\<close>

fun elections :: "nat \<Rightarrow> ptr list \<Rightarrow> ptr \<Rightarrow> ptr \<Rightarrow> bool \<Rightarrow> (ptr list \<times> ptr list) option" where
  "elections 0 ts idle running force = Some ([], ts)"
| "elections (Suc n) ts idle running force = do {
     (t, ts) \<leftarrow> scheduler_elect ts idle running force;
     (es, ts) \<leftarrow> elections n ts idle t force;
     Some (t # es, ts)
   }"

text \<open>
  C19. The scheduler is fair and its election terminates: \<open>n\<close> elections in a row return, and the
  \<open>k\<close>-th one elects the thread at position \<open>k\<close> of the queue, counted cyclically, so that each of
  \<open>m\<close> queued threads runs once in any \<open>m\<close> elections. With the flag that forbids to elect the
  running thread this holds too when there is another one and the running thread is the one
  that was elected last.
\<close>
theorem elections_round_robin:
  assumes "distinct ts" and "ts \<noteq> []" and "force \<longrightarrow> 2 \<le> length ts \<and> running = last ts"
  shows "elections n ts idle running force = Some (map (\<lambda>k. ts ! (k mod length ts)) [0..<n], rotate n ts)"
  using assms
proof (induction n arbitrary: ts running)
  case (Suc n)
  obtain t us where ts: "ts = t # us" using Suc.prems(2) by (cases ts) auto
  have "\<not> (force \<and> running = t)"
  proof
    assume "force \<and> running = t"
    with Suc.prems(3) ts have "us \<noteq> []" "last us = t" by (auto split: if_splits)
    with Suc.prems(1) ts show False using last_in_set [of us] by auto
  qed
  then have el: "scheduler_elect ts idle running force = Some (t, rotate1 ts)"
    using ts by (simp add: scheduler_elect_simps)
  have IH: "elections n (rotate1 ts) idle t force
      = Some (map (\<lambda>k. rotate1 ts ! (k mod length ts)) [0..<n], rotate n (rotate1 ts))"
    using Suc.IH [of "rotate1 ts" t] Suc.prems ts by auto
  have "rotate1 ts ! (k mod length ts) = ts ! (Suc k mod length ts)" for k
    using Suc.prems(2) nth_rotate1 [of "k mod length ts" ts] by (simp add: mod_Suc_eq)
  then have "t # map (\<lambda>k. rotate1 ts ! (k mod length ts)) [0..<n] = map (\<lambda>k. ts ! (k mod length ts)) [0..<Suc n]"
    using ts by (simp add: upt_conv_Cons map_Suc_upt [symmetric] del: upt_Suc)
  then show ?case using el IH by (simp add: rotate1_rotate_swap)
qed simp

theorem elections_round_robin_witness:
  "elections 5 [0x10, 0x20, 0x30] 0x40 0x30 True = Some ([0x10, 0x20, 0x30, 0x10, 0x20], [0x30, 0x10, 0x20])"
proof -
  have "elections 5 [0x10, 0x20, 0x30] 0x40 0x30 True
      = Some (map (\<lambda>k. [0x10, 0x20, 0x30] ! (k mod length [0x10, 0x20, 0x30 :: ptr])) [0..<5], rotate 5 [0x10, 0x20, 0x30])"
    by (rule elections_round_robin) simp_all
  also have "\<dots> = Some ([0x10, 0x20, 0x30, 0x10, 0x20], [0x30, 0x10, 0x20])" by code_simp
  finally show ?thesis .
qed

section \<open>Updates\<close>

definition waiting :: "'a kproc_scheme \<Rightarrow> ptr set" where
  "waiting s = \<Union>(set ` set (waiting_list s))"

text \<open>\<open>wakes W new s s'\<close>: on the way from \<open>s\<close> to \<open>s'\<close> events woke the threads \<open>new\<close>, all of them in \<open>W\<close>.\<close>

definition wakes :: "ptr set \<Rightarrow> ptr list \<Rightarrow> 'a kproc_scheme \<Rightarrow> 'a kproc_scheme \<Rightarrow> bool" where
  "wakes W new s s' \<longleftrightarrow> one_cpu s' \<and> \<not> sched_lock (runq s')
     \<and> sc_running (runq s') = sc_running (runq s) \<and> sc_idle (runq s') = sc_idle (runq s)
     \<and> sc_threads (runq s') = sc_threads (runq s) @ new
     \<and> (distinct (sc_threads (runq s)) \<longrightarrow> distinct (sc_threads (runq s')))
     \<and> set new \<subseteq> W \<and> waiting s' \<subseteq> waiting s \<and> (\<forall>u \<in> set new. threads s u \<noteq> None)
     \<and> threads s' = (\<lambda>u. if u \<in> set new then map_option woken (threads s u) else threads s u)"

lemma wakes_refl: "one_cpu s \<Longrightarrow> \<not> sched_lock (runq s) \<Longrightarrow> wakes W [] s s"
  by (simp add: wakes_def)

lemma wakes_trans:
  assumes "wakes W xs s t" and "wakes W ys t u"
  shows "wakes W (xs @ ys) s u"
proof -
  have "\<forall>x \<in> set (xs @ ys). threads s x \<noteq> None"
    using assms by (auto simp: wakes_def split: if_splits)
  moreover have "threads u = (\<lambda>x. if x \<in> set (xs @ ys) then map_option woken (threads s x) else threads s x)"
    using assms by (auto simp: wakes_def fun_eq_iff option.map_comp o_def)
  ultimately show ?thesis using assms by (auto simp: wakes_def)
qed

lemma wakes_start:
  assumes "wakes W xs s t" and "cpus s' = cpus s" "threads s' = threads s" "waiting_list s' = waiting_list s"
  shows "wakes W xs s' t"
  using assms(1) unfolding wakes_def waiting_def assms(2-4) .

lemma wakes_end:
  assumes "wakes W xs s t" and "cpus t' = cpus t" "threads t' = threads t" "waiting_list t' = waiting_list t"
  shows "wakes W xs s t'"
  using assms(1) unfolding wakes_def waiting_def one_cpu_def assms(2-4) .

lemma wakes_unlocked: "wakes W xs s t \<Longrightarrow> one_cpu t \<and> \<not> sched_lock (runq t)"
  by (simp add: wakes_def)

lemma set_list_update_remove1: "e < length ws \<Longrightarrow> \<Union>(set ` set (ws[e := remove1 x (ws ! e)])) \<subseteq> \<Union>(set ` set ws)"
  using set_update_subset_insert [of ws e "remove1 x (ws ! e)"] set_remove1_subset [of x "ws ! e"] nth_mem [of e ws]
  by blast

lemma notify_one_wakes:
  assumes ok: "notify_one event data e x s = Some v" and c: "one_cpu s" "\<not> sched_lock (runq s)"
    and e: "e < length (waiting_list s)" and x: "x \<in> W"
  shows "\<exists>xs. wakes W xs s v \<and> length (waiting_list v) = length (waiting_list s)"
proof -
  obtain th where th: "threads s x = Some th" using ok by (cases "threads s x") (auto simp: notify_one_def)
  show ?thesis
  proof (cases "waits_for event data s x")
    case False
    then have "v = s" using ok th by (auto simp: notify_one_def waits_for_def split: if_splits)
    then show ?thesis using wakes_refl [OF c] by blast
  next
    case True
    then obtain u where u: "thread_unblock x s = Some u" "v = u\<lparr>waiting_list := (waiting_list u)[e := remove1 x (waiting_list u ! e)]\<rparr>"
      using ok th by (cases "thread_unblock x s") (auto simp: notify_one_def waits_for_def)
    note ub = thread_unblock_Some [OF u(1) c]
    have "waiting v \<subseteq> waiting s" using set_list_update_remove1 [of e "waiting_list s" x] e ub(6) by (simp add: waiting_def u(2))
    moreover have "threads v = (\<lambda>y. if y \<in> set [x] then map_option woken (threads s y) else threads s y)"
      using ub(3) by (auto simp: u(2))
    ultimately have "wakes W [x] s v"
      using ub(1, 2, 4, 5) c x unfolding wakes_def by (auto simp: u(2) sched_frame_def one_cpu_def)
    then show ?thesis using ub(6) u(2) by (intro exI [of _ "[x]"]) simp
  qed
qed

lemma notify_loop_wakes:
  assumes "for_each (notify_one event data e) ws s = Some t" "one_cpu s" "\<not> sched_lock (runq s)"
    and "e < length (waiting_list s)" "set ws \<subseteq> W"
  shows "\<exists>xs. wakes W xs s t"
  using assms
proof (induction ws arbitrary: s)
  case Nil
  then show ?case using wakes_refl [of s W] by auto
next
  case (Cons w ws)
  then obtain v where v: "notify_one event data e w s = Some v" "for_each (notify_one event data e) ws v = Some t"
    by (cases "notify_one event data e w s") auto
  from notify_one_wakes [OF v(1) Cons.prems(2-4), of W] Cons.prems(5) obtain xs where
    xs: "wakes W xs s v" "length (waiting_list v) = length (waiting_list s)" by auto
  from Cons.IH [OF v(2)] wakes_unlocked [OF xs(1)] xs(2) Cons.prems(4, 5) obtain ys where "wakes W ys v t" by auto
  with xs(1) show ?case by (blast intro: wakes_trans)
qed

lemma notify_wakes:
  assumes ok: "scheduler_event_notify event data s = Some s'" and c: "one_cpu s" "\<not> sched_lock (runq s)"
    and W: "waiting s \<subseteq> W"
  shows "\<exists>xs. wakes W xs s s'"
proof -
  let ?e = "nat (event - 1)"
  have l: "\<not> event_lock s" using ok by (auto simp: scheduler_event_notify_def spinlock_defs)
  have e: "1 \<le> event" "?e < length (waiting_list s)"
    using ok l by (auto simp: scheduler_event_notify_def spinlock_defs Let_def split: if_splits)
  from ok scheduler_event_notify_eq [OF l e] obtain t where
    t: "for_each (notify_one event data ?e) (waiting_list s ! ?e) (s\<lparr>event_lock := True\<rparr>) = Some t" "s' = t\<lparr>event_lock := False\<rparr>"
    by (auto elim!: bind_SomeE)
  have "set (waiting_list s ! ?e) \<subseteq> W" using nth_mem [OF e(2)] W unfolding waiting_def by blast
  from notify_loop_wakes [OF t(1) _ _ _ this] c e(2) obtain xs where "wakes W xs (s\<lparr>event_lock := True\<rparr>) t"
    by (auto simp: one_cpu_def)
  from wakes_end [OF wakes_start [OF this, of s], of s'] t(2) show ?thesis by auto
qed

lemma process_destroy_wakes:
  fixes s s' :: "'a kproc_scheme"
  assumes ok: "process_destroy p s = Some s'" and c: "one_cpu s" "\<not> sched_lock (runq s)" and W: "waiting s \<subseteq> W"
  shows "\<exists>xs. wakes W xs s s'"
proof -
  obtain P where P: "procs s p = Some P" using ok by (cases "procs s p") (auto simp: process_destroy_def)
  have "pid P \<noteq> 1" using ok P by (auto simp: process_destroy_def)
  note e = ok [unfolded process_destroy_def P bind.bind_lunit if_not_P [OF this] Let_def]
  obtain s1 where s1: "as_destroy as_glue_dispatcher (p_as P) s = Some s1" using e by (rule bind_SomeE)
  note e = e [unfolded s1 bind.bind_lunit]
  obtain s2 where s2: "kfree (p_as P) s1 = Some s2" using e by (rule bind_SomeE)
  note e = e [unfolded s2 bind.bind_lunit]
  obtain l where l: "spinlock_lock (plock P) = Some l" using e by (rule bind_SomeE)
  note e = e [unfolded l bind.bind_lunit]
  obtain s3 where s3: "scheduler_event_notify SCHED_EV_PEXIT (pid P)
      (proc_upd p (\<lambda>P. P\<lparr>plock := l\<rparr>) (s2\<lparr>spaces := (spaces s2)(p_as P := None)\<rparr>)) = Some s3"
    using e by (rule bind_SomeE)
  note e = e [unfolded s3 bind.bind_lunit]
  obtain Q where Q: "procs s3 (p_parent P) = Some Q" using e by (rule bind_SomeE)
  note e = e [unfolded Q bind.bind_lunit]
  obtain s4 where s4: "scheduler_event_notify SCHED_EV_PEXIT_PARENT (pid Q) s3 = Some s4" using e by (rule bind_SomeE)
  have s': "s' = proc_upd p (\<lambda>P. P\<lparr>plock := spinlock_unlock l\<rparr>) s4" using e s4 by simp
  let ?t = "proc_upd p (\<lambda>P. P\<lparr>plock := l\<rparr>) (s2\<lparr>spaces := (spaces s2)(p_as P := None)\<rparr>)"
  have "mem_only s s2"
    using as_destroy_mem_only [OF s1] heap_mem_only [OF kfree_heap_only [OF s2]] by (rule mem_only_trans)
  note m = mem_only_kproc [OF this]
  have t: "cpus ?t = cpus s" "threads ?t = threads s" "waiting_list ?t = waiting_list s" using m by simp_all
  then have c': "one_cpu ?t" "\<not> sched_lock (runq ?t)" "waiting ?t \<subseteq> W" using c W by (simp_all add: one_cpu_def waiting_def)
  from notify_wakes [OF s3 c'] obtain xs where xs: "wakes W xs ?t s3" by blast
  then have "waiting s3 \<subseteq> waiting ?t" by (simp add: wakes_def)
  then have "waiting s3 \<subseteq> W" using c'(3) by (rule subset_trans)
  with notify_wakes [OF s4] wakes_unlocked [OF xs] obtain ys where "wakes W ys s3 s4" by blast
  from wakes_trans [OF xs this] have "wakes W (xs @ ys) ?t s'" by (rule wakes_end) (simp_all add: s')
  then have "wakes W (xs @ ys) s s'" by (rule wakes_start) (simp_all add: m)
  then show ?thesis by blast
qed

lemma thread_destroy_wakes:
  fixes s s' :: "'a kproc_scheme"
  assumes ok: "thread_destroy t s = Some s'" and c: "one_cpu s" "\<not> sched_lock (runq s)" and W: "waiting s \<subseteq> W"
  shows "\<exists>xs u. wakes W xs s u \<and> cpus s' = cpus u \<and> waiting_list s' = waiting_list u
    \<and> (\<forall>x. x \<noteq> t \<longrightarrow> threads s' x = threads u x)"
proof -
  from ok obtain th where th: "threads s t = Some th" by (cases "threads s t") (auto simp: thread_destroy_def)
  let ?k = "align (th_kstack th) PAGE_SIZE - PAGE_SIZE"
  let ?s = "proc_upd (th_parent th) (\<lambda>P. P\<lparr>p_threads := remove1 t (p_threads P), thread_count := thread_count P - 1\<rparr>)
     (thread_upd t (\<lambda>th. th\<lparr>th_kstack := ?k\<rparr>) s)"
  from ok th obtain P s1 s2 where P: "procs ?s (th_parent th) = Some P"
    and s1: "(if thread_count P = 0 then process_destroy (th_parent th) ?s else Some ?s) = Some s1"
    and s2: "as_unmap as_glue_dispatcher (kernel_as s1) ?k AS_UNMAP_RELEASE s1 = Some s2"
    and s': "s' = s2\<lparr>threads := (threads s2)(t := None)\<rparr>"
    unfolding thread_destroy_def Let_def by (auto elim!: bind_SomeE simp del: proc_upd_simps(1) split: if_splits)
  have c': "one_cpu ?s" "\<not> sched_lock (runq ?s)" "waiting ?s \<subseteq> W" using c W by (simp_all add: waiting_def)
  have "\<exists>xs. wakes W xs ?s s1"
    using s1 process_destroy_wakes [OF _ c', of "th_parent th" s1] wakes_refl [OF c'(1, 2), of W]
    by (auto split: if_splits)
  then obtain xs where xs: "wakes W xs ?s s1" by blast
  have "mem_only s1 s2" by (rule as_unmap_mem_only [OF s2]) (simp add: as_glue_dispatcher_def)
  note m = mem_only_kproc [OF this]
  define u where "u = s1\<lparr>threads := (threads s1)(t := (if t \<in> set xs then Some (woken th) else Some th))\<rparr>"
  have "wakes W xs s u"
    using xs th unfolding wakes_def by (auto simp: u_def waiting_def one_cpu_def fun_eq_iff split: if_splits)
  then show ?thesis using m by (intro exI [of _ xs] exI [of _ u]) (auto simp: s' u_def)
qed

text \<open>A thread that may stay in the run queue.\<close>

definition settled :: "'a kproc_scheme \<Rightarrow> ptr \<Rightarrow> bool" where
  "settled s t = (case threads s t of None \<Rightarrow> False
     | Some th \<Rightarrow> th_state th \<noteq> THREAD_STATE_BLOCKED \<and> (th_state th = THREAD_STATE_ZOMBIE \<longrightarrow> t = sc_running (runq s)))"

definition in_state :: "int \<Rightarrow> 'a kproc_scheme \<Rightarrow> ptr \<Rightarrow> bool" where
  "in_state st s t = (case threads s t of None \<Rightarrow> False | Some th \<Rightarrow> th_state th = st)"

lemma settled_cong: "threads s' t = threads s t \<Longrightarrow> sc_running (runq s') = sc_running (runq s) \<Longrightarrow> settled s' t = settled s t"
  by (simp add: settled_def split: option.split)

lemma in_state_cong: "threads s' t = threads s t \<Longrightarrow> in_state st s' t = in_state st s t"
  by (simp add: in_state_def)

text \<open>What one round of the cleaning loop keeps; \<open>xs\<close> are the threads still to be visited.\<close>

definition clean_inv :: "ptr set \<Rightarrow> ptr list \<Rightarrow> 'a kproc_scheme \<Rightarrow> bool" where
  "clean_inv W xs s \<longleftrightarrow> one_cpu s \<and> sched_lock (runq s) \<and> distinct (sc_threads (runq s)) \<and> distinct xs
     \<and> set xs \<subseteq> set (sc_threads (runq s)) \<and> (\<forall>t \<in> set (sc_threads (runq s)) - set xs. settled s t)
     \<and> (\<forall>t \<in> set xs. threads s t \<noteq> None) \<and> (\<forall>t \<in> set xs. in_state THREAD_STATE_ZOMBIE s t \<longrightarrow> t \<notin> W)
     \<and> waiting s \<subseteq> W"

definition clean_step :: "'a kproc_scheme \<Rightarrow> 'a kproc_scheme \<Rightarrow> bool" where
  "clean_step s s' \<longleftrightarrow> sc_running (runq s') = sc_running (runq s) \<and> sc_idle (runq s') = sc_idle (runq s)
     \<and> (\<forall>t \<in> set (sc_threads (runq s)). in_state THREAD_STATE_RUNNING s t \<longrightarrow>
           t \<in> set (sc_threads (runq s')) \<and> threads s' t = threads s t)"

lemma clean_destroy:
  fixes s s' :: "'a kproc_scheme"
  assumes inv: "clean_inv W (t # xs) s" and z: "in_state THREAD_STATE_ZOMBIE s t"
    and ok: "thread_destroy t (sched_lock_release 0 (sched_upd 0 (\<lambda>sc. sc\<lparr>sc_threads := remove1 t (sc_threads sc)\<rparr>) s)) = Some u"
    and acq: "sched_lock_acquire 0 u = Some s'"
  shows "clean_inv W xs s' \<and> clean_step s s'"
proof -
  define s0 where "s0 = sched_lock_release 0 (sched_upd 0 (\<lambda>sc. sc\<lparr>sc_threads := remove1 t (sc_threads sc)\<rparr>) s)"
  have c: "one_cpu s0" "\<not> sched_lock (runq s0)" "waiting s0 \<subseteq> W" "threads s0 = threads s"
    and q: "sc_threads (runq s0) = remove1 t (sc_threads (runq s))"
    and r: "sc_running (runq s0) = sc_running (runq s)" "sc_idle (runq s0) = sc_idle (runq s)"
    using inv by (simp_all add: s0_def clean_inv_def sched_lock_release_def spinlock_defs waiting_def)
  from thread_destroy_wakes [OF ok [folded s0_def] c(1-3)] obtain new v where v: "wakes W new s0 v" "cpus u = cpus v"
    "waiting_list u = waiting_list v" "\<forall>x. x \<noteq> t \<longrightarrow> threads u x = threads v x" by blast
  have cu: "one_cpu u" using v(1, 2) by (simp add: wakes_def one_cpu_def)
  have s': "s' = sched_upd 0 (\<lambda>sc. sc\<lparr>sched_lock := True\<rparr>) u"
    using acq by (auto simp: sched_lock_acquire_def spinlock_defs elim!: bind_SomeE split: if_splits)
  have d: "distinct (sc_threads (runq s))" "t \<notin> W" "t \<in> set (sc_threads (runq s))" "t \<notin> set xs" "set xs \<subseteq> set (sc_threads (runq s))"
    using inv z by (auto simp: clean_inv_def)
  have q': "sc_threads (runq s') = remove1 t (sc_threads (runq s)) @ new"
    using v(1, 2) q cu by (simp add: s' wakes_def)
  have "distinct (sc_threads (runq s0))" unfolding q by (rule distinct_remove1 [OF d(1)])
  then have "distinct (sc_threads (runq v))" using v(1) unfolding wakes_def by blast
  then have dq': "distinct (sc_threads (runq s'))" using v(2) cu by (simp add: s')
  have nt: "t \<notin> set new" using v(1) d(2) by (auto simp: wakes_def)
  have th: "threads s' x = threads s x" if "x \<in> set (sc_threads (runq s))" "x \<noteq> t" for x
    using that v(1, 4) dq' q' c(4) d(1) by (auto simp: s' wakes_def)
  have tn: "in_state THREAD_STATE_RUNNING s' x" if "x \<in> set new" for x
  proof -
    have "threads s' x = threads v x" using v(4) nt that by (auto simp: s')
    moreover have "threads v x = map_option woken (threads s x)" "threads s x \<noteq> None"
      using v(1) that c(4) by (auto simp: wakes_def)
    ultimately show ?thesis by (auto simp: in_state_def)
  qed
  have rr: "sc_running (runq s') = sc_running (runq s)" "sc_idle (runq s') = sc_idle (runq s)"
    using v(1, 2) r cu by (simp_all add: s' wakes_def)
  have "settled s' x" if "x \<in> set (sc_threads (runq s')) - set xs" for x
  proof (cases "x \<in> set new")
    case True
    then show ?thesis using tn [OF True] by (auto simp: settled_def in_state_def thread_states split: option.splits)
  next
    case False
    then have x: "x \<in> set (sc_threads (runq s))" "x \<noteq> t" "x \<notin> set xs" using that q' d(1) by auto
    then have "settled s x" using inv by (simp add: clean_inv_def)
    with settled_cong [OF th [OF x(1, 2)] rr(1)] show ?thesis by simp
  qed
  moreover have "\<forall>x \<in> set xs. threads s' x = threads s x" using th d(4, 5) by auto
  moreover have "set xs \<subseteq> set (sc_threads (runq s'))" using q' d(1, 4, 5) by auto
  moreover have "waiting s' \<subseteq> W"
  proof -
    have "waiting v \<subseteq> waiting s0" using v(1) by (simp add: wakes_def)
    moreover have "waiting s' = waiting v" using v(3) by (simp add: s' waiting_def)
    ultimately show ?thesis using c(3) by simp
  qed
  ultimately have "clean_inv W xs s'"
    using inv cu dq' by (simp add: clean_inv_def in_state_def s')
  moreover have "clean_step s s'"
  proof -
    have "x \<in> set (sc_threads (runq s')) \<and> threads s' x = threads s x"
      if x: "x \<in> set (sc_threads (runq s))" "in_state THREAD_STATE_RUNNING s x" for x
    proof -
      have "x \<noteq> t" using x(2) z by (auto simp: in_state_def thread_states split: option.splits)
      with th [OF x(1)] x(1) show ?thesis by (simp add: q')
    qed
    with rr show ?thesis by (simp add: clean_step_def)
  qed
  ultimately show ?thesis ..
qed

lemma clean_step_trans: "clean_step s t \<Longrightarrow> clean_step t u \<Longrightarrow> clean_step s u"
  by (auto simp: clean_step_def in_state_def)

lemma clean_one_step:
  fixes s s' :: "'a kproc_scheme"
  assumes inv: "clean_inv W (t # xs) s" and ok: "clean_one 0 t s = Some s'"
  shows "clean_inv W xs s' \<and> clean_step s s'"
proof -
  obtain th where th: "threads s t = Some th" using ok by (cases "threads s t") (auto simp: clean_one_def)
  have c: "one_cpu s" and d: "distinct (sc_threads (runq s))" "t \<in> set (sc_threads (runq s))" "t \<notin> set xs"
    using inv by (auto simp: clean_inv_def)
  consider (b) "th_state th = THREAD_STATE_BLOCKED" | (zr) "th_state th = THREAD_STATE_ZOMBIE" "sc_running (runq s) = t"
    | (z) "th_state th = THREAD_STATE_ZOMBIE" "sc_running (runq s) \<noteq> t"
    | (o) "th_state th \<noteq> THREAD_STATE_BLOCKED" "th_state th \<noteq> THREAD_STATE_ZOMBIE" by blast
  then show ?thesis
  proof cases
    case b
    then have s': "s' = sched_upd 0 (\<lambda>sc. sc\<lparr>sc_threads := remove1 t (sc_threads sc)\<rparr>) s"
      using ok th by (simp add: clean_one_def)
    have set: "set (remove1 t (sc_threads (runq s))) = set (sc_threads (runq s)) - {t}" using d(1) by simp
    have same: "settled s' x = settled s x" "in_state st s' x = in_state st s x" for x st
      by (rule settled_cong in_state_cong; simp add: s' c)+
    have "clean_inv W xs s'" using inv c unfolding clean_inv_def same by (auto simp: s' waiting_def)
    moreover have "clean_step s s'"
      using c b th by (auto simp: clean_step_def s' set in_state_def thread_states)
    ultimately show ?thesis ..
  next
    case z
    then have "\<exists>u. thread_destroy t (sched_lock_release 0 (sched_upd 0 (\<lambda>sc. sc\<lparr>sc_threads := remove1 t (sc_threads sc)\<rparr>) s)) = Some u
        \<and> sched_lock_acquire 0 u = Some s'"
      using ok th by (auto simp: clean_one_def thread_states Let_def elim: bind_SomeE)
    with clean_destroy [OF inv] z(1) th show ?thesis by (auto simp: in_state_def)
  next
    case zr
    then have "s' = s" using ok th by (simp add: clean_one_def thread_states)
    then show ?thesis using inv zr th by (auto simp: clean_inv_def clean_step_def settled_def thread_states)
  next
    case o
    then have "s' = s" using ok th by (simp add: clean_one_def)
    then show ?thesis using inv o th by (auto simp: clean_inv_def clean_step_def settled_def)
  qed
qed

lemma clean_loop:
  assumes "for_each (clean_one 0) xs s = Some s'" and "clean_inv W xs s"
  shows "clean_inv W [] s' \<and> clean_step s s'"
  using assms
proof (induction xs arbitrary: s)
  case (Cons t xs)
  then obtain u where u: "clean_one 0 t s = Some u" "for_each (clean_one 0) xs u = Some s'"
    by (cases "clean_one 0 t s") auto
  note st = clean_one_step [OF Cons.prems(2) u(1)]
  with Cons.IH [OF u(2)] show ?case by (blast intro: clean_step_trans)
qed (simp add: clean_step_def)

lemma scheduler_clean_keeps:
  fixes s s' :: "'a kproc_scheme"
  assumes c: "one_cpu s" "sched_lock (runq s)" "distinct (sc_threads (runq s))" "\<forall>t \<in> set (sc_threads (runq s)). threads s t \<noteq> None"
    and z: "\<forall>t \<in> set (sc_threads (runq s)). in_state THREAD_STATE_ZOMBIE s t \<longrightarrow> t \<notin> waiting s"
    and ok: "scheduler_clean 0 s = Some s'"
  shows "clean_inv (waiting s) [] s'" and "clean_step s s'"
proof -
  have "clean_inv (waiting s) (sc_threads (runq s)) s" using c z by (simp add: clean_inv_def)
  from clean_loop [OF ok [unfolded scheduler_clean_def] this]
  show "clean_inv (waiting s) [] s'" "clean_step s s'" by simp_all
qed

lemma thread_save_state_Some:
  assumes "thread_save_state t regs s = Some s'"
  shows "cpus s' = cpus s" and "procs s' = procs s" and "spaces s' = spaces s"
    and "in_state st s' u = in_state st s u" and "(threads s' u = None) = (threads s u = None)"
  using assms by (auto simp: thread_save_state_def in_state_def split: if_splits option.splits)

lemma scheduler_switch_Some:
  fixes s s' :: "'a kproc_scheme"
  assumes ok: "scheduler_switch 0 t regs s = Some s'" and c: "one_cpu s"
  shows "\<not> sched_lock (runq s')" and "sc_running (runq s') = t" and "sc_idle (runq s') = sc_idle (runq s)"
    and "sc_threads (runq s') = sc_threads (runq s)" and "sc_time (runq s') = SCHEDULER_TIME" and "current s' = t"
    and "in_state st s' u = in_state st s u" and "one_cpu s'"
proof -
  let ?s = "sched_upd 0 (\<lambda>sc. sc\<lparr>sc_running := t, sc_time := SCHEDULER_TIME\<rparr>) s"
  from ok obtain v and P :: process and A :: as and N :: thread where v: "thread_save_state (sc_running (runq s)) regs ?s = Some v"
    and s': "s' = (sched_lock_release 0 v)\<lparr>tss_esp0 := th_kstack N, cpu_cr3 := as_cr3 A, running_as := Some (p_as P),
      cpu_regs := th_regs N, current := t\<rparr>"
    unfolding scheduler_switch_def i386_switch_def Let_def by (elim bind_SomeE) (rule that [OF _ sym], assumption, erule option.inject [THEN iffD1])
  note st = thread_save_state_Some [OF v]
  have v1: "one_cpu v" "runq v = (runq s)\<lparr>sc_running := t, sc_time := SCHEDULER_TIME\<rparr>"
    using st(1) c by (simp_all add: one_cpu_def sched_upd_def)
  show "\<not> sched_lock (runq s')" "sc_running (runq s') = t" "sc_idle (runq s') = sc_idle (runq s)"
    "sc_threads (runq s') = sc_threads (runq s)" "sc_time (runq s') = SCHEDULER_TIME" "current s' = t"
    using v1 by (simp_all add: s' sched_lock_release_def spinlock_defs)
  show "in_state st s' u = in_state st s u" using st(4) [of st u] by (simp add: s' sched_lock_release_def in_state_def)
  show "one_cpu s'" using v1(1) by (simp add: s' sched_lock_release_def one_cpu_def sched_upd_def)
qed


text \<open>The state in which an update starts to clean the queue, and what it does after that.\<close>

abbreviation ticked :: "'a kproc_scheme \<Rightarrow> 'a kproc_scheme" where
  "ticked s \<equiv> sched_upd 0 (\<lambda>sc. sc\<lparr>sched_lock := True, sc_time := sc_time sc - 1\<rparr>) s"

definition reschedule :: "regs_ptr \<Rightarrow> bool \<Rightarrow> 'a kproc_scheme \<Rightarrow> 'a kproc_scheme option" where
  "reschedule regs force s = do {
     (t, ts) \<leftarrow> scheduler_elect (sc_threads (runq s)) (sc_idle (runq s)) (sc_running (runq s)) force;
     let s' = sched_upd 0 (\<lambda>sc. sc\<lparr>sc_threads := ts\<rparr>) s;
     if t \<noteq> sc_running (runq s) then scheduler_switch 0 t regs s'
     else Some (sched_lock_release 0 (sched_upd 0 (\<lambda>sc. sc\<lparr>sc_time := SCHEDULER_TIME\<rparr>) s')) }"

definition must_resched :: "regs_ptr \<Rightarrow> bool \<Rightarrow> 'a kproc_scheme \<Rightarrow> bool" where
  "must_resched regs force s \<longleftrightarrow> sc_time (runq s) = 0 \<or> \<not> in_state THREAD_STATE_RUNNING s (sc_running (runq s))
     \<or> regs = None \<or> force \<or> sc_running (runq s) = sc_idle (runq s) \<and> sc_threads (runq s) \<noteq> []"

lemma scheduler_update_eq:
  fixes s :: "'a kproc_scheme"
  assumes c: "one_cpu s" "\<not> sched_lock (runq s)" and r: "threads s (sc_running (runq s)) \<noteq> None \<or> sc_time (runq s) = 1"
  shows "scheduler_update regs force s = (if must_resched regs force (ticked s)
    then Option.bind (scheduler_clean 0 (ticked s)) (reschedule regs force) else Some (sched_lock_release 0 (ticked s)))"
proof -
  have l: "sched_lock_acquire 0 s = Some (sched_upd 0 (\<lambda>sc. sc\<lparr>sched_lock := True\<rparr>) s)"
    using c(2) by (simp add: sched_lock_acquire_def spinlock_defs)
  have t: "sched_upd 0 (\<lambda>sc. sc\<lparr>sc_time := sc_time sc - 1\<rparr>) (sched_upd 0 (\<lambda>sc. sc\<lparr>sched_lock := True\<rparr>) s) = ticked s"
    using c(1) by (simp add: sched_upd_twice)
  have rs: "(if sc_time (runq (ticked s)) \<le> 0 then Some True
      else do {
        r \<leftarrow> threads (ticked s) (sc_running (runq (ticked s)));
        Some (th_state r \<noteq> THREAD_STATE_RUNNING \<or> regs = None \<or> force
           \<or> sc_running (runq (ticked s)) = sc_idle (runq (ticked s)) \<and> sc_threads (runq (ticked s)) \<noteq> [])
      }) = Some (must_resched regs force (ticked s))"
    using r c(1) by (auto simp: must_resched_def in_state_def word_le_0_iff split: option.splits)
  show ?thesis
    unfolding scheduler_update_def cpu_get_0(1) [OF c(1)] bind.bind_lunit l Let_def t rs reschedule_def [abs_def] by simp
qed


lemma must_resched_cases:
  assumes "\<not> must_resched regs force (ticked s)" and "one_cpu s"
  shows "in_state THREAD_STATE_RUNNING s (sc_running (runq s))"
  using assms by (simp add: must_resched_def in_state_def)

text \<open>The thread that runs after an update, from the threads left in the queue.\<close>

lemma reschedule_elects:
  fixes s s' :: "'a kproc_scheme"
  assumes inv: "clean_inv W [] s" and ok: "reschedule regs force s = Some s'"
  shows "one_cpu s'" and "\<not> sched_lock (runq s')" and "sc_idle (runq s') = sc_idle (runq s)" and "set (sc_threads (runq s')) = set (sc_threads (runq s))"
    and "distinct (sc_threads (runq s'))" and "in_state st s' u = in_state st s u" and "sc_time (runq s') = SCHEDULER_TIME"
    and "sc_running (runq s') \<in> set (sc_threads (runq s)) \<or> sc_running (runq s') = sc_idle (runq s)"
    and "force \<longrightarrow> sc_running (runq s') = sc_running (runq s) \<longrightarrow> sc_running (runq s') = sc_idle (runq s)"
    and "\<not> force \<longrightarrow> sc_threads (runq s) \<noteq> [] \<longrightarrow> sc_running (runq s') \<in> set (sc_threads (runq s))"
proof -
  have c: "one_cpu s" "distinct (sc_threads (runq s))" using inv by (simp_all add: clean_inv_def)
  from scheduler_elect_returns [OF c(2), of "sc_idle (runq s)" "sc_running (runq s)" force] obtain t ts
    where e: "scheduler_elect (sc_threads (runq s)) (sc_idle (runq s)) (sc_running (runq s)) force = Some (t, ts)"
      "set ts = set (sc_threads (runq s))" "distinct ts" "t \<in> set (sc_threads (runq s)) \<or> t = sc_idle (runq s)"
      "force \<longrightarrow> t = sc_running (runq s) \<longrightarrow> t = sc_idle (runq s)"
      "\<not> force \<longrightarrow> sc_threads (runq s) \<noteq> [] \<longrightarrow> t \<in> set (sc_threads (runq s))" by blast
  let ?s = "sched_upd 0 (\<lambda>sc. sc\<lparr>sc_threads := ts\<rparr>) s"
  have "one_cpu s' \<and> \<not> sched_lock (runq s') \<and> sc_idle (runq s') = sc_idle (runq s) \<and> sc_threads (runq s') = ts
    \<and> sc_running (runq s') = t \<and> sc_time (runq s') = SCHEDULER_TIME \<and> (\<forall>st u. in_state st s' u = in_state st s u)"
  proof (cases "t = sc_running (runq s)")
    case True
    then have "s' = sched_lock_release 0 (sched_upd 0 (\<lambda>sc. sc\<lparr>sc_time := SCHEDULER_TIME\<rparr>) ?s)"
      using ok e(1) by (simp add: reschedule_def Let_def)
    then show ?thesis using c True by (simp add: sched_lock_release_def spinlock_defs in_state_def)
  next
    case False
    then have sw: "scheduler_switch 0 t regs ?s = Some s'" using ok e(1) by (simp add: reschedule_def Let_def)
    have "one_cpu ?s" using c by simp
    note scheduler_switch_Some [OF sw this]
    then show ?thesis using c by (simp add: in_state_def)
  qed
  then show "one_cpu s'" "\<not> sched_lock (runq s')" "sc_idle (runq s') = sc_idle (runq s)" "set (sc_threads (runq s')) = set (sc_threads (runq s))"
    "distinct (sc_threads (runq s'))" "in_state st s' u = in_state st s u" "sc_time (runq s') = SCHEDULER_TIME"
    "sc_running (runq s') \<in> set (sc_threads (runq s)) \<or> sc_running (runq s') = sc_idle (runq s)"
    "force \<longrightarrow> sc_running (runq s') = sc_running (runq s) \<longrightarrow> sc_running (runq s') = sc_idle (runq s)"
    "\<not> force \<longrightarrow> sc_threads (runq s) \<noteq> [] \<longrightarrow> sc_running (runq s') \<in> set (sc_threads (runq s))"
    using e by auto
qed




text \<open>
  Three threads of one process, at 0x10000, 0x20000 and 0x30000, and the idle thread at 0x40000. The
  first one runs and has just been blocked, the third one waits for timer event 7.
\<close>

definition thread_example :: "int \<Rightarrow> int \<Rightarrow> int \<Rightarrow> thread" where
  "thread_example st ev data = \<lparr>th_state = st, th_parent = 0x500, th_uid = 0, th_gid = 0, th_tid = 1, th_cpu = 0,
     th_event = \<lparr>ev_event = ev, ev_data = data\<rparr>, th_interrupts = [], th_kstack = 0,
     th_regs = \<lparr>tr_gs = 0, tr_fs = 0, tr_es = 0, tr_ds = 0, tr_edi = 0, tr_esi = 0, tr_ebp = 0, tr_esp0 = 0, tr_ebx = 0,
       tr_edx = 0, tr_ecx = 0, tr_eax = 0, tr_eip = 0, tr_cs = 0, tr_eflags = 0, tr_esp = 0, tr_ss = 0\<rparr>\<rparr>"

definition process_example :: process where
  "process_example = \<lparr>pid = 2, p_parent = 0, p_state = PROCESS_STATE_ALIVE, exit_state = 0, p_type = 0, p_as = 0x9000,
     thread_count = 4, plock = False, files_lock = False, files = [], p_threads = [0x10000, 0x20000, 0x30000, 0x40000], children = []\<rparr>"

definition kproc_example :: kproc where
  "kproc_example = kmmu.extend mmu_example (kproc.fields
     [0x10000 \<mapsto> thread_example THREAD_STATE_BLOCKED 0 0, 0x20000 \<mapsto> thread_example THREAD_STATE_RUNNING 0 0,
      0x30000 \<mapsto> thread_example THREAD_STATE_BLOCKED SCHED_EV_TIMER 7, 0x40000 \<mapsto> thread_example THREAD_STATE_RUNNING 0 0]
     [0x500 \<mapsto> process_example] [0x500]
     [\<lparr>cpu_id = 0, sched = \<lparr>sc_time = 5, sc_running = 0x10000, sc_idle = 0x40000, sc_thread_num = 3,
         sched_lock = False, sc_threads = [0x10000, 0x20000]\<rparr>, cpu_timers = []\<rparr>]
     [[0x30000], [], [], [], [], []] False 100
     (replicate TIMER_NUM \<lparr>tm_free = True, tm_type = 0, tm_value = 0, tm_next = 0, tm_callback = None, tm_data = 0\<rparr>) False 0x10000
     0 (th_regs (thread_example 0 0 0)))"

lemmas kproc_example_defs = kproc_example_def kmmu.defs kproc.defs

lemma kproc_example_simps [simp]:
  "one_cpu kproc_example" "\<not> sched_lock (runq kproc_example)" "sc_threads (runq kproc_example) = [0x10000, 0x20000]"
  "sc_running (runq kproc_example) = 0x10000" "waiting_list kproc_example = [[0x30000], [], [], [], [], []]"
  "threads kproc_example 0x10000 = Some (thread_example THREAD_STATE_BLOCKED 0 0)"
  "threads kproc_example 0x20000 = Some (thread_example THREAD_STATE_RUNNING 0 0)"
  "threads kproc_example 0x30000 = Some (thread_example THREAD_STATE_BLOCKED SCHED_EV_TIMER 7)"
  "\<not> event_lock kproc_example"
  by (simp_all add: kproc_example_defs one_cpu_def)




text \<open>Without dead threads the loop only removes the blocked threads.\<close>

lemma clean_loop_alive:
  assumes "one_cpu s" "sched_lock (runq s)" "distinct xs"
    and "\<forall>t \<in> set xs. threads s t \<noteq> None \<and> (in_state THREAD_STATE_ZOMBIE s t \<longrightarrow> t = sc_running (runq s))"
  shows "for_each (clean_one 0) xs s = Some (sched_upd 0 (\<lambda>sc. sc\<lparr>sc_threads :=
     fold remove1 (filter (in_state THREAD_STATE_BLOCKED s) xs) (sc_threads sc)\<rparr>) s)"
  using assms
proof (induction xs arbitrary: s)
  case Nil
  then show ?case by (simp add: sched_upd_def one_cpu_def)
next
  case (Cons t xs)
  obtain th where th: "threads s t = Some th" using Cons.prems(4) by auto
  let ?s = "sched_upd 0 (\<lambda>sc. sc\<lparr>sc_threads := remove1 t (sc_threads sc)\<rparr>) s"
  have st: "in_state st ?s = in_state st s" for st by (simp add: in_state_def fun_eq_iff)
  have "clean_one 0 t s = Some (if in_state THREAD_STATE_BLOCKED s t then ?s else s)"
    using th Cons.prems(4) by (auto simp: clean_one_def in_state_def)
  moreover have "for_each (clean_one 0) xs ?s = Some (sched_upd 0 (\<lambda>sc. sc\<lparr>sc_threads :=
     fold remove1 (filter (in_state THREAD_STATE_BLOCKED s) xs) (sc_threads sc)\<rparr>) ?s)"
    using Cons.IH [of ?s, unfolded st] Cons.prems by simp
  moreover note Cons.IH [of s]
  ultimately show ?case using Cons.prems by (simp add: sched_upd_twice)
qed

text \<open>A thread that the processor can be given to: its process and its address space exist.\<close>

definition switchable :: "'a kproc_scheme \<Rightarrow> ptr \<Rightarrow> bool" where
  "switchable s t = (case threads s t of None \<Rightarrow> False | Some th \<Rightarrow>
     (case procs s (th_parent th) of None \<Rightarrow> False | Some P \<Rightarrow> spaces s (p_as P) \<noteq> None))"

lemma switchable_sched_upd [simp]: "switchable (sched_upd c f s) = switchable s"
  by (auto simp: switchable_def fun_eq_iff split: option.splits)

lemma scheduler_switch_returns:
  assumes "switchable s t" and "sc_running (runq s) = NULL \<or> threads s (sc_running (runq s)) \<noteq> None"
  shows "\<exists>s'. scheduler_switch 0 t regs s = Some s'"
proof -
  let ?s = "sched_upd 0 (\<lambda>sc. sc\<lparr>sc_running := t, sc_time := SCHEDULER_TIME\<rparr>) s"
  obtain N P A where t: "threads s t = Some N" "procs s (th_parent N) = Some P" "spaces s (p_as P) = Some A"
    using assms(1) by (auto simp: switchable_def split: option.splits)
  have "thread_save_state (sc_running (runq s)) regs ?s \<noteq> None"
    using assms(2) by (auto simp: thread_save_state_def split: option.splits)
  then obtain u where u: "thread_save_state (sc_running (runq s)) regs ?s = Some u" by blast
  have "procs u = procs s" "spaces u = spaces s" "threads u t \<noteq> None"
    using thread_save_state_Some(2, 3, 5) [OF u] t by simp_all
  then show ?thesis using t u by (auto simp add: scheduler_switch_def i386_switch_def Let_def sched_lock_release_def)
qed

text \<open>
  C18. Progress of the scheduler: if only the running thread of the queue may be dead, an update
  returns. When it reschedules, the blocked threads leave the queue, and if another thread is left then one of the queue
  gets the processor, not the idle one; otherwise the queue is the same, one tick of the time slice is spent, and
  the thread that runs is unchanged.
\<close>
theorem update_progress:
  fixes s :: "'a kproc_scheme"
  assumes c: "one_cpu s" "\<not> sched_lock (runq s)" "distinct (sc_threads (runq s))"
    and z: "\<forall>t \<in> set (sc_threads (runq s)). in_state THREAD_STATE_ZOMBIE s t \<longrightarrow> t = sc_running (runq s)"
    and sw: "\<forall>t \<in> insert (sc_idle (runq s)) (set (sc_threads (runq s))). switchable s t" "threads s (sc_running (runq s)) \<noteq> None"
  defines "ready \<equiv> filter (\<lambda>t. \<not> in_state THREAD_STATE_BLOCKED s t) (sc_threads (runq s))"
  shows "\<exists>s'. scheduler_update regs force s = Some s'
    \<and> (if must_resched regs force (ticked s)
       then set (sc_threads (runq s')) = set ready \<and> (\<not> set ready \<subseteq> {sc_running (runq s)} \<longrightarrow> sc_running (runq s') \<in> set ready)
       else sc_threads (runq s') = sc_threads (runq s) \<and> sc_running (runq s') = sc_running (runq s)
         \<and> sc_time (runq s') = sc_time (runq s) - 1)"
proof (cases "must_resched regs force (ticked s)")
  case False
  then show ?thesis
    using scheduler_update_eq [OF c(1, 2), of regs force] sw(2) c(1) by (simp add: sched_lock_release_def)
next
  case True
  let ?v = "sched_upd 0 (\<lambda>sc. sc\<lparr>sc_threads := ready\<rparr>) (ticked s)"
  have st: "in_state st (ticked s) = in_state st s" for st by (simp add: in_state_def fun_eq_iff)
  have ex: "threads s t \<noteq> None" if "t \<in> set (sc_threads (runq s))" for t
    using sw(1) that by (auto simp: switchable_def split: option.splits)
  have "fold remove1 (filter (in_state THREAD_STATE_BLOCKED s) (sc_threads (runq s))) (sc_threads (runq s)) = ready"
    using fold_remove1 [OF c(3)] by (auto simp: ready_def intro: filter_cong)
  moreover have "one_cpu (ticked s)" "sched_lock (runq (ticked s))" "distinct (sc_threads (runq s))"
    "\<forall>t \<in> set (sc_threads (runq s)). threads (ticked s) t \<noteq> None \<and> (in_state THREAD_STATE_ZOMBIE (ticked s) t \<longrightarrow> t = sc_running (runq (ticked s)))"
    using c z ex by (simp_all add: st)
  note clean_loop_alive [OF this, unfolded st]
  ultimately have cl: "scheduler_clean 0 (ticked s) = Some ?v"
    using c(1) by (auto simp: scheduler_clean_def intro!: sched_upd_cong)
  have d: "distinct ready" using c(3) by (simp add: ready_def)
  from scheduler_elect_returns [OF this, of "sc_idle (runq s)" "sc_running (runq s)" force] obtain t ts
    where e: "scheduler_elect ready (sc_idle (runq s)) (sc_running (runq s)) force = Some (t, ts)" "set ts = set ready"
      "t \<in> set ready \<or> t = sc_idle (runq s)" "\<not> (force \<and> set ready \<subseteq> {sc_running (runq s)}) \<longrightarrow> ready \<noteq> [] \<longrightarrow> t \<in> set ready" by blast
  let ?w = "sched_upd 0 (\<lambda>sc. sc\<lparr>sc_threads := ts\<rparr>) ?v"
  have "\<exists>s'. reschedule regs force ?v = Some s' \<and> sc_threads (runq s') = ts \<and> sc_running (runq s') = t"
  proof (cases "t = sc_running (runq s)")
    case True
    then show ?thesis using e(1) c(1) by (simp add: reschedule_def Let_def sched_lock_release_def)
  next
    case False
    have "switchable ?w t" using e(3) sw(1) by (auto simp: ready_def)
    moreover have "sc_running (runq ?w) = NULL \<or> threads ?w (sc_running (runq ?w)) \<noteq> None" using sw(2) c(1) by simp
    ultimately obtain s' where s': "scheduler_switch 0 t regs ?w = Some s'" using scheduler_switch_returns by blast
    have "one_cpu ?w" using c(1) by simp
    with scheduler_switch_Some [OF s' this] s' False e(1) c(1) show ?thesis by (simp add: reschedule_def Let_def)
  qed
  moreover have "ready \<noteq> []" if "\<not> set ready \<subseteq> {sc_running (runq s)}" using that by auto
  ultimately show ?thesis
    using scheduler_update_eq [OF c(1, 2), of regs force] sw(2) True cl e(2, 4) by auto
qed


theorem update_progress_witness:
  "\<exists>s'. scheduler_update None True kproc_example = Some s' \<and> sc_threads (runq s') = [0x20000] \<and> sc_running (runq s') = 0x20000"
proof -
  have i: "in_state st kproc_example 0x10000 = (st = THREAD_STATE_BLOCKED)" "in_state st kproc_example 0x20000 = (st = THREAD_STATE_RUNNING)" for st
    by (auto simp: in_state_def thread_example_def)
  have sw: "\<forall>t \<in> insert (sc_idle (runq kproc_example)) (set (sc_threads (runq kproc_example))). switchable kproc_example t"
    by (simp add: kproc_example_defs switchable_def thread_example_def process_example_def mmu_example_def)
  have z: "\<forall>t \<in> set (sc_threads (runq kproc_example)). in_state THREAD_STATE_ZOMBIE kproc_example t \<longrightarrow> t = sc_running (runq kproc_example)"
    by (simp add: i thread_states)
  have "must_resched None True (ticked kproc_example)" by (simp add: must_resched_def)
  with update_progress [OF _ _ _ z sw, of None True] obtain s' where s': "scheduler_update None True kproc_example = Some s'"
    "set (sc_threads (runq s')) = {0x20000}" "sc_running (runq s') = 0x20000" by (auto simp: i thread_states)
  moreover have "map_option (\<lambda>s. sc_threads (runq s)) (scheduler_update None True kproc_example) = Some [0x20000]" by code_simp
  ultimately show ?thesis by auto
qed


section \<open>Timers\<close>

text \<open>What every operation but those on timers leaves unchanged.\<close>

definition timer_view :: "'a kproc_scheme \<Rightarrow> timer_entry list \<times> bool \<times> u32 \<times> (int \<times> nat list) list" where
  "timer_view s = (timers s, timer_lock s, ticks s, map (\<lambda>c. (cpu_id c, cpu_timers c)) (cpus s))"

abbreviation timer_frame :: "'a kproc_scheme \<Rightarrow> 'a kproc_scheme \<Rightarrow> bool" where
  "timer_frame s s' \<equiv> timer_view s' = timer_view s"

named_theorems timer_fr

lemma timer_view_simps [simp]:
  "timer_view (sched_upd c f s) = timer_view s" "timer_view (thread_upd t g s) = timer_view s"
  "timer_view (proc_upd p h s) = timer_view s" "timer_view (sched_lock_release c s) = timer_view s"
  "timer_view (s\<lparr>event_lock := l\<rparr>) = timer_view s" "timer_view (s\<lparr>waiting_list := w\<rparr>) = timer_view s"
  "timer_view (s\<lparr>threads := ts\<rparr>) = timer_view s" "timer_view (s\<lparr>spaces := as\<rparr>) = timer_view s"
  "timer_view (s\<lparr>current := u\<rparr>) = timer_view s" "timer_view (s\<lparr>cpu_cr3 := x\<rparr>) = timer_view s"
  "timer_view (s\<lparr>running_as := r\<rparr>) = timer_view s" "timer_view (s\<lparr>tss_esp0 := k\<rparr>) = timer_view s"
  "timer_view (s\<lparr>cpu_regs := rs\<rparr>) = timer_view s"
proof -
  have "map (\<lambda>c. (cpu_id c, cpu_timers c)) ((cpus s)[c := (cpus s ! c)\<lparr>sched := z\<rparr>]) = map (\<lambda>c. (cpu_id c, cpu_timers c)) (cpus s)" for z
    by (cases "c < length (cpus s)") (auto simp: list_eq_iff_nth_eq nth_list_update)
  then show "timer_view (sched_upd c f s) = timer_view s" "timer_view (sched_lock_release c s) = timer_view s"
    by (simp_all add: timer_view_def sched_upd_def sched_lock_release_def)
qed (simp_all add: timer_view_def thread_upd_def proc_upd_def)

lemma mem_only_timer_frame: "mem_only s s' \<Longrightarrow> timer_frame s s'"
  by (simp add: mem_only_kproc timer_view_def)

lemma for_each_timer_frame:
  assumes "for_each f xs s = Some s'" and "\<And>x s s'. f x s = Some s' \<Longrightarrow> timer_frame s s'"
  shows "timer_frame s s'"
  using assms(1) by (rule for_each_inv [where P = "timer_frame s"]) (simp_all add: assms(2))

lemma cpu_add_thread_timer_frame [timer_fr]: "cpu_add_thread t s = Some s' \<Longrightarrow> timer_frame s s'"
  by (auto simp: cpu_add_thread_def scheduler_add_thread_def sched_lock_acquire_def Let_def elim!: bind_SomeE split: if_splits)

lemma thread_unblock_timer_frame [timer_fr]: "thread_unblock t s = Some s' \<Longrightarrow> timer_frame s s'"
  unfolding thread_unblock_def by (drule cpu_add_thread_timer_frame) simp


lemma scheduler_event_notify_timer_frame [timer_fr]:
  fixes s s' :: "'a kproc_scheme"
  assumes "scheduler_event_notify event data s = Some s'"
  shows "timer_frame s s'"
proof -
  define f :: "ptr \<Rightarrow> 'a kproc_scheme \<Rightarrow> 'a kproc_scheme option" where "f = notify_one event data (nat (event - 1))"
  have "f w s = Some s' \<Longrightarrow> timer_frame s s'" for w and s s' :: "'a kproc_scheme"
    by (auto simp: f_def notify_one_def elim!: bind_SomeE split: if_splits dest!: timer_fr)
  moreover obtain u where "for_each f (waiting_list s ! nat (event - 1)) (s\<lparr>event_lock := True\<rparr>) = Some u" "s' = u\<lparr>event_lock := False\<rparr>"
    using assms by (auto simp: scheduler_event_notify_def f_def notify_one_def [abs_def] spinlock_defs Let_def elim!: bind_SomeE split: if_splits)
  ultimately show ?thesis using for_each_timer_frame [of f] by auto
qed

lemma process_destroy_timer_frame [timer_fr]:
  fixes s s' :: "'a kproc_scheme"
  assumes "process_destroy p s = Some s'"
  shows "timer_frame s s'"
proof -
  obtain P where P: "procs s p = Some P" "pid P \<noteq> 1"
    using assms by (cases "procs s p") (auto simp: process_destroy_def split: if_splits)
  note e = assms [unfolded process_destroy_def P(1) bind.bind_lunit if_not_P [OF P(2)] Let_def]
  obtain s1 where s1: "as_destroy as_glue_dispatcher (p_as P) s = Some s1" using e by (rule bind_SomeE)
  note e = e [unfolded s1 bind.bind_lunit]
  obtain s2 where s2: "kfree (p_as P) s1 = Some s2" using e by (rule bind_SomeE)
  have "timer_frame s s1" by (rule mem_only_timer_frame) (rule as_destroy_mem_only [OF s1])
  moreover have "timer_frame s1 s2" by (rule mem_only_timer_frame) (rule heap_mem_only [OF kfree_heap_only [OF s2]])
  moreover have "timer_frame s2 s'"
    using e [unfolded s2 bind.bind_lunit]
    by (elim bind_SomeE) (auto dest!: timer_fr)
  ultimately show ?thesis by simp
qed


lemma thread_destroy_timer_frame [timer_fr]:
  fixes s s' :: "'a kproc_scheme"
  assumes "thread_destroy t s = Some s'"
  shows "timer_frame s s'"
proof -
  have unmap: "timer_frame u u'" if "as_unmap as_glue_dispatcher (kernel_as u) k fl u = Some u'" for k fl and u u' :: "'a kproc_scheme"
    by (rule mem_only_timer_frame) (rule as_unmap_mem_only [OF that], simp add: as_glue_dispatcher_def)
  from assms show ?thesis
    unfolding thread_destroy_def Let_def
    by (elim bind_SomeE) (auto dest!: timer_fr unmap split: if_splits)
qed

lemma clean_one_timer_frame [timer_fr]: "clean_one c t s = Some s' \<Longrightarrow> timer_frame s s'"
  unfolding clean_one_def Let_def sched_lock_acquire_def
  by (auto elim!: bind_SomeE split: if_splits dest!: timer_fr)

lemma thread_save_state_timer_frame [timer_fr]: "thread_save_state t regs s = Some s' \<Longrightarrow> timer_frame s s'"
  by (auto simp: thread_save_state_def split: if_splits option.splits)

lemma scheduler_switch_timer_frame [timer_fr]: "scheduler_switch c t regs s = Some s' \<Longrightarrow> timer_frame s s'"
  unfolding scheduler_switch_def i386_switch_def Let_def
  by (auto elim!: bind_SomeE dest!: timer_fr)

lemma scheduler_clean_timer_frame [timer_fr]: "scheduler_clean c s = Some s' \<Longrightarrow> timer_frame s s'"
  unfolding scheduler_clean_def by (rule for_each_timer_frame) (auto dest: timer_fr)

lemma scheduler_update_timer_frame [timer_fr]: "scheduler_update regs force s = Some s' \<Longrightarrow> timer_frame s s'"
  unfolding scheduler_update_def Let_def sched_lock_acquire_def
  by (auto elim!: bind_SomeE bind_pairE split: if_splits dest!: timer_fr)

lemma run_callback_timer_frame [timer_fr]: "run_callback cb data s = Some s' \<Longrightarrow> timer_frame s s'"
  by (auto simp: run_callback_def timer_callback_sleep_def split: option.splits timer_callback.splits dest: timer_fr)


text \<open>
  The armed timers are distinct slots of the table that are not free; \<open>timer_after k\<close> is a slot after the
  handler of tick \<open>k\<close>.
\<close>

abbreviation armed :: "'a kproc_scheme \<Rightarrow> nat list" where
  "armed s \<equiv> cpu_timers (cpus s ! 0)"

definition timer_inv :: "'a kproc_scheme \<Rightarrow> bool" where
  "timer_inv s \<longleftrightarrow> one_cpu s \<and> length (timers s) = TIMER_NUM \<and> distinct (armed s)
     \<and> (\<forall>i \<in> set (armed s). i < TIMER_NUM \<and> \<not> tm_free (timers s ! i))"

definition timer_after :: "u32 \<Rightarrow> timer_entry \<Rightarrow> timer_entry" where
  "timer_after k tm = (if tm_next tm = k then if odd (tm_type tm) then tm\<lparr>tm_next := k + tm_value tm\<rparr> else tm\<lparr>tm_free := True\<rparr> else tm)"

definition expires :: "u32 \<Rightarrow> timer_entry \<Rightarrow> bool" where
  "expires k tm \<longleftrightarrow> tm_next tm = k \<and> even (tm_type tm)"

lemma timer_frame_armed:
  assumes "timer_frame s s'" and "one_cpu s"
  shows "timers s' = timers s" and "ticks s' = ticks s" and "armed s' = armed s" and "one_cpu s'"
proof -
  let ?f = "\<lambda>c. (cpu_id c, cpu_timers c)"
  have m: "map ?f (cpus s') = map ?f (cpus s)" and "timers s' = timers s" "ticks s' = ticks s"
    using assms(1) by (simp_all add: timer_view_def)
  moreover from m have l: "length (cpus s') = 1" using assms(2) unfolding one_cpu_def by (metis length_map)
  then have "map ?f (cpus s') ! 0 = ?f (cpus s' ! 0)" "map ?f (cpus s) ! 0 = ?f (cpus s ! 0)"
    using assms(2) by (simp_all add: one_cpu_def)
  ultimately show "timers s' = timers s" "ticks s' = ticks s" "armed s' = armed s" "one_cpu s'"
    using assms(2) l by (simp_all add: one_cpu_def)
qed

lemma timer_tick_Some:
  assumes ok: "timer_tick 0 i s = Some s'" and c: "one_cpu s" and i: "i < length (timers s)"
  shows "timers s' = (timers s)[i := timer_after (ticks s) (timers s ! i)]" and "ticks s' = ticks s" and "one_cpu s'"
    and "armed s' = (if expires (ticks s) (timers s ! i) then remove1 i (armed s) else armed s)"
proof -
  have "timers s' = (timers s)[i := timer_after (ticks s) (timers s ! i)] \<and> ticks s' = ticks s \<and> one_cpu s'
    \<and> armed s' = (if expires (ticks s) (timers s ! i) then remove1 i (armed s) else armed s)"
  proof (cases "tm_next (timers s ! i) = ticks s")
    case True
    then obtain u where u: "run_callback (tm_callback (timers s ! i)) (tm_data (timers s ! i)) s = Some u"
      and s': "s' = (if odd (tm_type (timers s ! i)) then timer_upd i (\<lambda>tm. tm\<lparr>tm_next := ticks u + tm_value tm\<rparr>) u
        else timer_upd i (\<lambda>tm. tm\<lparr>tm_free := True\<rparr>) (cpu_timers_upd 0 (remove1 i) u))"
      using ok by (auto simp: timer_tick_def Let_def elim!: bind_SomeE split: if_splits)
    note timer_frame_armed [OF run_callback_timer_frame [OF u] c]
    then show ?thesis using True by (auto simp: s' timer_upd_def cpu_timers_upd_def timer_after_def expires_def one_cpu_def)
  next
    case False
    then show ?thesis using ok c by (auto simp: timer_tick_def timer_after_def expires_def)
  qed
  then show "timers s' = (timers s)[i := timer_after (ticks s) (timers s ! i)]" "ticks s' = ticks s" "one_cpu s'"
    "armed s' = (if expires (ticks s) (timers s ! i) then remove1 i (armed s) else armed s)" by simp_all
qed

lemma timer_loop:
  assumes "for_each (timer_tick 0) is s = Some s'" and "one_cpu s" and "distinct is" and "distinct (armed s)"
    and "\<forall>i \<in> set is. i < length (timers s)"
  shows "ticks s' = ticks s \<and> one_cpu s' \<and> length (timers s') = length (timers s)
    \<and> (\<forall>j. timers s' ! j = (if j \<in> set is then timer_after (ticks s) (timers s ! j) else timers s ! j))
    \<and> armed s' = filter (\<lambda>j. \<not> (j \<in> set is \<and> expires (ticks s) (timers s ! j))) (armed s)"
  using assms
proof (induction "is" arbitrary: s)
  case (Cons i "is")
  then obtain u where u: "timer_tick 0 i s = Some u" "for_each (timer_tick 0) is u = Some s'" by (auto elim: bind_SomeE)
  have i: "i < length (timers s)" "i \<notin> set is" using Cons.prems by simp_all
  note t = timer_tick_Some [OF u(1) Cons.prems(2) i(1)]
  have f: "armed u = filter (\<lambda>j. \<not> (j = i \<and> expires (ticks s) (timers s ! i))) (armed s)"
    using t(4) Cons.prems(4) by (auto simp: distinct_remove1_removeAll removeAll_filter_not_eq intro: filter_cong)
  have d: "distinct (armed u)" unfolding f using Cons.prems(4) by simp
  have j: "timers u ! j = timers s ! j" if "j \<noteq> i" for j using t(1) that by simp
  have j': "timers u ! j = timers s ! j" if "j \<in> set is" for j using j i(2) that by metis
  have ti: "timers u ! i = timer_after (ticks s) (timers s ! i)" and len: "length (timers u) = length (timers s)" using t(1) i(1) by simp_all
  have "\<forall>i \<in> set is. i < length (timers u)" "distinct is" using len Cons.prems(3, 5) by simp_all
  note IH = Cons.IH [OF u(2) t(3) this(2) d this(1)]
  have "timers s' ! k = (if k \<in> set (i # is) then timer_after (ticks s) (timers s ! k) else timers s ! k)" for k
    using IH ti i(2) j [of k] t(2) by (cases "k = i") simp_all
  moreover have "filter (\<lambda>j. \<not> (j \<in> set is \<and> expires (ticks s) (timers u ! j))) (armed u)
      = filter (\<lambda>j. \<not> (j \<in> set (i # is) \<and> expires (ticks s) (timers s ! j))) (armed s)"
    unfolding f filter_filter by (rule filter_cong) (auto simp: i(2) j')
  ultimately show ?case using IH t(2) len by simp
qed simp


lemma timer_handler_timers:
  assumes inv: "timer_inv s" and ok: "timer_handler regs s = Some s'"
  shows "ticks s' = ticks s + 1" and "length (timers s') = TIMER_NUM" and "one_cpu s'"
    and "timers s' ! j = (if j \<in> set (armed s) then timer_after (ticks s + 1) (timers s ! j) else timers s ! j)"
    and "armed s' = filter (\<lambda>j. \<not> expires (ticks s + 1) (timers s ! j)) (armed s)"
proof -
  let ?s = "s\<lparr>ticks := ticks s + 1\<rparr>"
  have c: "one_cpu s" "one_cpu ?s" using inv by (simp_all add: timer_inv_def one_cpu_def)
  obtain u where u: "for_each (timer_tick 0) (armed s) ?s = Some u" "scheduler_update regs False u = Some s'"
    using ok cpu_get_0(1) [OF c(1)] by (auto simp: timer_handler_def Let_def elim: bind_SomeE)
  have "distinct (armed s)" "\<forall>i \<in> set (armed s). i < length (timers ?s)" using inv by (simp_all add: timer_inv_def)
  note l = timer_loop [OF u(1) c(2) this(1) _ this(2), simplified, OF this(1)]
  then have "one_cpu u" by simp
  note fr = timer_frame_armed [OF scheduler_update_timer_frame [OF u(2)] this]
  show "ticks s' = ticks s + 1" "length (timers s') = TIMER_NUM" "one_cpu s'"
    "timers s' ! j = (if j \<in> set (armed s) then timer_after (ticks s + 1) (timers s ! j) else timers s ! j)"
    "armed s' = filter (\<lambda>j. \<not> expires (ticks s + 1) (timers s ! j)) (armed s)"
    using l fr inv by (simp_all add: timer_inv_def cong: filter_cong)
qed


lemma timer_handler_inv: "timer_inv s \<Longrightarrow> timer_handler regs s = Some s' \<Longrightarrow> timer_inv s'"
  using timer_handler_timers [of s regs s']
  by (auto simp: timer_inv_def timer_after_def expires_def)

text \<open>A number of timer interrupts.\<close>

fun interrupts :: "regs_ptr list \<Rightarrow> 'a kproc_scheme \<Rightarrow> 'a kproc_scheme option" where
  "interrupts [] s = Some s"
| "interrupts (r # rs) s = Option.bind (timer_handler r s) (interrupts rs)"

lemma timer_new_cases:
  "timer_new s = -1 \<and> (\<forall>i < TIMER_NUM. \<not> tm_free (timers s ! i))
   \<or> (\<exists>i < TIMER_NUM. timer_new s = int i \<and> tm_free (timers s ! i))"
proof (cases "find (\<lambda>i. tm_free (timers s ! i)) [0..<TIMER_NUM]")
  case None
  then have "\<forall>i < TIMER_NUM. \<not> tm_free (timers s ! i)" by (auto simp: find_None_iff)
  then show ?thesis using None by (simp add: timer_new_def)
next
  case (Some i)
  then have "i < TIMER_NUM" "tm_free (timers s ! i)" by (auto simp: find_Some_iff)
  then show ?thesis using Some by (simp add: timer_new_def)
qed

lemma timer_register_slot:
  fixes s s1 :: "'a kproc_scheme"
  assumes inv: "timer_inv s" and ok: "timer_register ty time (Some cb) data s = Some (1, s1)"
  shows "timer_inv s1" and "time \<noteq> 0" and "\<exists>i < TIMER_NUM. armed s1 = i # armed s \<and> tm_free (timers s ! i)
    \<and> timers s1 ! i = \<lparr>tm_free = False, tm_type = ty, tm_value = time, tm_next = ticks s1 + time, tm_callback = Some cb, tm_data = data\<rparr>"
proof -
  have c: "one_cpu s" and len: "length (timers s) = TIMER_NUM" using inv by (simp_all add: timer_inv_def)
  note r = ok [unfolded timer_register_def cpu_get_0(1) [OF c] bind.bind_lunit Let_def]
  show "time \<noteq> 0" using r by (auto simp: EINVAL_def split: if_splits)
  obtain i where i: "timer_new (s\<lparr>timer_lock := True\<rparr>) = int i" "i < TIMER_NUM" "tm_free (timers s ! i)"
    using r timer_new_cases [of "s\<lparr>timer_lock := True\<rparr>"] by (auto simp: EINVAL_def spinlock_defs elim!: bind_SomeE split: if_splits)
  then have s1: "s1 = cpu_timers_upd 0 (\<lambda>ts. i # ts) (timer_upd i (\<lambda>tm. tm\<lparr>tm_type := ty, tm_value := time, tm_next := ticks s + time,
      tm_callback := Some cb, tm_data := data\<rparr>) ((timer_upd i (\<lambda>tm. tm\<lparr>tm_free := False\<rparr>) (s\<lparr>timer_lock := True\<rparr>))\<lparr>timer_lock := False\<rparr>))"
    using r by (auto simp: EINVAL_def spinlock_defs timer_upd_def elim!: bind_SomeE split: if_splits)
  have a: "armed s1 = i # armed s" using c by (simp add: s1 cpu_timers_upd_def timer_upd_def one_cpu_def)
  moreover have t: "timers s1 = (timers s)[i := \<lparr>tm_free = False, tm_type = ty, tm_value = time, tm_next = ticks s1 + time,
      tm_callback = Some cb, tm_data = data\<rparr>]"
    using i(2) len by (cases "timers s ! i") (simp add: s1 cpu_timers_upd_def timer_upd_def)
  moreover have "one_cpu s1" using c by (simp add: s1 cpu_timers_upd_def timer_upd_def one_cpu_def)
  ultimately show "timer_inv s1" using inv i by (auto simp: timer_inv_def nth_list_update)
  show "\<exists>i < TIMER_NUM. armed s1 = i # armed s \<and> tm_free (timers s ! i) \<and> timers s1 ! i = \<lparr>tm_free = False, tm_type = ty,
      tm_value = time, tm_next = ticks s1 + time, tm_callback = Some cb, tm_data = data\<rparr>"
    using a t i len by (intro exI [of _ i]) simp
qed


lemma oneshot_countdown:
  assumes "interrupts rs s = Some s'" and "timer_inv s" and "i \<in> set (armed s)" and "even (tm_type (timers s ! i))"
    and "tm_next (timers s ! i) = ticks s + of_nat k" and "k < 2 ^ 32" and "length rs \<le> k" and "0 < k"
  shows "if length rs < k then i \<in> set (armed s') \<and> timers s' ! i = timers s ! i else i \<notin> set (armed s') \<and> tm_free (timers s' ! i)"
  using assms
proof (induction rs arbitrary: s k)
  case (Cons r rs)
  then obtain u where u: "timer_handler r s = Some u" "interrupts rs u = Some s'" by (auto elim: bind_SomeE)
  note h = timer_handler_timers [OF Cons.prems(2) u(1)]
  have due: "(tm_next (timers s ! i) = ticks s + 1) = (k = 1)"
  proof -
    have "unat (of_nat k :: u32) = k" using Cons.prems(6) by (simp add: unsigned_of_nat take_bit_nat_eq_self)
    then have "((of_nat k :: u32) = 1) = (k = 1)" by (metis of_nat_1 unat_1)
    then show ?thesis using Cons.prems(5) by simp
  qed
  show ?case
  proof (cases "k = 1")
    case True
    with Cons.prems due have "rs = []" "expires (ticks s + 1) (timers s ! i)" "tm_next (timers s ! i) = ticks s + 1"
      by (simp_all add: expires_def)
    with h u(2) Cons.prems(3, 4) True show ?thesis by (auto simp: timer_after_def)
  next
    case False
    have "\<not> expires (ticks s + 1) (timers s ! i)" "timers u ! i = timers s ! i"
      using h(4) due False by (auto simp: expires_def timer_after_def)
    moreover have "tm_next (timers s ! i) = ticks u + of_nat (k - 1)"
      using Cons.prems(5, 8) h(1) by (simp add: of_nat_diff)
    ultimately show ?thesis
      using Cons.IH [OF u(2) timer_handler_inv [OF Cons.prems(2) u(1)], of "k - 1"] h(5) Cons.prems False by auto
  qed
qed simp





section \<open>Context switches\<close>

lemma i386_switch_Some:
  assumes "i386_switch regs new old c s = Some s'"
  shows "\<exists>u N. thread_save_state old regs s = Some u \<and> threads s' = threads u \<and> threads u new = Some N
    \<and> cpu_regs s' = th_regs N \<and> tss_esp0 s' = th_kstack N \<and> current s' = new"
  using assms unfolding i386_switch_def Let_def
  by (elim bind_SomeE) (auto simp: sched_lock_release_def)


definition regs_example :: irq_regs where
  "regs_example = \<lparr>gs = 0x23, fs = 0x23, es = 0x23, ds = 0x23, edi = 1, esi = 2, ebp = 3, esp = 4, ebx = 5, edx = 6, ecx = 7, eax = 8,
     irq_num = 0x20, irq_data = 0, eip = 0x8000, cs = 0x1B, eflags = 0x202, user_esp = 0x7000, user_ss = 0x23\<rparr>"


end
