(* ===== verification/Interrupt.thy ===== *)
theory Interrupt
  imports Scheduler
begin

unbundle bit_operations_syntax

text \<open>
  Interrupts: the table of handlers of \<^verbatim>\<open>kernel/core/interrupt.c\<close>, the interrupt controller
  (\<^verbatim>\<open>kernel/arch/i386/pic.c\<close>) behind the functions of \<^verbatim>\<open>kernel/glue/i386-pc/interrupt.c\<close>, the system calls with which a
  driver process waits for an interrupt (\<^verbatim>\<open>kernel/core/syscall/interrupt.c\<close>), and the descriptor
  tables of the processor (\<^verbatim>\<open>gdt.c\<close>, \<^verbatim>\<open>idt.c\<close>, \<^verbatim>\<open>tss.c\<close>). The
  results: a handler is called for its own line only and registering it unmasks just this line, a
  driver gets every interrupt it waits for, and a descriptor holds the base and the limit it was made from.
\<close>

section \<open>State\<close>

text \<open>The handlers that the kernel registers are named by a datatype.\<close>

datatype irq_callback = PageFaultHandler | TimerHandler | SyscallHandler | UserInterruptCallback

record interrupt_entry =
  ie_type :: int
  ie_callback :: "irq_callback option"

definition INTERRUPT_NONE :: int where "INTERRUPT_NONE = 0"

definition INTERRUPT_CALLBACK :: int where "INTERRUPT_CALLBACK = 1"

definition INTERRUPT_REGISTERED :: u8 where "INTERRUPT_REGISTERED = 1"

definition INTERRUPT_FIRED :: u8 where "INTERRUPT_FIRED = 2"

definition MAX_IRQ_NUMBER :: nat where "MAX_IRQ_NUMBER = 0xFF"

definition IRQ_PAGE_FAULT :: int where "IRQ_PAGE_FAULT = 14"

definition IRQ_SYSCALL :: int where "IRQ_SYSCALL = 0x80"

definition IRQ_USER_BEGIN :: int where "IRQ_USER_BEGIN = 0x21"

definition IRQ_USER_END :: int where "IRQ_USER_END = 0x2F"

definition IRQ_USER_SIZE :: nat where "IRQ_USER_SIZE = 15"

record irq =
  irq_thread :: ptr
  irq_queue :: wait_queue

text \<open>The ports of the devices: the bytes written to them, the last one first.\<close>

record kirq = kproc +
  interrupt_entries :: "interrupt_entry list"
  user_irqs :: "irq list"
  io_log :: "(u16 \<times> u8) list"

definition outb :: "u16 \<Rightarrow> u8 \<Rightarrow> 'a kirq_scheme \<Rightarrow> 'a kirq_scheme" where
  "outb port v s = s\<lparr>io_log := (port, v) # io_log s\<rparr>"

text \<open>The data port of an interrupt controller reads back the mask written last.\<close>

definition inb :: "u16 \<Rightarrow> 'a kirq_scheme \<Rightarrow> u8" where
  "inb port s = (case map_of (io_log s) port of Some v \<Rightarrow> v | None \<Rightarrow> 0)"

section \<open>The interrupt controller\<close>

definition PIC_MASTER_CMD :: u16 where "PIC_MASTER_CMD = 0x20"

definition PIC_MASTER_DATA :: u16 where "PIC_MASTER_DATA = 0x21"

definition PIC_SLAVE_CMD :: u16 where "PIC_SLAVE_CMD = 0xA0"

definition PIC_SLAVE_DATA :: u16 where "PIC_SLAVE_DATA = 0xA1"

definition PIC_EOI :: u8 where "PIC_EOI = 0x20"

definition PIC_START_IRQ :: int where "PIC_START_IRQ = 0x20"

definition PIC_END_IRQ :: int where "PIC_END_IRQ = 0x2F"

definition PIC_IRQ_PIT :: int where "PIC_IRQ_PIT = 0x20"

lemmas pic_ports = PIC_MASTER_CMD_def PIC_MASTER_DATA_def PIC_SLAVE_CMD_def PIC_SLAVE_DATA_def

definition pic_initialize :: "'a kirq_scheme \<Rightarrow> 'a kirq_scheme" where
  "pic_initialize s =
     (let s = outb PIC_SLAVE_CMD 0x11 (outb PIC_MASTER_CMD 0x11 s);
          s = outb PIC_SLAVE_DATA 0x28 (outb PIC_MASTER_DATA 0x20 s);
          s = outb PIC_SLAVE_DATA 0x2 (outb PIC_MASTER_DATA 0x4 s);
          s = outb PIC_SLAVE_DATA 0x1 (outb PIC_MASTER_DATA 0x1 s)
      in outb PIC_SLAVE_DATA 0xFF (outb PIC_MASTER_DATA 0xFB s))"

definition pic_acnowledge :: "int \<Rightarrow> 'a kirq_scheme \<Rightarrow> 'a kirq_scheme" where
  "pic_acnowledge irq s = outb PIC_MASTER_CMD PIC_EOI (if irq > 7 then outb PIC_SLAVE_CMD PIC_EOI s else s)"

definition pic_mask :: "int \<Rightarrow> 'a kirq_scheme \<Rightarrow> 'a kirq_scheme" where
  "pic_mask irq s =
     (let port = (if irq < 8 then PIC_MASTER_DATA else PIC_SLAVE_DATA);
          irq = (if irq < 8 then irq else irq - 8)
      in outb port (inb port s OR push_bit (nat irq) 1) s)"

definition pic_unmask :: "int \<Rightarrow> 'a kirq_scheme \<Rightarrow> 'a kirq_scheme" where
  "pic_unmask irq s =
     (let port = (if irq < 8 then PIC_MASTER_DATA else PIC_SLAVE_DATA);
          irq = (if irq < 8 then irq else irq - 8)
      in outb port (inb port s AND NOT (push_bit (nat irq) 1)) s)"

definition i386_interrupt_acknowledge :: "int \<Rightarrow> 'a kirq_scheme \<Rightarrow> 'a kirq_scheme" where
  "i386_interrupt_acknowledge irq s =
     (if PIC_START_IRQ \<le> irq \<and> irq \<le> PIC_END_IRQ then pic_acnowledge irq s else s)"

definition i386_interrupt_mask :: "int \<Rightarrow> 'a kirq_scheme \<Rightarrow> 'a kirq_scheme" where
  "i386_interrupt_mask irq s =
     (if irq < PIC_START_IRQ \<or> irq > PIC_END_IRQ then s else pic_mask (irq - PIC_START_IRQ) s)"

definition i386_interrupt_unmask :: "int \<Rightarrow> 'a kirq_scheme \<Rightarrow> 'a kirq_scheme" where
  "i386_interrupt_unmask irq s =
     (if irq < PIC_START_IRQ \<or> irq > PIC_END_IRQ then s else pic_unmask (irq - PIC_START_IRQ) s)"

section \<open>The table of handlers\<close>

definition interrupt_register :: "int \<Rightarrow> int \<Rightarrow> irq_callback option \<Rightarrow> 'a kirq_scheme \<Rightarrow> int \<times> 'a kirq_scheme" where
  "interrupt_register irq type callback s =
     (if type = INTERRUPT_NONE then (- EINVAL, s)
      else if irq < 0 \<or> irq > int MAX_IRQ_NUMBER then (- EINVAL, s)
      else if ie_type (interrupt_entries s ! nat irq) \<noteq> INTERRUPT_NONE then (- EEXIST, s)
      else (0, i386_interrupt_unmask irq
                 (s\<lparr>interrupt_entries := (interrupt_entries s)[nat irq := \<lparr>ie_type = type, ie_callback = callback\<rparr>]\<rparr>)))"

definition interrupt_unregister :: "int \<Rightarrow> 'a kirq_scheme \<Rightarrow> 'a kirq_scheme" where
  "interrupt_unregister irq s =
     (if irq < 0 \<or> irq > int MAX_IRQ_NUMBER then s
      else (let s = i386_interrupt_mask irq s
            in s\<lparr>interrupt_entries := (interrupt_entries s)[nat irq :=
                   (interrupt_entries s ! nat irq)\<lparr>ie_type := INTERRUPT_NONE\<rparr>]\<rparr>))"

text \<open>\<open>tables\<close> is \<^verbatim>\<open>mp_parse_tables\<close> followed by \<^verbatim>\<open>idt_initialize\<close>, which only fill tables of the hardware.\<close>

definition i386_interrupt_initialize :: "('a kirq_scheme \<Rightarrow> 'a kirq_scheme) \<Rightarrow> 'a kirq_scheme \<Rightarrow> int \<times> 'a kirq_scheme" where
  "i386_interrupt_initialize tables s =
     interrupt_register IRQ_PAGE_FAULT INTERRUPT_CALLBACK (Some PageFaultHandler) (pic_initialize (tables s))"

definition interrupt_initialize :: "('a kirq_scheme \<Rightarrow> 'a kirq_scheme) \<Rightarrow> 'a kirq_scheme \<Rightarrow> 'a kirq_scheme option" where
  "interrupt_initialize tables s =
     (let (r, s) = i386_interrupt_initialize tables
            (s\<lparr>interrupt_entries := replicate (MAX_IRQ_NUMBER + 1) \<lparr>ie_type = 0, ie_callback = None\<rparr>\<rparr>)
      in if r < 0 then None else Some s)"

text \<open>\<open>call\<close> runs a handler; a null pointer as handler is a fault.\<close>

definition interrupt_dispatch :: "(irq_callback \<Rightarrow> regs_ptr \<Rightarrow> 'a kirq_scheme \<Rightarrow> 'a kirq_scheme option)
    \<Rightarrow> u32 \<Rightarrow> irq_regs \<Rightarrow> 'a kirq_scheme \<Rightarrow> 'a kirq_scheme option" where
  "interrupt_dispatch call a regs s =
     (let s = i386_interrupt_acknowledge (sint (irq_num regs)) s in
      if irq_num regs \<ge> of_nat MAX_IRQ_NUMBER then None
      else let e = interrupt_entries s ! unat (irq_num regs) in
        if ie_type e = INTERRUPT_CALLBACK
        then case ie_callback e of None \<Rightarrow> None | Some cb \<Rightarrow> call cb (Some (a, regs)) s
        else Some s)"

definition i386_pc_timer_initialize :: "('a kirq_scheme \<Rightarrow> 'a kirq_scheme option) \<Rightarrow> 'a kirq_scheme \<Rightarrow> (int \<times> 'a kirq_scheme) option" where
  "i386_pc_timer_initialize pit s = do {
     s \<leftarrow> pit s;
     let (err, s) = interrupt_register PIC_IRQ_PIT INTERRUPT_CALLBACK (Some TimerHandler) s;
     Some (if err < 0 then err else 0, s)
   }"

definition PIT_RATE :: u32 where "PIT_RATE = 1193180"

definition PIT_VALUE_MAX :: u32 where "PIT_VALUE_MAX = 65636"

definition pit_initialize :: "'a kirq_scheme \<Rightarrow> 'a kirq_scheme option" where
  "pit_initialize s =
     (let pit_value = PIT_RATE div TICK_PER_SEC in
      if pit_value = 0 \<or> pit_value > PIT_VALUE_MAX then None
      else Some (outb 0x40 (ucast (drop_bit 8 pit_value AND 0xFF)) (outb 0x40 (ucast (pit_value AND 0xFF)) (outb 0x43 0x34 s))))"


section \<open>Interrupts for processes\<close>

definition irq_get :: "nat \<Rightarrow> 'a kirq_scheme \<Rightarrow> wait_queue option" where
  "irq_get i s = (if i < length (user_irqs s) then Some (irq_queue (user_irqs s ! i)) else None)"

definition irq_put :: "nat \<Rightarrow> wait_queue \<Rightarrow> 'a kirq_scheme \<Rightarrow> 'a kirq_scheme" where
  "irq_put i q s = s\<lparr>user_irqs := (user_irqs s)[i := (user_irqs s ! i)\<lparr>irq_queue := q\<rparr>]\<rparr>"

definition irq_flags :: "ptr \<Rightarrow> nat \<Rightarrow> 'a kirq_scheme \<Rightarrow> u8" where
  "irq_flags t i s = (case threads s t of None \<Rightarrow> 0 | Some th \<Rightarrow> th_interrupts th ! i)"

definition set_irq_flags :: "ptr \<Rightarrow> nat \<Rightarrow> u8 \<Rightarrow> 'a kirq_scheme \<Rightarrow> 'a kirq_scheme" where
  "set_irq_flags t i f s = thread_upd t (\<lambda>th. th\<lparr>th_interrupts := (th_interrupts th)[i := f]\<rparr>) s"

definition user_interrupt_callback :: "irq_regs \<Rightarrow> 'a kirq_scheme \<Rightarrow> 'a kirq_scheme option" where
  "user_interrupt_callback regs s =
     (let n = sint (irq_num regs) - IRQ_USER_BEGIN; i = nat n in
      if n < 0 \<or> i \<ge> length (user_irqs s) then None
      else let t = irq_thread (user_irqs s ! i) in
        if t = NULL then Some s
        else if threads s t = None then None
        else wait_queue_notify (irq_get i) (irq_put i) (set_irq_flags t i (irq_flags t i s OR INTERRUPT_FIRED) s))"

definition sys_interrupt_register :: "int \<Rightarrow> 'a kirq_scheme \<Rightarrow> (int \<times> 'a kirq_scheme) option" where
  "sys_interrupt_register irq s =
     (let i = nat (irq - IRQ_USER_BEGIN); t = current s in
      if irq < IRQ_USER_BEGIN \<or> irq > IRQ_USER_END then Some (- EINVAL, s)
      else if threads s t = None then None
      else if irq_flags t i s AND INTERRUPT_REGISTERED \<noteq> 0 then Some (- EBUSY, s)
      else let s = set_irq_flags t i INTERRUPT_REGISTERED s;
               s = s\<lparr>user_irqs := (user_irqs s)[i := \<lparr>irq_thread = t, irq_queue = wait_queue_init\<rparr>]\<rparr>;
               (err, s) = interrupt_register irq INTERRUPT_CALLBACK (Some UserInterruptCallback) s
           in if err < 0
              then Some (err, (set_irq_flags t i 0 s)\<lparr>user_irqs := (user_irqs s)[i := (user_irqs s ! i)\<lparr>irq_thread := NULL\<rparr>]\<rparr>)
              else Some (0, s))"

definition sys_interrupt_listen :: "('a kirq_scheme \<Rightarrow> 'a kirq_scheme option) \<Rightarrow> int \<Rightarrow> 'a kirq_scheme \<Rightarrow> (int \<times> 'a kirq_scheme) option" where
  "sys_interrupt_listen yield irq s =
     (let i = nat (irq - IRQ_USER_BEGIN); t = current s in
      if irq < IRQ_USER_BEGIN \<or> irq > IRQ_USER_END then Some (- 1, s)
      else if threads s t = None then None
      else if irq_flags t i s AND INTERRUPT_REGISTERED = 0 then Some (- 1, s)
      else if irq_flags t i s AND INTERRUPT_FIRED \<noteq> 0
      then Some (irq, set_irq_flags t i (irq_flags t i s AND NOT INTERRUPT_FIRED) s)
      else do {
        s \<leftarrow> wait_queue_wait (irq_get i) (irq_put i) yield t (\<lambda>s. irq_flags t i s AND INTERRUPT_FIRED \<noteq> 0) s;
        Some (irq, set_irq_flags t i (irq_flags t i s AND NOT INTERRUPT_FIRED) s)
      })"

definition sys_interrupt_unregister :: "int \<Rightarrow> 'a kirq_scheme \<Rightarrow> (int \<times> 'a kirq_scheme) option" where
  "sys_interrupt_unregister irq s =
     (let i = nat (irq - IRQ_USER_BEGIN); t = current s in
      if irq < IRQ_USER_BEGIN \<or> irq > IRQ_USER_END then Some (0, s)
      else if threads s t = None then None
      else if irq_flags t i s AND INTERRUPT_REGISTERED = 0 then Some (0, s)
      else let s = set_irq_flags t i 0 (interrupt_unregister irq s)
           in Some (0, s\<lparr>user_irqs := (user_irqs s)[i := (user_irqs s ! i)\<lparr>irq_thread := NULL\<rparr>]\<rparr>))"

section \<open>Descriptor tables\<close>

text \<open>Bit fields are words of a larger size that hold the truncated value.\<close>

record gdt_entry =
  limitl :: u16
  basel :: u32
  access :: u8
  limith :: u8
  flags :: u8
  baseh :: u8

definition GDT_MAX_SIZE :: nat where "GDT_MAX_SIZE = 10"

definition GDT_TSS_BASE :: nat where "GDT_TSS_BASE = 5"

definition SELECTOR :: "u32 \<Rightarrow> u32 \<Rightarrow> u32" where
  "SELECTOR entry dpl = push_bit 3 entry + dpl"

definition seg_CS :: "u8 \<Rightarrow> u8" where
  "seg_CS dpl = 0x80 OR push_bit 5 dpl OR 0x10 OR 0xA"

definition seg_DS :: "u8 \<Rightarrow> u8" where
  "seg_DS dpl = 0x80 OR push_bit 5 dpl OR 0x10 OR 0x2"

definition seg_TSS :: "u8 \<Rightarrow> u8" where
  "seg_TSS dpl = 0x80 OR push_bit 5 dpl OR 0x9"

definition gdt_add_entry :: "nat \<Rightarrow> u32 \<Rightarrow> u32 \<Rightarrow> u8 \<Rightarrow> u8 \<Rightarrow> gdt_entry list \<Rightarrow> gdt_entry list" where
  "gdt_add_entry num base limit acc granularity gdt = gdt[num :=
     \<lparr>limitl = ucast (limit AND 0xFFFF), basel = base AND 0xFFFFFF, access = acc,
      limith = ucast (drop_bit 16 limit AND 0xF), flags = push_bit 2 granularity AND 0xF,
      baseh = ucast (drop_bit 24 base AND 0xFF)\<rparr>]"

definition gdt_zero :: gdt_entry where
  "gdt_zero = \<lparr>limitl = 0, basel = 0, access = 0, limith = 0, flags = 0, baseh = 0\<rparr>"

definition gdt_init :: "gdt_entry list \<Rightarrow> gdt_entry list" where
  "gdt_init gdt =
     (let gdt = gdt[0 := gdt_zero];
          gdt = gdt_add_entry 1 0 0xFFFFF (seg_CS 0) 3 gdt;
          gdt = gdt_add_entry 2 0 0xFFFFF (seg_DS 0) 3 gdt;
          gdt = gdt_add_entry 3 0 0xFFFFF (seg_CS 3) 3 gdt
      in gdt_add_entry 4 0 0xFFFFF (seg_DS 3) 3 gdt)"

definition sizeof_tss :: u32 where "sizeof_tss = 104"

definition tss_initialize :: "nat \<Rightarrow> u32 \<Rightarrow> gdt_entry list \<Rightarrow> gdt_entry list" where
  "tss_initialize c tss_base gdt =
     (let tss_size = tss_base + sizeof_tss
      in gdt_add_entry (GDT_TSS_BASE + c) tss_base tss_size (seg_TSS 3) 0 gdt)"

record idt_entry =
  offsetl :: u16
  select :: u16
  idt_type :: u16
  offseth :: u16

definition INTERRUPT_GATE :: u16 where "INTERRUPT_GATE = 0x8E00"

definition TRAP_GATE :: u16 where "TRAP_GATE = 0xEF00"

definition idt_add_entry :: "u8 \<Rightarrow> u32 \<Rightarrow> u16 \<Rightarrow> idt_entry list \<Rightarrow> idt_entry list" where
  "idt_add_entry num address type idt = idt[unat num :=
     \<lparr>offsetl = ucast (address AND 0xFFFF), select = 0x8, idt_type = type, offseth = ucast (drop_bit 16 address AND 0xFFFF)\<rparr>]"

text \<open>\<open>isr\<close> gives the addresses of the assembly stubs 0 to 254.\<close>

definition idt_initialize :: "(u8 \<Rightarrow> u32) \<Rightarrow> idt_entry list \<Rightarrow> idt_entry list" where
  "idt_initialize isr idt =
     (let idt = fold (\<lambda>n. idt_add_entry (of_nat n) (isr (of_nat n)) INTERRUPT_GATE) [0..<255] idt
      in idt_add_entry (word_of_int IRQ_SYSCALL) (isr 128) TRAP_GATE idt)"


section \<open>Handlers and lines\<close>

definition handler :: "int \<Rightarrow> 'a kirq_scheme \<Rightarrow> irq_callback option" where
  "handler irq s = (let e = interrupt_entries s ! nat irq in if ie_type e = INTERRUPT_CALLBACK then ie_callback e else None)"

text \<open>Line \<open>n\<close> of the two controllers is masked.\<close>

definition masked :: "nat \<Rightarrow> 'a kirq_scheme \<Rightarrow> bool" where
  "masked n s = (if n < 8 then bit (inb PIC_MASTER_DATA s) n else bit (inb PIC_SLAVE_DATA s) (n - 8))"

lemma inb_simps [simp]:
  "inb p (outb q v s) = (if p = q then v else inb p s)" "inb p (s\<lparr>interrupt_entries := e\<rparr>) = inb p s"
  "interrupt_entries (outb q v s) = interrupt_entries s"
  by (simp_all add: inb_def outb_def)

lemma bit_mask_u8:
  fixes w :: u8
  assumes "k < 8" "n < 8"
  shows "bit (w AND NOT (2 ^ k)) n = (bit w n \<and> n \<noteq> k)" and "bit (w OR 2 ^ k) n = (bit w n \<or> n = k)"
  using assms by (auto simp: bit_simps)

lemma pic_mask_masked:
  assumes "n < 16" "k < 16"
  shows "masked n (pic_unmask (int k) s) = (masked n s \<and> n \<noteq> k)" and "masked n (pic_mask (int k) s) = (masked n s \<or> n = k)"
proof -
  have [simp]: "nat (int k - 8) = k - 8" by simp
  have [simp]: "k < 16 \<Longrightarrow> k - 8 < 8" for k :: nat by simp
  show "masked n (pic_unmask (int k) s) = (masked n s \<and> n \<noteq> k)" "masked n (pic_mask (int k) s) = (masked n s \<or> n = k)"
    using assms by (auto simp: pic_unmask_def pic_mask_def masked_def Let_def pic_ports bit_mask_u8)
qed

lemma i386_mask_masked:
  assumes "n < 16"
  shows "masked n (i386_interrupt_unmask irq s) = (masked n s \<and> irq \<noteq> PIC_START_IRQ + int n)"
    and "masked n (i386_interrupt_mask irq s) = (masked n s \<or> irq = PIC_START_IRQ + int n)"
proof -
  have "masked n (i386_interrupt_unmask irq s) = (masked n s \<and> irq \<noteq> PIC_START_IRQ + int n)
    \<and> masked n (i386_interrupt_mask irq s) = (masked n s \<or> irq = PIC_START_IRQ + int n)"
  proof (cases "irq < PIC_START_IRQ \<or> irq > PIC_END_IRQ")
    case True
    then show ?thesis using assms
      by (auto simp: i386_interrupt_unmask_def i386_interrupt_mask_def PIC_START_IRQ_def PIC_END_IRQ_def)
  next
    case False
    then obtain k where "irq = PIC_START_IRQ + int k" "k < 16"
      by (intro that [of "nat (irq - PIC_START_IRQ)"]) (auto simp: PIC_START_IRQ_def PIC_END_IRQ_def)
    then show ?thesis using False pic_mask_masked [OF assms, of k]
      by (auto simp: i386_interrupt_unmask_def i386_interrupt_mask_def)
  qed
  then show "masked n (i386_interrupt_unmask irq s) = (masked n s \<and> irq \<noteq> PIC_START_IRQ + int n)"
    "masked n (i386_interrupt_mask irq s) = (masked n s \<or> irq = PIC_START_IRQ + int n)" by simp_all
qed

lemma i386_mask_entries [simp]:
  "interrupt_entries (i386_interrupt_unmask irq s) = interrupt_entries s"
  "interrupt_entries (i386_interrupt_mask irq s) = interrupt_entries s"
  "interrupt_entries (i386_interrupt_acknowledge irq s) = interrupt_entries s"
  by (simp_all add: i386_interrupt_unmask_def i386_interrupt_mask_def i386_interrupt_acknowledge_def
      pic_mask_def pic_unmask_def pic_acnowledge_def Let_def)

lemma masked_entries [simp]: "masked n (s\<lparr>interrupt_entries := e\<rparr>) = masked n s"
  by (simp add: masked_def)

lemma interrupt_dispatch_handler:
  assumes "irq_num regs < 255"
  shows "interrupt_dispatch call a regs s = (let s' = i386_interrupt_acknowledge (sint (irq_num regs)) s in
    case handler (uint (irq_num regs)) s of Some cb \<Rightarrow> call cb (Some (a, regs)) s'
    | None \<Rightarrow> if ie_type (interrupt_entries s ! unat (irq_num regs)) = INTERRUPT_CALLBACK then None else Some s')"
  using assms by (auto simp: interrupt_dispatch_def handler_def Let_def MAX_IRQ_NUMBER_def not_le nat_uint_eq split: option.split)

text \<open>
  C11. Handlers are called for their own interrupt only. Registering a handler for a free number stores
  it, unmasks its line of the controller and no other, and leaves the other handlers alone; an interrupt with this number then
  runs the handler after it has been acknowledged, except for 255, which the table accepts and the
  dispatcher rejects with a panic. A number in use is refused without any change, and unregistering
  masks the line and removes the handler.
\<close>
theorem interrupt_register_dispatch:
  fixes s :: "'a kirq_scheme" and cb :: irq_callback
  assumes len: "length (interrupt_entries s) = MAX_IRQ_NUMBER + 1" and irq: "0 \<le> irq" "irq \<le> 255"
  defines "r \<equiv> interrupt_register irq INTERRUPT_CALLBACK (Some cb) s"
  shows "if ie_type (interrupt_entries s ! nat irq) = INTERRUPT_NONE
    then fst r = 0
      \<and> (\<forall>j. 0 \<le> j \<longrightarrow> handler j (snd r) = (if j = irq then Some cb else handler j s))
      \<and> (\<forall>n < 16. masked n (snd r) = (masked n s \<and> irq \<noteq> 0x20 + int n))
      \<and> (\<forall>call a regs. uint (irq_num regs) = irq \<longrightarrow> interrupt_dispatch call a regs (snd r)
           = (if irq = 255 then None else call cb (Some (a, regs)) (i386_interrupt_acknowledge (sint (irq_num regs)) (snd r))))
      \<and> handler irq (interrupt_unregister irq (snd r)) = None
      \<and> (\<forall>n < 16. masked n (interrupt_unregister irq (snd r)) = (masked n s \<or> irq = 0x20 + int n))
    else r = (- EEXIST, s)"
proof (cases "ie_type (interrupt_entries s ! nat irq) = INTERRUPT_NONE")
  case False
  then show ?thesis using irq by (simp add: r_def interrupt_register_def INTERRUPT_CALLBACK_def INTERRUPT_NONE_def MAX_IRQ_NUMBER_def)
next
  case True
  let ?e = "(interrupt_entries s)[nat irq := \<lparr>ie_type = INTERRUPT_CALLBACK, ie_callback = Some cb\<rparr>]"
  have r: "r = (0, i386_interrupt_unmask irq (s\<lparr>interrupt_entries := ?e\<rparr>))"
    using True irq by (simp add: r_def interrupt_register_def INTERRUPT_CALLBACK_def INTERRUPT_NONE_def MAX_IRQ_NUMBER_def)
  have e: "interrupt_entries (snd r) = ?e" by (simp add: r)
  have l: "nat irq < length (interrupt_entries s)" using len irq by (simp add: MAX_IRQ_NUMBER_def)
  have h: "handler j (snd r) = (if j = irq then Some cb else handler j s)" if "0 \<le> j" for j
    using l that irq by (auto simp: handler_def e Let_def nth_list_update)
  have m: "masked n (snd r) = (masked n s \<and> irq \<noteq> 0x20 + int n)" if "n < 16" for n
    using i386_mask_masked(1) [OF that, of irq "s\<lparr>interrupt_entries := ?e\<rparr>"] by (simp add: r PIC_START_IRQ_def)
  have d: "interrupt_dispatch call a regs (snd r)
      = (if irq = 255 then None else call cb (Some (a, regs)) (i386_interrupt_acknowledge (sint (irq_num regs)) (snd r)))"
    if n: "uint (irq_num regs) = irq" for call a regs
  proof (cases "irq = 255")
    case True
    then have "irq_num regs = 255" using n by (simp add: word_uint_eq_iff)
    then show ?thesis using True by (simp add: interrupt_dispatch_def Let_def MAX_IRQ_NUMBER_def)
  next
    case False
    then have "irq_num regs < 255" using n irq by (simp add: word_less_def)
    then show ?thesis using h [OF irq(1)] n False by (simp add: interrupt_dispatch_handler Let_def)
  qed
  have u: "interrupt_unregister irq (snd r) = (i386_interrupt_mask irq (snd r))\<lparr>interrupt_entries := ?e[nat irq := (?e ! nat irq)\<lparr>ie_type := INTERRUPT_NONE\<rparr>]\<rparr>"
    using irq by (simp add: interrupt_unregister_def Let_def e MAX_IRQ_NUMBER_def)
  have "handler irq (interrupt_unregister irq (snd r)) = None"
    using l by (simp add: u handler_def INTERRUPT_NONE_def INTERRUPT_CALLBACK_def)
  moreover have "masked n (interrupt_unregister irq (snd r)) = (masked n s \<or> irq = 0x20 + int n)" if "n < 16" for n
    using i386_mask_masked(2) [OF that, of irq "snd r"] m [OF that] by (auto simp: u PIC_START_IRQ_def)
  ultimately show ?thesis using True h m d by (simp add: r)
qed


text \<open>
  Thread 0x30000 is a driver that has registered the lines of processes and waits for one of them.
\<close>

definition kirq_example :: kirq where
  "kirq_example = kproc.extend (thread_upd 0x30000 (\<lambda>th. th\<lparr>th_interrupts := replicate IRQ_USER_SIZE 1\<rparr>) kproc_example)
     (kirq.fields (replicate 256 \<lparr>ie_type = 0, ie_callback = None\<rparr>)
       (replicate IRQ_USER_SIZE \<lparr>irq_thread = 0x30000, irq_queue = \<lparr>wq_lock = False, wq_threads = [0x30000]\<rparr>\<rparr>)
       [(PIC_MASTER_DATA, 0xFB), (PIC_SLAVE_DATA, 0xFF)])"

lemmas kirq_example_defs = kirq_example_def kproc.defs kirq.defs

lemma kirq_example_simps [simp]:
  "interrupt_entries kirq_example = replicate 256 \<lparr>ie_type = 0, ie_callback = None\<rparr>"
  "user_irqs kirq_example = replicate 15 \<lparr>irq_thread = 0x30000, irq_queue = \<lparr>wq_lock = False, wq_threads = [0x30000]\<rparr>\<rparr>"
  "one_cpu kirq_example" "\<not> sched_lock (runq kirq_example)" "sc_threads (runq kirq_example) = [0x10000, 0x20000]"
  "threads kirq_example 0x30000 = Some ((thread_example THREAD_STATE_BLOCKED SCHED_EV_TIMER 7)\<lparr>th_interrupts := replicate 15 1\<rparr>)"
  by (simp_all add: kirq_example_defs IRQ_USER_SIZE_def one_cpu_def) (simp_all add: kproc_example_defs)

theorem interrupt_register_dispatch_witness:
  "\<exists>s'. interrupt_register 0x21 INTERRUPT_CALLBACK (Some UserInterruptCallback) kirq_example = (0, s')
     \<and> handler 0x21 s' = Some UserInterruptCallback \<and> \<not> masked 1 s' \<and> handler 0x22 s' = None"
proof -
  have "handler 0x22 kirq_example = None" by (simp add: handler_def)
  with interrupt_register_dispatch [of kirq_example "0x21" UserInterruptCallback] show ?thesis
    by (cases "interrupt_register 0x21 INTERRUPT_CALLBACK (Some UserInterruptCallback) kirq_example")
       (simp add: MAX_IRQ_NUMBER_def INTERRUPT_NONE_def)
qed

text \<open>Waking the first thread of a wait queue.\<close>

lemma wait_queue_notify_first:
  fixes s :: "'a kproc_scheme"
  assumes c: "one_cpu s" "\<not> sched_lock (runq s)" and q: "get s = Some q" "\<not> wq_lock q" "wq_threads q = w # ws"
    and w: "threads s w \<noteq> None" "w \<notin> set (sc_threads (runq s))"
    and get: "\<And>f g. get (sched_upd 0 f (thread_upd w g s)) = get s"
  shows "\<exists>f. wait_queue_notify get put s = Some (put (q\<lparr>wq_threads := ws\<rparr>) (sched_upd 0 f (thread_upd w woken s)))
    \<and> sc_threads (f (runq s)) = sc_threads (runq s) @ [w]"
proof -
  let ?s = "thread_upd w (\<lambda>th. th\<lparr>th_state := THREAD_STATE_RUNNING\<rparr>) s"
  have c': "one_cpu ?s" "\<not> sched_lock (runq ?s)" "threads ?s w \<noteq> None" using c w by simp_all
  have tt: "thread_upd w (\<lambda>th. th\<lparr>th_cpu := 0\<rparr>) ?s = thread_upd w woken s"
    by (simp add: thread_upd_def option.map_comp o_def)
  show ?thesis using c q w get [of _ woken] unfolding wait_queue_notify_def
    by (simp add: spinlock_defs cpu_add_thread_eq [OF c'] tt) (rule exI, rule conjI, rule refl, simp)
qed


lemma irq_flag_bits:
  "(f OR INTERRUPT_FIRED) AND INTERRUPT_REGISTERED = f AND INTERRUPT_REGISTERED" "(f OR INTERRUPT_FIRED) AND INTERRUPT_FIRED = INTERRUPT_FIRED"
  "(f OR INTERRUPT_FIRED) AND NOT INTERRUPT_FIRED = f AND NOT INTERRUPT_FIRED" "INTERRUPT_FIRED \<noteq> 0"
proof -
  have b: "INTERRUPT_REGISTERED = 2 ^ 0" "INTERRUPT_FIRED = 2 ^ 1" by (simp_all add: INTERRUPT_REGISTERED_def INTERRUPT_FIRED_def)
  show "(f OR INTERRUPT_FIRED) AND INTERRUPT_REGISTERED = f AND INTERRUPT_REGISTERED" "(f OR INTERRUPT_FIRED) AND INTERRUPT_FIRED = INTERRUPT_FIRED"
    "(f OR INTERRUPT_FIRED) AND NOT INTERRUPT_FIRED = f AND NOT INTERRUPT_FIRED"
    unfolding b by (rule bit_eqI; auto simp only: bit_simps)+
qed (simp add: INTERRUPT_FIRED_def)

lemma user_interrupt_callback_effect:
  fixes s :: "'a kirq_scheme"
  assumes c: "one_cpu s" "\<not> sched_lock (runq s)" and irq: "IRQ_USER_BEGIN \<le> irq" "irq \<le> IRQ_USER_END" "sint (irq_num regs) = irq"
    and len: "length (user_irqs s) = IRQ_USER_SIZE"
  defines "i \<equiv> nat (irq - IRQ_USER_BEGIN)"
  assumes u: "user_irqs s ! i = \<lparr>irq_thread = t, irq_queue = \<lparr>wq_lock = False, wq_threads = ws\<rparr>\<rparr>"
    and t: "t \<noteq> NULL" "threads s t = Some th" "length (th_interrupts th) = IRQ_USER_SIZE" "th_interrupts th ! i AND INTERRUPT_REGISTERED \<noteq> 0"
    and ws: "\<forall>w \<in> set ws. threads s w \<noteq> None \<and> w \<notin> set (sc_threads (runq s))"
  shows "\<exists>s1. user_interrupt_callback regs s = Some s1
    \<and> (ws \<noteq> [] \<longrightarrow> in_state THREAD_STATE_RUNNING s1 (hd ws) \<and> sc_threads (runq s1) = sc_threads (runq s) @ [hd ws])
    \<and> wq_threads (irq_queue (user_irqs s1 ! i)) = tl ws
    \<and> (\<exists>T. threads s1 t = Some T \<and> th_interrupts T = (th_interrupts th)[i := th_interrupts th ! i OR INTERRUPT_FIRED])"
proof -
  have i: "i < IRQ_USER_SIZE" "i < length (user_irqs s)"
    using irq(1, 2) len by (auto simp: i_def IRQ_USER_BEGIN_def IRQ_USER_END_def IRQ_USER_SIZE_def)
  let ?f = "th_interrupts th ! i OR INTERRUPT_FIRED"
  let ?s = "set_irq_flags t i ?f s"
  have cb: "user_interrupt_callback regs s = wait_queue_notify (irq_get i) (irq_put i) ?s"
    using irq i t u by (simp add: user_interrupt_callback_def Let_def i_def irq_flags_def)
  have S: "one_cpu ?s" "\<not> sched_lock (runq ?s)" "user_irqs ?s = user_irqs s" "sc_threads (runq ?s) = sc_threads (runq s)"
    "threads ?s x = (if x = t then Some (th\<lparr>th_interrupts := (th_interrupts th)[i := ?f]\<rparr>) else threads s x)" for x
    using c t by (simp_all add: set_irq_flags_def thread_upd_def one_cpu_def)
  have get: "irq_get i ?s = Some \<lparr>wq_lock = False, wq_threads = ws\<rparr>" using i u by (simp add: irq_get_def S)
  show ?thesis
  proof (cases ws)
    case Nil
    then show ?thesis using get cb S(3, 5) u by (simp add: wait_queue_notify_def spinlock_defs)
  next
    case (Cons w ws')
    have w: "threads ?s w \<noteq> None" "w \<notin> set (sc_threads (runq ?s))" using ws Cons by (auto simp: S)
    have "irq_get i (sched_upd 0 f (thread_upd w g ?s)) = irq_get i ?s" for f g
      by (simp add: irq_get_def sched_upd_def thread_upd_def)
    from wait_queue_notify_first [of ?s "irq_get i" _ w ws' "irq_put i", OF S(1, 2) get _ _ w this] Cons obtain f where
      f: "user_interrupt_callback regs s = Some (irq_put i \<lparr>wq_lock = False, wq_threads = ws'\<rparr> (sched_upd 0 f (thread_upd w woken ?s)))"
      "sc_threads (f (runq ?s)) = sc_threads (runq s) @ [w]" using cb S(4) by auto
    let ?s1 = "irq_put i \<lparr>wq_lock = False, wq_threads = ws'\<rparr> (sched_upd 0 f (thread_upd w woken ?s))"
    have th: "threads ?s1 = threads (thread_upd w woken ?s)" "runq ?s1 = f (runq ?s)"
      using S(1) by (simp_all add: irq_put_def sched_upd_def one_cpu_def thread_upd_def set_irq_flags_def)
    have "in_state THREAD_STATE_RUNNING ?s1 w" unfolding in_state_def th using w(1) by (auto simp del: S(5) split: option.split)
    moreover have "user_irqs ?s1 ! i = \<lparr>irq_thread = t, irq_queue = \<lparr>wq_lock = False, wq_threads = ws'\<rparr>\<rparr>"
      using i u by (simp add: irq_put_def sched_upd_def thread_upd_def set_irq_flags_def)
    moreover have "\<exists>T. threads ?s1 t = Some T \<and> th_interrupts T = (th_interrupts th)[i := ?f]"
      unfolding th using S(5) [of t] by (cases "t = w") auto
    ultimately show ?thesis using f(1, 2) th(2) Cons by (intro exI [of _ ?s1]) simp
  qed
qed

text \<open>
  C30. No interrupt for a driver is lost. When line \<open>irq\<close> fires, the first thread of its queue is made
  ready and leaves the queue, and the next time the thread that registered the line listens it returns at once,
  without blocking (for any run \<open>yield\<close> of the system), and has consumed the interrupt.
\<close>
theorem user_interrupt_not_lost:
  fixes s :: "'a kirq_scheme"
  assumes c: "one_cpu s" "\<not> sched_lock (runq s)" and irq: "IRQ_USER_BEGIN \<le> irq" "irq \<le> IRQ_USER_END" "sint (irq_num regs) = irq"
    and len: "length (user_irqs s) = IRQ_USER_SIZE"
  defines "i \<equiv> nat (irq - IRQ_USER_BEGIN)"
  assumes u: "user_irqs s ! i = \<lparr>irq_thread = t, irq_queue = \<lparr>wq_lock = False, wq_threads = ws\<rparr>\<rparr>"
    and t: "t \<noteq> NULL" "threads s t = Some th" "length (th_interrupts th) = IRQ_USER_SIZE" "th_interrupts th ! i AND INTERRUPT_REGISTERED \<noteq> 0"
    and ws: "\<forall>w \<in> set ws. threads s w \<noteq> None \<and> w \<notin> set (sc_threads (runq s))"
  shows "\<exists>s1. user_interrupt_callback regs s = Some s1
    \<and> (ws \<noteq> [] \<longrightarrow> in_state THREAD_STATE_RUNNING s1 (hd ws) \<and> sc_threads (runq s1) = sc_threads (runq s) @ [hd ws])
    \<and> wq_threads (irq_queue (user_irqs s1 ! i)) = tl ws
    \<and> (\<forall>yield. \<exists>s2. sys_interrupt_listen yield irq (s1\<lparr>current := t\<rparr>) = Some (irq, s2)
          \<and> irq_flags t i s2 = th_interrupts th ! i AND NOT INTERRUPT_FIRED)"
proof -
  have i: "i < IRQ_USER_SIZE"
    using irq(1, 2) by (auto simp: i_def IRQ_USER_BEGIN_def IRQ_USER_END_def IRQ_USER_SIZE_def)
  let ?f = "th_interrupts th ! i OR INTERRUPT_FIRED"
  from user_interrupt_callback_effect [OF c irq len u [unfolded i_def] t(1-3) t(4) [unfolded i_def] ws, folded i_def]
  obtain s1 T where s1: "user_interrupt_callback regs s = Some s1"
    "ws \<noteq> [] \<longrightarrow> in_state THREAD_STATE_RUNNING s1 (hd ws) \<and> sc_threads (runq s1) = sc_threads (runq s) @ [hd ws]"
    "wq_threads (irq_queue (user_irqs s1 ! i)) = tl ws" and T1: "threads s1 t = Some T" "th_interrupts T = (th_interrupts th)[i := ?f]" by blast
  then have T: "threads s1 t = Some T" "th_interrupts T ! i = ?f" "length (th_interrupts T) = IRQ_USER_SIZE" using i t(3) by simp_all
  have fl: "?f AND INTERRUPT_REGISTERED \<noteq> 0" "?f AND INTERRUPT_FIRED \<noteq> 0"
    "?f AND NOT INTERRUPT_FIRED = th_interrupts th ! i AND NOT INTERRUPT_FIRED"
    using t(4) by (simp_all add: irq_flag_bits)
  have "\<exists>s2. sys_interrupt_listen yield irq (s1\<lparr>current := t\<rparr>) = Some (irq, s2)
      \<and> irq_flags t i s2 = th_interrupts th ! i AND NOT INTERRUPT_FIRED" for yield
    using irq(1, 2) T i fl by (simp add: sys_interrupt_listen_def Let_def i_def [symmetric] irq_flags_def set_irq_flags_def)
  with s1 show ?thesis by blast
qed


theorem user_interrupt_not_lost_witness:
  "\<exists>s1. user_interrupt_callback (regs_example\<lparr>irq_num := 0x22\<rparr>) kirq_example = Some s1 \<and> sc_threads (runq s1) = [0x10000, 0x20000, 0x30000]
     \<and> (\<forall>yield. \<exists>s2. sys_interrupt_listen yield 0x22 (s1\<lparr>current := 0x30000\<rparr>) = Some (0x22, s2) \<and> irq_flags 0x30000 1 s2 = 1)"
proof -
  have n: "sint (irq_num (regs_example\<lparr>irq_num := 0x22\<rparr>)) = 0x22" by simp
  from user_interrupt_not_lost [of kirq_example, OF _ _ _ _ n, of "0x30000" "[0x30000]"]
  obtain s1 where s1: "user_interrupt_callback (regs_example\<lparr>irq_num := 0x22\<rparr>) kirq_example = Some s1"
    "sc_threads (runq s1) = [0x10000, 0x20000, 0x30000]"
    "\<forall>yield. \<exists>s2. sys_interrupt_listen yield 0x22 (s1\<lparr>current := 0x30000\<rparr>) = Some (0x22, s2)
       \<and> irq_flags 0x30000 1 s2 = 1 AND NOT INTERRUPT_FIRED"
    by (auto simp: IRQ_USER_BEGIN_def IRQ_USER_END_def IRQ_USER_SIZE_def INTERRUPT_REGISTERED_def)
  then show ?thesis by (simp add: INTERRUPT_FIRED_def)
qed

section \<open>Descriptors\<close>

text \<open>How the processor reads a descriptor.\<close>

definition gdt_base :: "gdt_entry \<Rightarrow> u32" where
  "gdt_base e = basel e OR push_bit 24 (ucast (baseh e))"

definition gdt_limit :: "gdt_entry \<Rightarrow> u32" where
  "gdt_limit e = ucast (limitl e) OR push_bit 16 (ucast (limith e))"

lemma gdt_add_entry_decodes:
  assumes "num < length gdt"
  shows "gdt_base (gdt_add_entry num base limit acc g gdt ! num) = base"
    and "gdt_limit (gdt_add_entry num base limit acc g gdt ! num) = limit AND 0xFFFFF"
proof -
  have m: "(0xFFFFFF :: u32) = mask 24" "(0xFF :: u32) = mask 8" "(0xFFFF :: u32) = mask 16" "(0xF :: u32) = mask 4" "(0xFFFFF :: u32) = mask 20"
    by (simp_all add: mask_eq_exp_minus_1)
  show "gdt_base (gdt_add_entry num base limit acc g gdt ! num) = base"
    "gdt_limit (gdt_add_entry num base limit acc g gdt ! num) = limit AND 0xFFFFF"
    using assms unfolding gdt_base_def gdt_limit_def gdt_add_entry_def m
    by (auto intro!: bit_eqI simp: bit_simps)
qed

end
