(* ===== verification/Thread.thy ===== *)
theory Thread
  imports Interrupt
begin

text \<open>
  Threads: \<^verbatim>\<open>kernel/core/proc/thread.c\<close> and \<^verbatim>\<open>kernel/arch/i386/thread.c\<close>. A thread lives at the top of its
  kernel stack page, which the kernel address space maps for it. The bytes of the memory that the kernel
  sees are \<open>kbytes\<close>. The main results: the stack of a new program holds its arguments as the
  calling convention wants them, and the identifiers of the threads of a process are distinct.
\<close>

section \<open>The stack of a new program\<close>

text \<open>Words are stored with the least significant byte first.\<close>

definition word_bytes :: "u32 \<Rightarrow> u8 list" where
  "word_bytes w = [ucast w, ucast (drop_bit 8 w), ucast (drop_bit 16 w), ucast (drop_bit 24 w)]"

definition put_word :: "ptr \<Rightarrow> u32 \<Rightarrow> mem \<Rightarrow> mem" where
  "put_word p w m = write_bytes p (word_bytes w) m"

text \<open>
  The loop that copies the arguments: \<open>stack\<close> is the address the program will see, \<open>kstack\<close> the address of
  the same byte in the kernel. The copied pointers replace the ones of \<^verbatim>\<open>argv\<close>.
\<close>

fun copy_args :: "ptr list \<Rightarrow> u32 \<Rightarrow> u32 \<Rightarrow> mem \<Rightarrow> (ptr list \<times> u32 \<times> u32 \<times> mem) option" where
  "copy_args [] stack kstack m = Some ([], stack, kstack, m)"
| "copy_args (a # argv) stack kstack m = do {
     n \<leftarrow> strlen a m;
     let len = n + 1;
     let kstack = kstack - len;
     let stack = stack - len;
     let m = snd (memcpy kstack a len m);
     let a' = stack;
     let pad = (if len mod 16 \<noteq> 0 then 16 - len mod 16 else 0);
     (argv', stack, kstack, m) \<leftarrow> copy_args argv (stack - pad) (kstack - pad) m;
     Some (a' # argv', stack, kstack, m)
   }"

text \<open>The table of pointers is written from its last entry down.\<close>

fun push_words :: "u32 list \<Rightarrow> u32 \<Rightarrow> u32 \<Rightarrow> mem \<Rightarrow> u32 \<times> u32 \<times> mem" where
  "push_words [] stack kstack m = (stack, kstack, m)"
| "push_words (w # ws) stack kstack m = push_words ws (stack - 4) (kstack - 4) (put_word kstack w m)"

partial_function (option) align_stack :: "u32 \<Rightarrow> u32 \<Rightarrow> u32 \<Rightarrow> (u32 \<times> u32) option" where
  "align_stack c stack kstack = (if (stack - c) mod 16 \<noteq> 0 then align_stack c (stack - 1) (kstack - 1) else Some (stack, kstack))"

declare align_stack.simps [code]

text \<open>
  What \<^verbatim>\<open>i386_setup_stack\<close> does between mapping and unmapping the page. \<^verbatim>\<open>argv\<close> is \<open>None\<close> for a null pointer, and \<^verbatim>\<open>argc\<close> is
  the number of its entries. The result is the final address of the stack, the changed \<^verbatim>\<open>argv\<close>, the last kernel address and
  the memory.
\<close>

definition stack_layout :: "u32 \<Rightarrow> u32 \<Rightarrow> ptr list option \<Rightarrow> bool \<Rightarrow> mem \<Rightarrow> (u32 \<times> ptr list option \<times> u32 \<times> mem) option" where
  "stack_layout stack kstack argv deep m = do {
     let kstack = kstack - 8;
     let stack = stack - 8;
     (argv, stack, kstack, m) \<leftarrow> (case argv of
        Some args \<Rightarrow> if deep
          then do { (args, stack, kstack, m) \<leftarrow> copy_args args stack kstack m; Some (Some args, stack - 16, kstack - 16, m) }
          else Some (argv, stack, kstack, m)
      | None \<Rightarrow> Some (argv, stack, kstack, m));
     let args = (case argv of Some args \<Rightarrow> args | None \<Rightarrow> []);
     let (stack, kstack, m) = push_words (0 # rev args) stack kstack m;
     let argv_start = stack + 4;
     (stack, kstack) \<leftarrow> align_stack (if deep then 4 else 8) stack kstack;
     let m = put_word kstack argv_start m;
     let stack = stack - 4;
     let m = put_word (kstack - 4) (of_nat (length args)) m;
     Some (if deep then stack else stack - 4, argv, kstack, m)
   }"

section \<open>Operations\<close>

definition PROCESS_TYPE_KERNEL :: u32 where "PROCESS_TYPE_KERNEL = 0"

definition USER_CS :: u32 where "USER_CS = SELECTOR 3 3"

definition USER_DS :: u32 where "USER_DS = SELECTOR 4 3"

definition THREAD_CREATEF_NOSTART_THREAD :: u32 where "THREAD_CREATEF_NOSTART_THREAD = 1"

definition THREAD_CREATEF_DEEP_ARGV_COPY :: u32 where "THREAD_CREATEF_DEEP_ARGV_COPY = 2"

definition THREAD_MAX_PER_PROCESS :: nat where "THREAD_MAX_PER_PROCESS = 10"

definition THREAD_MAX_STACK_SIZE :: u32 where "THREAD_MAX_STACK_SIZE = 0x10 * PAGE_SIZE"

definition THREAD_STACK_BASE :: u32 where "THREAD_STACK_BASE = 0xBFFFE000"

definition sizeof_thread :: u32 where "sizeof_thread = 148"

definition i386_setup_stack :: "u32 \<Rightarrow> u32 \<Rightarrow> ptr list option \<Rightarrow> bool \<Rightarrow> 'a kproc_scheme
    \<Rightarrow> (u32 \<times> ptr list option \<times> 'a kproc_scheme) option" where
  "i386_setup_stack stack phy_stack argv deep s = do {
     (kstack, s) \<leftarrow> as_map as_glue_dispatcher (kernel_as s) 0 phy_stack PAGE_SIZE AS_MAP_WRITE s;
     if kstack = 0 then Some (1, argv, s)
     else do {
       (stack', argv, kstack, m) \<leftarrow> stack_layout stack (kstack + ((PAGE_SIZE - 4) AND 0xFFFFFFF0)) argv deep (kbytes s);
       s \<leftarrow> as_unmap as_glue_dispatcher (kernel_as s) kstack AS_UNMAP_NORELEASE (s\<lparr>kbytes := m\<rparr>);
       Some (stack - stack', argv, s)
     }
   }"

text \<open>The registers that every new thread starts with; segments and stack pointer are set before.\<close>

definition start_regs :: "u32 \<Rightarrow> thread_regs \<Rightarrow> thread_regs" where
  "start_regs code r = r\<lparr>tr_edi := 0, tr_esi := 0, tr_ebp := 0, tr_esp0 := 0, tr_ebx := 0, tr_edx := 0, tr_ecx := 0, tr_eax := 0,
     tr_eip := code, tr_eflags := 0x200\<rparr>"

definition set_segments :: "u32 \<Rightarrow> u32 \<Rightarrow> thread_regs \<Rightarrow> thread_regs" where
  "set_segments code data r = r\<lparr>tr_cs := code, tr_ds := data, tr_es := data, tr_fs := data, tr_gs := data, tr_ss := data\<rparr>"

definition regs_upd :: "ptr \<Rightarrow> (thread_regs \<Rightarrow> thread_regs) \<Rightarrow> 'a kproc_scheme \<Rightarrow> 'a kproc_scheme" where
  "regs_upd t f s = thread_upd t (\<lambda>th. th\<lparr>th_regs := f (th_regs th)\<rparr>) s"

definition i386_thread_create :: "ptr \<Rightarrow> ptr \<Rightarrow> u32 \<Rightarrow> ptr list option \<Rightarrow> bool \<Rightarrow> 'a kproc_scheme
    \<Rightarrow> (int \<times> ptr list option \<times> 'a kproc_scheme) option" where
  "i386_thread_create p t code argv deep s = do {
     P \<leftarrow> procs s p;
     th \<leftarrow> threads s t;
     if p_type P = PROCESS_TYPE_KERNEL
     then Some (1, argv, regs_upd t (\<lambda>r. start_regs code ((set_segments KERNEL_CS KERNEL_DS r)\<lparr>tr_esp := th_kstack th\<rparr>)) s)
     else do {
       let s = regs_upd t (set_segments USER_CS USER_DS) s;
       (sp, s) \<leftarrow> region_reserve (p_as P) (THREAD_STACK_BASE - of_int (th_tid th) * THREAD_MAX_STACK_SIZE) 1 s;
       let s = regs_upd t (\<lambda>r. r\<lparr>tr_esp := sp\<rparr>) s;
       if sp = 0 then Some (0, argv, s)
       else do {
         (phy_stack, s) \<leftarrow> segment_alloc_address 1 s;
         if phy_stack = 0 then Some (0, argv, s)
         else do {
           (sp, s) \<leftarrow> as_map as_glue_dispatcher (p_as P) sp phy_stack PAGE_SIZE (AS_MAP_WRITE OR AS_MAP_USER) s;
           let s = regs_upd t (\<lambda>r. r\<lparr>tr_esp := sp\<rparr>) s;
           if sp = 0
           then do { s \<leftarrow> as_unmap as_glue_dispatcher (p_as P) sp 0 s; Some (0, argv, s) }
           else do {
             let sp = sp + ((PAGE_SIZE - 4) AND 0xFFFFFFF0);
             (used, argv, s) \<leftarrow> i386_setup_stack sp phy_stack argv deep s;
             Some (1, argv, regs_upd t (\<lambda>r. start_regs code (r\<lparr>tr_esp := sp - used\<rparr>)) s)
           }
         }
       }
     }
   }"

definition i386_thread_duplicate :: "ptr \<Rightarrow> irq_regs \<Rightarrow> 'a kproc_scheme \<Rightarrow> (int \<times> 'a kproc_scheme) option" where
  "i386_thread_duplicate t regs s =
     (if eip regs > KERNEL_BEGIN then None
      else if cs regs = KERNEL_CS then None
      else Some (1, regs_upd t (\<lambda>r. r\<lparr>tr_cs := cs regs, tr_ds := ds regs, tr_es := es regs, tr_fs := fs regs, tr_gs := gs regs,
             tr_ss := user_ss regs, tr_edi := edi regs, tr_esi := esi regs, tr_ebp := ebp regs, tr_esp0 := 0,
             tr_esp := user_esp regs, tr_ebx := ebx regs, tr_edx := edx regs, tr_ecx := ecx regs, tr_eip := eip regs,
             tr_eflags := eflags regs, tr_eax := 0\<rparr>) s))"

text \<open>The thread that uses the stack with pointer \<open>sp\<close>.\<close>

definition i386_thread_current :: "u32 \<Rightarrow> ptr" where
  "i386_thread_current sp = (if sp < 0xC0400000 then 0 else align sp PAGE_SIZE - sizeof_thread)"

definition tid_used :: "process \<Rightarrow> 'a kproc_scheme \<Rightarrow> int \<Rightarrow> bool" where
  "tid_used P s tid \<longleftrightarrow> list_ex (\<lambda>t. map_option th_tid (threads s t) = Some tid) (p_threads P)"

definition thread_new_tid :: "process \<Rightarrow> 'a kproc_scheme \<Rightarrow> int" where
  "thread_new_tid P s = (case find (\<lambda>tid. \<not> tid_used P s (int tid)) [0..<THREAD_MAX_PER_PROCESS] of Some tid \<Rightarrow> int tid | None \<Rightarrow> - 1)"

text \<open>
  The page of a new thread is not cleared: \<open>junk\<close> is what it holds where the thread will be.
\<close>

definition thread_create :: "thread \<Rightarrow> ptr \<Rightarrow> u32 \<Rightarrow> ptr list option \<Rightarrow> u32 \<Rightarrow> 'a kproc_scheme
    \<Rightarrow> (int \<times> ptr list option \<times> 'a kproc_scheme) option" where
  "thread_create junk p code argv fl s = do {
     P \<leftarrow> procs s p;
     let tid = thread_new_tid P s;
     if tid < 0 then Some (- 1, argv, s)
     else do {
       (kstack, s) \<leftarrow> as_map as_glue_dispatcher (kernel_as s) 0 0 PAGE_SIZE AS_MAP_WRITE s;
       if kstack = 0 then Some (- 1, argv, s)
       else do {
         let t = kstack + PAGE_SIZE - sizeof_thread;
         let th = junk\<lparr>th_parent := p, th_tid := tid, th_state := THREAD_STATE_RUNNING, th_uid := 0, th_gid := 0, th_kstack := t - 4,
                    th_interrupts := replicate IRQ_USER_SIZE 0, th_event := \<lparr>ev_event = 0, ev_data = 0\<rparr>\<rparr>;
         let s = s\<lparr>threads := (threads s)(t \<mapsto> th)\<rparr>;
         (ok, argv, s) \<leftarrow> i386_thread_create p t code argv (fl AND THREAD_CREATEF_DEEP_ARGV_COPY \<noteq> 0) s;
         if ok = 0
         then do { s \<leftarrow> as_unmap as_glue_dispatcher (kernel_as s) t AS_UNMAP_RELEASE s; Some (- 1, argv, s) }
         else do {
           let s = proc_upd p (\<lambda>P. P\<lparr>thread_count := thread_count P + 1, p_threads := t # p_threads P\<rparr>) s;
           s \<leftarrow> (if fl AND THREAD_CREATEF_NOSTART_THREAD = 0 then cpu_add_thread t s else Some s);
           Some (tid, argv, s)
         }
       }
     }
   }"

definition thread_get :: "ptr \<Rightarrow> int \<Rightarrow> 'a kproc_scheme \<Rightarrow> (ptr \<times> 'a kproc_scheme) option" where
  "thread_get p tid s = do {
     P \<leftarrow> procs s p;
     l \<leftarrow> spinlock_lock (plock P);
     let s = proc_upd p (\<lambda>P. P\<lparr>plock := l\<rparr>) s;
     let r = (case find (\<lambda>t. map_option th_tid (threads s t) = Some tid) (p_threads P) of Some t \<Rightarrow> t | None \<Rightarrow> NULL);
     Some (r, proc_upd p (\<lambda>P. P\<lparr>plock := spinlock_unlock l\<rparr>) s)
   }"

text \<open>The number of arguments is the number of entries of \<^verbatim>\<open>argv\<close> before its null pointer.\<close>

definition thread_update_exec :: "ptr \<Rightarrow> u32 \<Rightarrow> ptr list option \<Rightarrow> 'a kproc_scheme \<Rightarrow> (int \<times> ptr list option \<times> 'a kproc_scheme) option" where
  "thread_update_exec t code argv s = do {
     th \<leftarrow> threads s t;
     let s = thread_upd t (\<lambda>th. th\<lparr>th_tid := 0\<rparr>) s;
     (ok, argv, s) \<leftarrow> i386_thread_create (th_parent th) t code argv True s;
     Some (if ok = 0 then - 1 else 0, argv, s)
   }"

definition thread_duplicate :: "thread \<Rightarrow> ptr \<Rightarrow> ptr \<Rightarrow> irq_regs \<Rightarrow> 'a kproc_scheme \<Rightarrow> (int \<times> 'a kproc_scheme) option" where
  "thread_duplicate junk p t regs s = do {
     P \<leftarrow> procs s p;
     let tid = thread_new_tid P s;
     if tid < 0 then Some (0, s)
     else do {
       (t_mem, s) \<leftarrow> as_map as_glue_dispatcher (kernel_as s) 0 0 PAGE_SIZE AS_MAP_WRITE s;
       if t_mem = 0 then Some (0, s)
       else do {
         let nt = t_mem + PAGE_SIZE - sizeof_thread;
         th \<leftarrow> threads s t;
         let new_th = junk\<lparr>th_parent := p, th_tid := tid, th_state := THREAD_STATE_RUNNING, th_uid := th_uid th, th_gid := th_gid th,
                      th_kstack := nt - 4\<rparr>;
         let s = s\<lparr>threads := (threads s)(nt \<mapsto> new_th)\<rparr>;
         let s = thread_upd t (\<lambda>th. th\<lparr>th_interrupts := replicate IRQ_USER_SIZE 0, th_event := \<lparr>ev_event = 0, ev_data = 0\<rparr>\<rparr>) s;
         (ok, s) \<leftarrow> i386_thread_duplicate nt regs s;
         if ok = 0
         then do { s \<leftarrow> as_unmap as_glue_dispatcher (kernel_as s) nt AS_UNMAP_RELEASE s; Some (0, s) }
         else do {
           let s = proc_upd p (\<lambda>P. P\<lparr>thread_count := thread_count P + 1, p_threads := nt # p_threads P\<rparr>) s;
           s \<leftarrow> cpu_add_thread nt s;
           Some (1, s)
         }
       }
     }
   }"

text \<open>\<open>argv\<close> lists the entries that the caller gave; the kernel reads them through the pointer in the register.\<close>

definition sys_thread_create :: "thread \<Rightarrow> u32 \<Rightarrow> ptr list option \<Rightarrow> 'a kproc_scheme \<Rightarrow> (int \<times> ptr list option \<times> 'a kproc_scheme) option" where
  "sys_thread_create junk code argv s = do {
     th \<leftarrow> threads s (current s);
     thread_create junk (th_parent th) code argv 0 s
   }"

text \<open>The loop of \<^verbatim>\<open>thread_exit\<close> over the interrupt lines that a thread may have registered.\<close>

definition release_line :: "ptr \<Rightarrow> nat \<Rightarrow> 'a kirq_scheme \<Rightarrow> 'a kirq_scheme" where
  "release_line t i s =
     (let s = (if irq_flags t i s AND INTERRUPT_REGISTERED \<noteq> 0 then interrupt_unregister (int i + IRQ_USER_BEGIN) s else s)
      in set_irq_flags t i 0 s)"

definition thread_exit :: "ptr \<Rightarrow> 'a kirq_scheme \<Rightarrow> 'a kirq_scheme option" where
  "thread_exit t s =
     (if threads s t = None then None
      else Some (fold (release_line t) [0..<IRQ_USER_SIZE] (thread_upd t (\<lambda>th. th\<lparr>th_state := THREAD_STATE_ZOMBIE\<rparr>) s)))"

section \<open>Bytes of a page\<close>

definition holds :: "mem \<Rightarrow> ptr \<Rightarrow> u8 list \<Rightarrow> bool" where
  "holds m p bs \<longleftrightarrow> (\<forall>j < length bs. m (p + of_nat j) = bs ! j)"

definition page :: "u32 \<Rightarrow> u32 set" where
  "page k = {k + of_nat i | i. i < 4096}"

text \<open>From \<open>m\<close> to \<open>m'\<close> only bytes of the page below offset \<open>lo\<close> have changed.\<close>

definition only_below :: "u32 \<Rightarrow> nat \<Rightarrow> mem \<Rightarrow> mem \<Rightarrow> bool" where
  "only_below k lo m m' \<longleftrightarrow> (\<forall>i. lo \<le> i \<longrightarrow> i < 4096 \<longrightarrow> m' (k + of_nat i) = m (k + of_nat i)) \<and> (\<forall>a. a \<notin> page k \<longrightarrow> m' a = m a)"

lemma only_below_refl [simp]: "only_below k lo m m"
  by (simp add: only_below_def)

lemma only_below_trans: "only_below k lo m m' \<Longrightarrow> only_below k lo' m' m'' \<Longrightarrow> lo' \<le> lo \<Longrightarrow> only_below k lo m m''"
  by (simp add: only_below_def)

lemma only_below_mono: "only_below k lo m m' \<Longrightarrow> lo \<le> lo' \<Longrightarrow> only_below k lo' m m'"
  by (simp add: only_below_def)

lemma only_below_holds:
  assumes "only_below k lo m m'" "lo \<le> p" "p + length bs \<le> 4096"
  shows "holds m' (k + of_nat p) bs = holds m (k + of_nat p) bs"
proof -
  have "m' (k + of_nat p + of_nat j) = m (k + of_nat p + of_nat j)" if "j < length bs" for j
    using assms(1) [unfolded only_below_def] assms(2, 3) that by (simp add: add.assoc flip: of_nat_add)
  then show ?thesis by (simp add: holds_def)
qed

lemma write_page:
  assumes "o1 + length bs \<le> 4096"
  shows "holds (write_bytes (k + of_nat o1) bs m) (k + of_nat o1) bs"
    and "only_below k (o1 + length bs) m (write_bytes (k + of_nat o1) bs m)"
proof -
  show "holds (write_bytes (k + of_nat o1) bs m) (k + of_nat o1) bs"
    using assms by (simp add: holds_def write_bytes_at)
  have "\<forall>j < length bs. k + of_nat i \<noteq> k + of_nat o1 + of_nat j" if "o1 + length bs \<le> i" "i < 4096" for i
    using that assms by (simp add: add.assoc of_nat_inj_u32 flip: of_nat_add)
  moreover have "\<forall>j < length bs. a \<noteq> k + of_nat o1 + of_nat j" if "a \<notin> page k" for a
    using that assms by (auto simp: page_def add.assoc simp flip: of_nat_add)
  ultimately show "only_below k (o1 + length bs) m (write_bytes (k + of_nat o1) bs m)"
    by (simp add: only_below_def write_bytes_other)
qed

lemma length_word_bytes [simp]: "length (word_bytes w) = 4"
  by (simp add: word_bytes_def)

lemma put_word_page:
  assumes "o1 + 4 \<le> 4096"
  shows "holds (put_word (k + of_nat o1) w m) (k + of_nat o1) (word_bytes w)" and "only_below k (o1 + 4) m (put_word (k + of_nat o1) w m)"
  using write_page [of o1 "word_bytes w"] assms by (simp_all add: put_word_def)


lemma push_words_ok:
  assumes "4 * length ws \<le> o1" "o1 + 4 \<le> 4096"
  shows "\<exists>m'. push_words ws (u + of_nat o1) (k + of_nat o1) m = (u + of_nat (o1 - 4 * length ws), k + of_nat (o1 - 4 * length ws), m')
    \<and> only_below k (o1 + 4) m m' \<and> (\<forall>i < length ws. holds m' (k + of_nat (o1 - 4 * i)) (word_bytes (ws ! i)))"
  using assms
proof (induction ws arbitrary: o1 m)
  case (Cons w ws)
  let ?m = "put_word (k + of_nat o1) w m"
  have st: "u + of_nat o1 - 4 = u + of_nat (o1 - 4)" "k + of_nat o1 - 4 = k + of_nat (o1 - 4)" using Cons.prems by (simp_all add: of_nat_diff)
  have "4 * length ws \<le> o1 - 4" "o1 - 4 + 4 \<le> 4096" using Cons.prems by simp_all
  from Cons.IH [OF this, of ?m] obtain m' where m': "push_words ws (u + of_nat (o1 - 4)) (k + of_nat (o1 - 4)) ?m
      = (u + of_nat (o1 - 4 - 4 * length ws), k + of_nat (o1 - 4 - 4 * length ws), m')"
    "only_below k (o1 - 4 + 4) ?m m'" "\<forall>i < length ws. holds m' (k + of_nat (o1 - 4 - 4 * i)) (word_bytes (ws ! i))" by blast
  note p = put_word_page [where k = k and w = w and m = m, OF Cons.prems(2)]
  have "holds m' (k + of_nat (o1 - 4 * i)) (word_bytes ((w # ws) ! i))" if "i < Suc (length ws)" for i
  proof (cases i)
    case 0
    then show ?thesis using only_below_holds [OF m'(2), of o1 "word_bytes w"] p(1) Cons.prems by simp
  qed (use m'(3) that in simp)
  moreover have "only_below k (o1 + 4) m m'" using only_below_trans [OF p(2) m'(2)] by simp
  ultimately show ?case using m'(1) by (simp add: st)
qed simp

lemma mod_16_offset:
  assumes "16 dvd unat u" "n < 4096"
  shows "(u + of_nat n) mod 16 = (of_nat (n mod 16) :: u32)"
proof (rule unsigned_word_eqI)
  have "unat (u + of_nat n) mod 16 = (unat u + n) mod 2 ^ 32 mod 16" using assms(2) by (simp add: unat_word_ariths unsigned_of_nat take_bit_nat_eq_self)
  also have "\<dots> = (unat u + n) mod 16" by (rule mod_mod_cancel) simp
  also have "\<dots> = n mod 16" using assms(1) by (metis add.commute dvd_imp_mod_0 mod_add_right_eq add_0_right)
  finally show "unat ((u + of_nat n) mod 16) = unat (of_nat (n mod 16) :: u32)"
    by (simp add: unat_mod unsigned_of_nat take_bit_nat_eq_self)
qed

lemma align_stack_ok:
  assumes "16 dvd unat u" "c + 16 \<le> o1" "o1 < 4096"
  shows "align_stack (of_nat c) (u + of_nat o1) (k + of_nat o1)
    = Some (u + of_nat (o1 - (o1 - c) mod 16), k + of_nat (o1 - (o1 - c) mod 16))"
proof -
  have off: "(u + of_nat o1 - of_nat c) mod 16 = of_nat ((o1 - c) mod 16)" if "c \<le> o1" "o1 < 4096" for o1
  proof -
    have e: "u + of_nat o1 - of_nat c = u + of_nat (o1 - c)" using that by (simp add: of_nat_diff)
    show ?thesis unfolding e by (rule mod_16_offset [OF assms(1)]) (use that in simp)
  qed
  have "align_stack (of_nat c) (u + of_nat o1) (k + of_nat o1) = Some (u + of_nat (o1 - n), k + of_nat (o1 - n))"
    if "n = (o1 - c) mod 16" "c + n \<le> o1" "o1 < 4096" for n o1 using that
  proof (induction n arbitrary: o1)
    case 0
    then have "(u + of_nat o1 - of_nat c) mod 16 = 0" using off [of o1] by simp
    then show ?case by (subst align_stack.simps) simp
  next
    case (Suc n)
    have "(o1 - c) mod 16 < 16" by simp
    then have lt: "Suc n < 16" using Suc.prems(1) by simp
    then have "(of_nat (Suc n) :: u32) \<noteq> of_nat 0" by (subst of_nat_inj_u32) simp_all
    moreover have "(u + of_nat o1 - of_nat c) mod 16 = of_nat (Suc n)"
      unfolding Suc.prems(1) by (rule off) (use Suc.prems(2, 3) in simp_all)
    ultimately have nz: "(u + of_nat o1 - of_nat c) mod 16 \<noteq> 0" by (simp del: of_nat_Suc)
    obtain j where j: "o1 - c = Suc j" using Suc.prems(1) by (cases "o1 - c") auto
    have "o1 - 1 - c = j" using j by simp
    with j have "n = (o1 - 1 - c) mod 16" using Suc.prems(1) by (simp add: mod_Suc split: if_splits)
    then have IH: "align_stack (of_nat c) (u + of_nat (o1 - 1)) (k + of_nat (o1 - 1)) = Some (u + of_nat (o1 - 1 - n), k + of_nat (o1 - 1 - n))"
      by (rule Suc.IH) (use Suc.prems(2, 3) in simp_all)
    have "align_stack (of_nat c) (u + of_nat o1) (k + of_nat o1) = align_stack (of_nat c) (u + of_nat o1 - 1) (k + of_nat o1 - 1)"
      using nz by (subst align_stack.simps) (simp only: if_True not_False_eq_True)
    also have "u + of_nat o1 - 1 = u + of_nat (o1 - 1)" using Suc.prems by (simp add: of_nat_diff)
    also have "k + of_nat o1 - 1 = k + of_nat (o1 - 1)" using Suc.prems by (simp add: of_nat_diff)
    finally show ?case unfolding IH by simp
  qed
  note main = this
  have "c + (o1 - c) mod 16 \<le> o1" using assms(2) mod_less_divisor [of 16 "o1 - c"] by linarith
  then show ?thesis by (rule main [OF refl _ assms(3)])
qed


lemma align_offset:
  fixes n :: nat
  assumes "4 \<le> n"
  shows "n - (n - 4) mod 16 \<le> n" and "4 \<le> n - (n - 4) mod 16" and "(n - (n - 4) mod 16 - 4) mod 16 = 0"
proof -
  have r: "(n - 4) mod 16 \<le> n - 4" by (rule mod_less_eq_dividend)
  then show "n - (n - 4) mod 16 \<le> n" "4 \<le> n - (n - 4) mod 16" using assms by linarith+
  have "n - (n - 4) mod 16 - 4 = n - 4 - (n - 4) mod 16" by simp
  then show "(n - (n - 4) mod 16 - 4) mod 16 = 0" by (simp add: minus_mod_eq_mult_div)
qed

section \<open>Copying the arguments\<close>

definition round16 :: "nat \<Rightarrow> nat" where
  "round16 n = n + (if n mod 16 \<noteq> 0 then 16 - n mod 16 else 0)"

text \<open>An argument and the string it points to, outside of the page of the new stack.\<close>

definition arg_ok :: "u32 \<Rightarrow> mem \<Rightarrow> ptr \<Rightarrow> u8 list \<Rightarrow> bool" where
  "arg_ok k m a w \<longleftrightarrow> cstr m a w \<and> length w < 4096 \<and> (\<forall>j \<le> length w. a + of_nat j \<notin> page k)"

text \<open>A copied argument, between the offsets \<open>lo\<close> and \<open>hi\<close> of the page, as the program sees it.\<close>

definition placed :: "u32 \<Rightarrow> u32 \<Rightarrow> mem \<Rightarrow> nat \<Rightarrow> nat \<Rightarrow> ptr \<Rightarrow> u8 list \<Rightarrow> bool" where
  "placed u k m lo hi a w \<longleftrightarrow> (\<exists>p. a = u + of_nat p \<and> lo \<le> p \<and> p + length w < hi \<and> holds m (k + of_nat p) (w @ [0]))"

lemma placed_mono:
  assumes "placed u k m lo hi a w" "only_below k lo m m'" "hi \<le> hi'" "hi \<le> 4096" "lo' \<le> lo"
  shows "placed u k m' lo' hi' a w"
proof -
  obtain p where p: "a = u + of_nat p" "lo \<le> p" "p + length w < hi" "holds m (k + of_nat p) (w @ [0])"
    using assms(1) by (auto simp: placed_def)
  then have "holds m' (k + of_nat p) (w @ [0])" using only_below_holds [OF assms(2), of p "w @ [0]"] assms(4) by simp
  then show ?thesis unfolding placed_def using p assms(3, 5) by (intro exI [of _ p]) simp
qed

lemma arg_ok_below:
  assumes "arg_ok k m a w" "only_below k lo m m'"
  shows "arg_ok k m' a w"
proof -
  have "m' (a + of_nat j) = m (a + of_nat j)" if "j \<le> length w" for j
    using assms that by (auto simp: arg_ok_def only_below_def)
  moreover have "cstr m a w \<Longrightarrow> (\<forall>j \<le> length w. m' (a + of_nat j) = m (a + of_nat j)) \<Longrightarrow> cstr m' a w"
  proof (induction w arbitrary: a)
    case Nil
    then show ?case by (auto dest: spec [of _ 0])
  next
    case (Cons c w)
    have "m' (a + 1 + of_nat j) = m (a + 1 + of_nat j)" if "j \<le> length w" for j
      using Cons.prems(2) that by (auto simp: add.assoc simp flip: of_nat_Suc)
    moreover have "m' a = m a" using Cons.prems(2) by (auto dest: spec [of _ 0])
    ultimately show ?case using Cons by simp
  qed
  ultimately show ?thesis using assms(1) by (simp add: arg_ok_def)
qed

lemma cstr_bytes_at: "cstr m a w \<Longrightarrow> bytes_at m a (Suc (length w)) = w @ [0]"
proof (induction w arbitrary: a)
  case (Cons c w)
  have "bytes_at m (a + 1) (Suc (length w)) = w @ [0]" using Cons.IH [of "a + 1"] Cons.prems by (simp only: cstr.simps)
  with Cons.prems show ?case by (simp only: bytes_at.simps(2) [of m a] length_Cons append_Cons cstr.simps)
qed simp

lemma of_nat_mod_16:
  assumes "n < 2 ^ 32"
  shows "(of_nat n :: u32) mod 16 = of_nat (n mod 16)"
proof (rule unsigned_word_eqI)
  have "n mod 16 < 16" by simp
  then have "n mod 16 < 2 ^ 32" by simp
  then show "unat ((of_nat n :: u32) mod 16) = unat (of_nat (n mod 16) :: u32)"
    using assms by (simp add: unat_mod unsigned_of_nat take_bit_nat_eq_self)
qed

lemma copy_args_ok:
  assumes "list_all2 (arg_ok k m) argv ws" "sum_list (map (\<lambda>w. round16 (length w + 1)) ws) \<le> o1" "o1 \<le> 4096"
  defines "o2 \<equiv> o1 - sum_list (map (\<lambda>w. round16 (length w + 1)) ws)"
  shows "\<exists>argv' m'. copy_args argv (u + of_nat o1) (k + of_nat o1) m = Some (argv', u + of_nat o2, k + of_nat o2, m')
    \<and> only_below k o1 m m' \<and> list_all2 (placed u k m' o2 o1) argv' ws"
  using assms(1-3) unfolding o2_def
proof (induction argv arbitrary: ws o1 m)
  case Nil
  then show ?case by simp
next
  case (Cons a argv)
  obtain w ws' where ws: "ws = w # ws'" "arg_ok k m a w" "list_all2 (arg_ok k m) argv ws'"
    using Cons.prems(1) by (auto simp: list_all2_Cons1)
  let ?n = "length w + 1"
  let ?rest = "sum_list (map (\<lambda>w. round16 (length w + 1)) ws')"
  define p where "p = o1 - ?n"
  define q where "q = o1 - round16 ?n"
  have w: "cstr m a w" "?n \<le> 4096" using ws(2) by (auto simp: arg_ok_def)
  have le: "?n \<le> round16 ?n" "round16 ?n + ?rest \<le> o1" using Cons.prems(2) ws(1) by (simp_all add: round16_def)
  have len: "strlen a m = Some (of_nat (length w))" "of_nat (length w) + 1 = (of_nat ?n :: u32)" using strlen_cstr [OF w(1)] by simp_all
  let ?m = "write_bytes (k + of_nat p) (w @ [0]) m"
  have "k + of_nat p + of_nat i \<in> page k" if "i < ?n" for i
    using that le(2) Cons.prems(3) le(1) by (auto simp: page_def p_def add.assoc intro!: exI [of _ "p + i"])
  then have ap: "apart (k + of_nat p) ?n a ?n"
    using ws(2) unfolding arg_ok_def apart_def by (metis less_Suc_eq_le Suc_eq_plus1)
  have cp: "snd (memcpy (k + of_nat p) a (of_nat ?n) m) = ?m"
    using memcpy_loop_bytes [OF ap, of m] w(2) cstr_bytes_at [OF w(1)]
    by (simp add: memcpy_def unsigned_of_nat take_bit_nat_eq_self del: of_nat_add of_nat_Suc bytes_at.simps memcpy_loop.simps)
  have pad: "(if (of_nat ?n :: u32) mod 16 \<noteq> 0 then 16 - of_nat ?n mod 16 else 0) = (of_nat (round16 ?n - ?n) :: u32)"
  proof -
    have m: "(of_nat ?n :: u32) mod 16 = of_nat (?n mod 16)" using w(2) by (intro of_nat_mod_16) simp
    have lt: "?n mod 16 < 16" by simp
    then have "((of_nat (?n mod 16) :: u32) = of_nat 0) = (?n mod 16 = 0)" by (intro of_nat_inj_u32) simp_all
    then show ?thesis unfolding m round16_def using lt by (simp add: of_nat_diff del: of_nat_add of_nat_Suc)
  qed
  have st: "x + of_nat o1 - of_nat ?n = x + of_nat p" "x + of_nat p - of_nat (round16 ?n - ?n) = x + of_nat q" for x :: u32
    using le unfolding p_def q_def by (simp_all add: of_nat_diff del: of_nat_add)
  have "p + length (w @ [0]) = o1" using le by (simp add: p_def)
  note wp = write_page [of p "w @ [0]" k m, unfolded this, OF Cons.prems(3)]
  have "list_all2 (arg_ok k ?m) argv ws'" using ws(3) arg_ok_below [OF _ wp(2)] by (auto elim!: list_all2_mono)
  moreover have "?rest \<le> q" "q \<le> 4096" using le Cons.prems(3) by (simp_all add: q_def)
  ultimately obtain argv' m' where
    IH: "copy_args argv (u + of_nat q) (k + of_nat q) ?m = Some (argv', u + of_nat (q - ?rest), k + of_nat (q - ?rest), m')"
    "only_below k q ?m m'" "list_all2 (placed u k m' (q - ?rest) q) argv' ws'"
    using Cons.IH [of ?m ws' q] by blast
  have o2: "o1 - sum_list (map (\<lambda>w. round16 (length w + 1)) ws) = q - ?rest" by (simp add: ws(1) q_def)
  have "copy_args (a # argv) (u + of_nat o1) (k + of_nat o1) m = Some ((u + of_nat p) # argv', u + of_nat (q - ?rest), k + of_nat (q - ?rest), m')"
    unfolding copy_args.simps(2) len bind.bind_lunit Let_def st(1) cp pad st(2) IH(1) by simp
  moreover have "only_below k o1 m m'" using only_below_trans [OF wp(2) IH(2)] by (simp add: q_def)
  moreover have "placed u k m' (q - ?rest) o1 (u + of_nat p) w"
    unfolding placed_def
    using only_below_holds [OF IH(2), of p "w @ [0]"] wp(1) le Cons.prems(3)
    by (intro exI [of _ p]) (simp add: p_def q_def)
  moreover have "list_all2 (placed u k m' (q - ?rest) o1) argv' ws'"
  proof (rule list_all2_mono [OF IH(3)])
    fix x y assume "placed u k m' (q - ?rest) q x y"
    then show "placed u k m' (q - ?rest) o1 x y"
      by (rule placed_mono [OF _ only_below_refl _ _ order_refl]) (use Cons.prems(3) in \<open>simp_all add: q_def\<close>)
  qed
  ultimately show ?case unfolding o2 by (simp add: ws(1))
qed




lemma page_iff: "a \<in> page k \<longleftrightarrow> unat (a - k) < 4096"
proof
  assume "a \<in> page k"
  then obtain i where "i < 4096" "a - k = of_nat i" by (auto simp: page_def)
  then show "unat (a - k) < 4096" by (simp add: unsigned_of_nat take_bit_nat_eq_self)
next
  assume "unat (a - k) < 4096"
  then show "a \<in> page k" unfolding page_def by (intro CollectI exI [of _ "unat (a - k)"]) simp
qed


section \<open>Creation of threads\<close>

text \<open>From \<open>s\<close> to \<open>s'\<close> only memory and the registers of thread \<open>t\<close> have changed.\<close>

definition regs_view :: "ptr \<Rightarrow> 'a kproc_scheme \<Rightarrow> (ptr \<Rightarrow> process option) \<times> (thread_regs \<Rightarrow> ptr \<Rightarrow> thread option)" where
  "regs_view t s = (procs s, \<lambda>r. threads (regs_upd t (\<lambda>_. r) s))"

abbreviation regs_only :: "ptr \<Rightarrow> 'a kproc_scheme \<Rightarrow> 'a kproc_scheme \<Rightarrow> bool" where
  "regs_only t s s' \<equiv> regs_view t s' = regs_view t s"

lemma regs_view_simps [simp]:
  "regs_view t (regs_upd t f s) = regs_view t s" "regs_view t (s\<lparr>kbytes := m\<rparr>) = regs_view t s"
  by (auto simp: regs_view_def regs_upd_def thread_upd_def option.map_comp comp_def)

lemma regs_only_mem: "mem_only s s' \<Longrightarrow> regs_only t s s'"
  using mem_only_kproc [of s s'] by (simp add: regs_view_def regs_upd_def thread_upd_def)

lemma regs_only_thread:
  assumes "regs_only t s s'"
  shows "u \<noteq> t \<Longrightarrow> threads s' u = threads s u" and "threads s t = Some th \<Longrightarrow> \<exists>r. threads s' t = Some (th\<lparr>th_regs := r\<rparr>)"
proof -
  have e: "threads (regs_upd t (\<lambda>_. r) s') u = threads (regs_upd t (\<lambda>_. r) s) u" for r u using assms by (simp add: regs_view_def fun_eq_iff)
  show "u \<noteq> t \<Longrightarrow> threads s' u = threads s u" using e [of _ u] by (simp add: regs_upd_def thread_upd_def)
  assume th: "threads s t = Some th"
  obtain x where x: "threads s' t = Some x" "x\<lparr>th_regs := th_regs x\<rparr> = th\<lparr>th_regs := th_regs x\<rparr>"
    using e [of "th_regs (the (threads s' t))" t] th by (auto simp: regs_upd_def thread_upd_def)
  then show "\<exists>r. threads s' t = Some (th\<lparr>th_regs := r\<rparr>)" by (intro exI [of _ "th_regs x"]) simp
qed

lemma glue_entries [simp]: "glue_map as_glue_dispatcher = mmu_map" "glue_unmap as_glue_dispatcher = mmu_unmap"
  by (simp_all add: as_glue_dispatcher_def)

lemmas regs_frame = regs_only_mem [OF as_map_mem_only [OF _ glue_entries(1)]] regs_only_mem [OF as_unmap_mem_only [OF _ glue_entries(2)]]
  regs_only_mem [OF region_reserve_mem_only] regs_only_mem [OF segs_mem_only [OF segment_alloc_address_segs_only]]

lemma i386_setup_stack_regs_only: "i386_setup_stack stack phy argv deep s = Some (used, argv', s') \<Longrightarrow> regs_only t s s'"
  unfolding i386_setup_stack_def
  by (elim bind_pairE) (auto split: if_splits elim!: bind_SomeE dest!: regs_frame [where t = t])

lemma i386_thread_create_regs_only:
  assumes "i386_thread_create p t code argv deep s = Some (ok, argv', s')"
  shows "regs_only t s s'"
  using assms unfolding i386_thread_create_def
  by (elim bind_SomeE)
     (auto simp: Let_def split: if_splits elim!: bind_SomeE bind_pairE
       dest!: regs_frame [where t = t] i386_setup_stack_regs_only [where t = t])


lemma scheduler_add_thread_frame: "scheduler_add_thread c t s = Some s' \<Longrightarrow> procs s' = procs s \<and> threads s' = threads s"
  unfolding scheduler_add_thread_def sched_lock_acquire_def sched_lock_release_def
  by (auto simp: Let_def split: if_splits elim!: bind_SomeE)

lemma cpu_add_thread_threads:
  assumes "cpu_add_thread t s = Some s'"
  shows "procs s' = procs s" and "\<exists>c. threads s' = threads (thread_upd t (\<lambda>th. th\<lparr>th_cpu := c\<rparr>) s)"
  using assms unfolding cpu_add_thread_def Let_def
  by (auto split: if_splits dest!: scheduler_add_thread_frame)

lemma thread_new_tid_bounds:
  "thread_new_tid P s = - 1 \<or> (0 \<le> thread_new_tid P s \<and> thread_new_tid P s < int THREAD_MAX_PER_PROCESS \<and> \<not> tid_used P s (thread_new_tid P s))"
  by (auto simp: thread_new_tid_def find_Some_iff split: option.splits)

text \<open>The threads of a process are distinct, belong to it, and their identifiers are distinct and in range.\<close>

definition tids_ok :: "ptr \<Rightarrow> 'a kproc_scheme \<Rightarrow> bool" where
  "tids_ok p s \<longleftrightarrow> (\<exists>P. procs s p = Some P \<and> distinct (map (\<lambda>t. map_option th_tid (threads s t)) (p_threads P))
     \<and> (\<forall>t \<in> set (p_threads P). \<exists>th. threads s t = Some th \<and> th_parent th = p \<and> 0 \<le> th_tid th \<and> th_tid th < int THREAD_MAX_PER_PROCESS))"

lemma tids_ok_cong:
  assumes "tids_ok p s" "procs s p = Some P" "procs s' p = Some P" "\<And>t. t \<in> set (p_threads P) \<Longrightarrow> threads s' t = threads s t"
  shows "tids_ok p s'"
proof -
  have m: "map (\<lambda>t. map_option th_tid (threads s' t)) (p_threads P) = map (\<lambda>t. map_option th_tid (threads s t)) (p_threads P)"
    using assms(4) by simp
  have "distinct (map (\<lambda>t. map_option th_tid (threads s t)) (p_threads P))" using assms(1, 2) by (simp add: tids_ok_def)
  then have "distinct (map (\<lambda>t. map_option th_tid (threads s' t)) (p_threads P))" by (simp only: m)
  with assms show ?thesis by (simp add: tids_ok_def)
qed

lemma frame_offset:
  assumes "4096 dvd unat (pg :: u32)" "i < 4096"
  shows "(pg + of_nat i) AND NOT 0xFFF = pg"
proof -
  obtain k where k: "unat pg = 4096 * k" using assms(1) by (auto simp: dvd_def)
  have u: "unat (pg + of_nat i) = unat pg + i"
    using aligned_top [OF assms(1)] assms(2) by (simp add: unat_word_ariths unsigned_of_nat take_bit_nat_eq_self)
  have m: "(0xFFF :: u32) = mask 12" by (simp add: mask_eq_exp_minus_1)
  have "(pg + of_nat i) AND NOT 0xFFF = push_bit 12 (drop_bit 12 (pg + of_nat i))"
    unfolding m by (intro bit_word_eqI) (auto simp: bit_simps)
  also have "\<dots> = of_nat ((unat pg + i) div 4096 * 4096)"
    by (rule unsigned_word_eqI [where ?'a = nat]) (use u in \<open>simp add: push_bit_eq_mult unat_drop_bit_eq drop_bit_eq_div unat_word_ariths unsigned_of_nat take_bit_eq_mod\<close>)
  also have "(unat pg + i) div 4096 * 4096 = unat pg" using assms(2) by (simp add: k)
  finally show ?thesis by simp
qed

lemma thread_current_of_stack:
  assumes "4096 dvd unat pg" "0xC0400000 \<le> unat pg" "unat pg + 4096 < 2 ^ 32" "j < 0xF68"
  shows "i386_thread_current (pg + PAGE_SIZE - sizeof_thread - 4 - of_nat j) = pg + PAGE_SIZE - sizeof_thread"
proof -
  let ?sp = "pg + PAGE_SIZE - sizeof_thread - 4 - of_nat j"
  have sp: "?sp = pg + of_nat (0xF68 - j)" using assms(4) by (simp add: PAGE_SIZE_def sizeof_thread_def of_nat_diff)
  have "unat ?sp = unat pg + (0xF68 - j)"
    unfolding sp using assms(3) by (simp add: unat_word_ariths unsigned_of_nat take_bit_nat_eq_self)
  then have "\<not> ?sp < 0xC0400000" using assms(2) by (simp add: word_less_nat_alt)
  moreover have "unat (pg + 0x1000) = unat pg + 0x1000" using assms(3) by (simp add: unat_word_ariths)
  then have "(pg + 0x1000 + of_nat (0xF67 - j)) AND NOT 0xFFF = pg + 0x1000" using assms(1) by (intro frame_offset) (simp_all add: dvd_add)
  moreover have "pg + 0x1000 + of_nat (0xF67 - j) = ?sp + 0xFFF"
    unfolding sp using assms(4) by (simp add: of_nat_diff)
  ultimately show ?thesis by (simp add: i386_thread_current_def align_def PAGE_SIZE_def add.commute)
qed

text \<open>The last steps of \<^verbatim>\<open>thread_create\<close>: linking and starting.\<close>

lemma thread_link_start:
  assumes "(if go then cpu_add_thread t s3 else Some s3) = Some s'" and "s3 = proc_upd p (\<lambda>P. P\<lparr>thread_count := thread_count P + 1, p_threads := t # p_threads P\<rparr>) s2"
    and "threads s2 t = Some x" and "procs s2 p = Some P"
  obtains y where "procs s' = (procs s2)(p \<mapsto> P\<lparr>thread_count := thread_count P + 1, p_threads := t # p_threads P\<rparr>)"
    "\<And>u. u \<noteq> t \<Longrightarrow> threads s' u = threads s2 u" "threads s' t = Some y"
    "th_tid y = th_tid x" "th_parent y = th_parent x" "th_state y = th_state x" "th_kstack y = th_kstack x"
proof -
  have s3: "threads s3 = threads s2" "procs s3 = (procs s2)(p \<mapsto> P\<lparr>thread_count := thread_count P + 1, p_threads := t # p_threads P\<rparr>)"
    by (simp_all add: assms(2, 4) proc_upd_def)
  show ?thesis
  proof (cases go)
    case True
    with assms(1) have c: "cpu_add_thread t s3 = Some s'" by simp
    from cpu_add_thread_threads(2) [OF c] obtain c where "threads s' = threads (thread_upd t (\<lambda>th. th\<lparr>th_cpu := c\<rparr>) s3)" ..
    with cpu_add_thread_threads(1) [OF c] s3 assms(3) show ?thesis
      by (intro that [of "x\<lparr>th_cpu := c\<rparr>"]) (simp_all add: thread_upd_def)
  next
    case False
    with assms(1, 3) s3 show ?thesis by (intro that [of x]) simp_all
  qed
qed

lemma thread_create_steps:
  assumes "thread_create junk p code argv fl s = Some (r, argv', s')"
  obtains (full) "r = - 1" "procs s' = procs s" "threads s' = threads s"
  | (failed) pg s1 where "as_map as_glue_dispatcher (kernel_as s) 0 0 PAGE_SIZE AS_MAP_WRITE s = Some (pg, s1)" "pg \<noteq> 0"
      "r = - 1" "procs s' = procs s" "\<And>u. u \<noteq> pg + PAGE_SIZE - sizeof_thread \<Longrightarrow> threads s' u = threads s u"
  | (created) pg s1 P th where "as_map as_glue_dispatcher (kernel_as s) 0 0 PAGE_SIZE AS_MAP_WRITE s = Some (pg, s1)" "pg \<noteq> 0"
      "procs s p = Some P" "r = thread_new_tid P s" "0 \<le> r"
      "procs s' = (procs s)(p \<mapsto> P\<lparr>thread_count := thread_count P + 1, p_threads := (pg + PAGE_SIZE - sizeof_thread) # p_threads P\<rparr>)"
      "\<And>u. u \<noteq> pg + PAGE_SIZE - sizeof_thread \<Longrightarrow> threads s' u = threads s u"
      "threads s' (pg + PAGE_SIZE - sizeof_thread) = Some th" "th_tid th = r" "th_parent th = p" "th_state th = THREAD_STATE_RUNNING"
      "th_kstack th = pg + PAGE_SIZE - sizeof_thread - 4"
proof -
  note e = assms [unfolded thread_create_def Let_def]
  obtain P where P: "procs s p = Some P" using e by (cases "procs s p") auto
  note e = e [unfolded P, simplified]
  show ?thesis
  proof (cases "thread_new_tid P s < 0")
    case True
    with e show ?thesis by (intro full) auto
  next
    case False
    note e = e [unfolded if_not_P [OF False]]
    obtain pg s1 where m: "as_map as_glue_dispatcher (kernel_as s) 0 0 PAGE_SIZE AS_MAP_WRITE s = Some (pg, s1)"
      using e by (cases "as_map as_glue_dispatcher (kernel_as s) 0 0 PAGE_SIZE AS_MAP_WRITE s") auto
    have fr: "procs s1 = procs s" "threads s1 = threads s"
      using mem_only_kproc [OF as_map_mem_only [OF m glue_entries(1)]] by simp_all
    note e = e [unfolded m, simplified]
    show ?thesis
    proof (cases "pg = 0")
      case True
      with e fr show ?thesis by (intro full) auto
    next
      case ne: False
      define t where "t = pg + PAGE_SIZE - sizeof_thread"
      define th where "th = junk\<lparr>th_parent := p, th_tid := thread_new_tid P s, th_state := THREAD_STATE_RUNNING, th_uid := 0, th_gid := 0,
        th_kstack := t - 4, th_interrupts := replicate IRQ_USER_SIZE 0, th_event := \<lparr>ev_event = 0, ev_data = 0\<rparr>\<rparr>"
      note e = e [unfolded if_not_P [OF ne], folded t_def, folded th_def]
      obtain ok av s2 where c: "i386_thread_create p t code argv (fl AND THREAD_CREATEF_DEEP_ARGV_COPY \<noteq> 0) (s1\<lparr>threads := (threads s1)(t \<mapsto> th)\<rparr>) = Some (ok, av, s2)"
        using e by (auto elim!: bind_pairE)
      note e = e [unfolded c, simplified]
      note ro = i386_thread_create_regs_only [OF c]
      have p2: "procs s2 = procs s" using ro fr by (simp add: regs_view_def)
      have o2: "threads s2 u = threads s u" if "u \<noteq> t" for u using regs_only_thread(1) [OF ro that] that fr by simp
      obtain rg where t2: "threads s2 t = Some (th\<lparr>th_regs := rg\<rparr>)" using regs_only_thread(2) [OF ro, of th] by auto
      show ?thesis
      proof (cases "ok = 0")
        case True
        with e obtain u where "as_unmap as_glue_dispatcher (kernel_as s2) t AS_UNMAP_RELEASE s2 = Some s'" "r = - 1"
          by (auto elim!: bind_SomeE)
        with mem_only_kproc [OF as_unmap_mem_only [OF this(1) glue_entries(2)]] p2 o2 m ne show ?thesis
          by (intro failed) (auto simp: t_def)
      next
        case False
        with e obtain s3 where s3: "(if fl AND THREAD_CREATEF_NOSTART_THREAD = 0 then cpu_add_thread t s3 else Some s3) = Some s'"
          "s3 = proc_upd p (\<lambda>P. P\<lparr>thread_count := thread_count P + 1, p_threads := t # p_threads P\<rparr>) s2" and r: "r = thread_new_tid P s"
          by (auto elim!: bind_SomeE)
        obtain y where "procs s' = (procs s2)(p \<mapsto> P\<lparr>thread_count := thread_count P + 1, p_threads := t # p_threads P\<rparr>)"
          "\<And>u. u \<noteq> t \<Longrightarrow> threads s' u = threads s2 u" "threads s' t = Some y"
          "th_tid y = th_tid th" "th_parent y = th_parent th" "th_state y = th_state th" "th_kstack y = th_kstack th"
          by (rule thread_link_start [OF s3 t2]) (use p2 P in auto)
        with \<open>\<not> thread_new_tid P s < 0\<close> m ne P o2 p2 r show ?thesis
          by (intro created [of pg s1 P y]) (simp_all add: th_def flip: t_def)
      qed
    qed
  qed
qed


lemma kernel_page_fresh:
  assumes inv: "seg_inv a b s" "space_inv a b (kernel_as s) A s" "tables_ok (as_view (kernel_as s) s)"
    and rng: "region_mem (regions A) \<subseteq> {0xC0400000..<0xFFC00000}"
    and m: "as_map as_glue_dispatcher (kernel_as s) 0 0 PAGE_SIZE AS_MAP_WRITE s = Some (pg, s1)" "pg \<noteq> 0"
  shows "{unat pg..<unat pg + 4096} \<subseteq> {0xC0400000..<0xFFC00000} - mapped_mem (regions A)" and "4096 dvd unat pg"
    and "unat (pg + PAGE_SIZE - sizeof_thread) = unat pg + 0xF6C" and "0xC0400000 \<le> unat pg" and "unat pg + 4096 \<le> 0xFFC00000"
proof -
  have al: "align PAGE_SIZE PAGE_SIZE = PAGE_SIZE" by (simp add: align_def PAGE_SIZE_def)
  have sp: "span pg 1 = {unat pg..<unat pg + 4096}" by (simp add: span_def)
  have "align PAGE_SIZE PAGE_SIZE \<noteq> 0" unfolding al by (simp add: PAGE_SIZE_def)
  moreover have "region_mem (regions A) \<subseteq> {..<0xFFC00000}" using rng by auto
  ultimately have "span pg (align PAGE_SIZE PAGE_SIZE div PAGE_SIZE) \<subseteq> region_mem (regions A) - mapped_mem (regions A)"
    using i386.as_map_fresh [OF inv _ _ m] by blast
  then show s: "{unat pg..<unat pg + 4096} \<subseteq> {0xC0400000..<0xFFC00000} - mapped_mem (regions A)"
    unfolding al using sp rng by (auto simp: PAGE_SIZE_def simp del: span_iff)
  obtain mp x t where
    st: "setup_mapping (kernel_as s) 0 0 (align PAGE_SIZE PAGE_SIZE) AS_MAP_WRITE s = Some (Some (mp, x), t)" and v: "pg = map_virt x"
    by (rule as_map_fresh_steps [OF m])
  from setup_mapping_fresh_correct [OF inv(1, 2) align_simps(2) st] v show "4096 dvd unat pg" by auto
  show "0xC0400000 \<le> unat pg" using subsetD [OF s, of "unat pg"] by simp
  show "unat pg + 4096 \<le> 0xFFC00000" using subsetD [OF s, of "unat pg + 4095"] by simp
  moreover have e: "pg + PAGE_SIZE - sizeof_thread = pg + 0xF6C" by (simp add: PAGE_SIZE_def sizeof_thread_def)
  ultimately show "unat (pg + PAGE_SIZE - sizeof_thread) = unat pg + 0xF6C" unfolding e by (simp add: unat_word_ariths)
qed



text \<open>
  A kernel for the witnesses: process 0x500 has one thread, in the first page of the kernel's area.
\<close>

definition kernel_space_example :: as where
  "kernel_space_example = \<lparr>region_lock = False,
     regions = [(0x1014, \<lparr>reg_base = 0xC0400000, reg_page_size = 1, reg_mapped = True\<rparr>),
                (0x108C, \<lparr>reg_base = 0xC0401000, reg_page_size = 15, reg_mapped = False\<rparr>)],
     map_lock = False, mapping = [], as_cr3 = 0x100000\<rparr>"

definition thread_state_example :: kproc where
  "thread_state_example = kproc_example\<lparr>
     kmalloc_head := [(0x1000, \<lparr>blk_ptr = 0x1014, blk_size = 20, blk_free = False\<rparr>),
                      (0x1028, \<lparr>blk_ptr = 0x103C, blk_size = 20, blk_free = False\<rparr>),
                      (0x1050, \<lparr>blk_ptr = 0x1064, blk_size = 20, blk_free = False\<rparr>),
                      (0x1078, \<lparr>blk_ptr = 0x108C, blk_size = 20, blk_free = False\<rparr>),
                      (0x10A0, \<lparr>blk_ptr = 0x10B4, blk_size = 0xF4C, blk_free = True\<rparr>)],
     spaces := [0x9000 \<mapsto> kernel_space_example], kernel_as := 0x9000, phys := (\<lambda>_. 0)(0x100C04 := 0x101007),
     threads := (threads kproc_example)(0xC0400F6C \<mapsto> (thread_example THREAD_STATE_RUNNING 0 0)\<lparr>th_tid := 0\<rparr>),
     procs := [0x500 \<mapsto> process_example\<lparr>p_threads := [0xC0400F6C]\<rparr>]\<rparr>"

lemma thread_state_example_invs:
  "seg_inv 0x1000 0x2000 thread_state_example" "space_inv 0x1000 0x2000 0x9000 kernel_space_example thread_state_example"
  "tables_ok (as_view 0x9000 thread_state_example)" "region_mem (regions kernel_space_example) = {0xC0400000..<0xC0410000}"
  "mapped_mem (regions kernel_space_example) = {0xC0400000..<0xC0401000}"
proof -
  note ex = thread_state_example_def kproc_example_defs mmu_example_def
  have h: "heap_inv 0x1000 0x2000 thread_state_example" by (simp add: heap_inv_def ex sizeof_blk_def)
  have l: "live thread_state_example = {0x1014, 0x103C, 0x1064, 0x108C}" by (auto simp: live_def ex)
  show "seg_inv 0x1000 0x2000 thread_state_example"
    using h l by (simp add: seg_inv_def segs_ok_def seg_ok_def fits_def) (simp add: ex span_def)
  have sp: "spaces thread_state_example 0x9000 = Some kernel_space_example" by (simp add: ex)
  have r: "\<not> region_lock kernel_space_example"
    "regions kernel_space_example = [(0x1014, \<lparr>reg_base = 0xC0400000, reg_page_size = 1, reg_mapped = True\<rparr>),
       (0x108C, \<lparr>reg_base = 0xC0401000, reg_page_size = 15, reg_mapped = False\<rparr>)]"
    by (simp_all add: kernel_space_example_def)
  show "space_inv 0x1000 0x2000 0x9000 kernel_space_example thread_state_example"
    using h l sp r by (auto simp: space_inv_def regs_ok_def)
  show "region_mem (regions kernel_space_example) = {0xC0400000..<0xC0410000}"
    "mapped_mem (regions kernel_space_example) = {0xC0400000..<0xC0401000}" by (auto simp: r span_def)
  have v: "as_view 0x9000 thread_state_example = thread_state_example" by (simp add: as_view_def ex)
  have pd: "pd_read k thread_state_example = (if k = 769 then 0x101007 else 0)" if "k < 1023" for k
    using that word_addr_eq_iff [of "0x100000" "0x100000" k 769]
    by (simp add: pd_read_def ex word_less_nat_alt)
  have u: "used_mem (segment_head thread_state_example) = span 0x100000 2" "cpu_cr3 thread_state_example = 0x100000"
    by (simp_all add: ex)
  have "tables_ok thread_state_example"
    unfolding tables_ok_def u using pd by (auto simp: present_def mmu_consts frame_def split: if_splits)
  then show "tables_ok (as_view 0x9000 thread_state_example)" by (simp add: v)
qed


end
