(* ===== verification/Process.thy ===== *)
theory Process
  imports Thread
begin

text \<open>
  Processes: \<^verbatim>\<open>kernel/core/proc/process.c\<close>, \<^verbatim>\<open>elf.c\<close>, \<^verbatim>\<open>wait.c\<close>, \<^verbatim>\<open>kthread.c\<close>, the inodes of \<^verbatim>\<open>kernel/core/fs/vfs/inode.c\<close>
  and the system calls on processes. A file is found through its process and its descriptor; an inode
  is an object with a reference count. The main results: descriptors are the smallest free ones and
  come back when they are released, and the reference count of an inode is the number of open files
  that name it, for every way of duplicating and releasing files.
\<close>

section \<open>Data\<close>

record inode =
  i_mode :: u32
  i_uid :: u16
  i_gid :: u16
  i_inode :: u32
  i_dev :: int
  i_size :: int
  i_atime :: u32
  i_mtime :: u32
  i_ctime :: u32
  i_ref :: int

record kfiles = kirq +
  inodes :: "ptr \<Rightarrow> inode option"
  kproc_ptr :: ptr

text \<open>The place of a file: its process and its descriptor.\<close>

type_synonym fref = "ptr \<times> nat"

record req_rdwr =
  rw_op :: u16
  rw_slave_id :: u16
  rw_inode :: u32
  rw_size :: u32
  rw_off :: u64
  rw_data :: ptr

record req_ioctl =
  io_op :: u16
  io_slave_id :: u16
  io_inode :: u32
  io_request :: int
  io_with_argp :: int
  io_argp :: int

text \<open>A table of file operations; an operation that the table does not have is \<open>None\<close>.\<close>

record 's file_operation =
  fo_open :: "(fref \<Rightarrow> u32 \<Rightarrow> int \<Rightarrow> u16 \<Rightarrow> u16 \<Rightarrow> int \<Rightarrow> u32 \<Rightarrow> 's \<Rightarrow> (int \<times> 's) option) option"
  fo_read :: "(fref \<Rightarrow> ptr \<Rightarrow> req_rdwr \<Rightarrow> ptr \<Rightarrow> 's \<Rightarrow> (int \<times> req_rdwr \<times> 's) option) option"
  fo_write :: "(fref \<Rightarrow> ptr \<Rightarrow> req_rdwr \<Rightarrow> ptr \<Rightarrow> 's \<Rightarrow> (int \<times> req_rdwr \<times> 's) option) option"
  fo_ioctl :: "(fref \<Rightarrow> req_ioctl \<Rightarrow> ptr \<Rightarrow> 's \<Rightarrow> (int \<times> 's) option) option"
  fo_dup :: "(fref \<Rightarrow> fref \<Rightarrow> 's \<Rightarrow> (int \<times> 's) option) option"
  fo_close :: "(fref \<Rightarrow> u32 \<Rightarrow> 's \<Rightarrow> (int \<times> 's) option) option"

definition PROCESS_MAX_PID :: nat where "PROCESS_MAX_PID = 0xFF"

definition PROCESS_MAX_OPEN_FD :: nat where "PROCESS_MAX_OPEN_FD = 255"

definition PROCESS_TYPE_USER :: u32 where "PROCESS_TYPE_USER = 2"

definition PROCESS_FLAG_LOAD :: u32 where "PROCESS_FLAG_LOAD = 2"

definition sizeof_process :: u32 where "sizeof_process = 7244"

definition sizeof_inode :: u32 where "sizeof_inode = 40"

definition file_zero :: vfs_file where
  "file_zero = \<lparr>f_used = False, f_inode = NULL, f_offset = 0, f_ops = None, f_private = NULL, f_mount = None\<rparr>"

definition get_file :: "fref \<Rightarrow> 'a kproc_scheme \<Rightarrow> vfs_file option" where
  "get_file r s = (case procs s (fst r) of None \<Rightarrow> None | Some P \<Rightarrow> if snd r < length (files P) then Some (files P ! snd r) else None)"

definition file_upd :: "fref \<Rightarrow> (vfs_file \<Rightarrow> vfs_file) \<Rightarrow> 'a kproc_scheme \<Rightarrow> 'a kproc_scheme" where
  "file_upd r g s = proc_upd (fst r) (\<lambda>P. P\<lparr>files := (files P)[snd r := g (files P ! snd r)]\<rparr>) s"

section \<open>Inodes\<close>

definition inode_new :: "u32 \<Rightarrow> 'a kfiles_scheme \<Rightarrow> (ptr \<times> 'a kfiles_scheme) option" where
  "inode_new mode s = do {
     (i, s) \<leftarrow> kmalloc sizeof_inode s;
     if i = NULL then Some (NULL, s)
     else Some (i, s\<lparr>inodes := (inodes s)(i \<mapsto> \<lparr>i_mode = mode, i_uid = 0, i_gid = 0, i_inode = 0, i_dev = 0, i_size = 0,
            i_atime = 0, i_mtime = 0, i_ctime = 0, i_ref = 1\<rparr>)\<rparr>)
   }"

definition inode_upd :: "ptr \<Rightarrow> (inode \<Rightarrow> inode) \<Rightarrow> 'a kfiles_scheme \<Rightarrow> 'a kfiles_scheme" where
  "inode_upd i g s = s\<lparr>inodes := (inodes s)(i := map_option g (inodes s i))\<rparr>"

definition inode_inc :: "ptr \<Rightarrow> 'a kfiles_scheme \<Rightarrow> 'a kfiles_scheme option" where
  "inode_inc i s = (if inodes s i = None then None else Some (inode_upd i (\<lambda>n. n\<lparr>i_ref := i_ref n + 1\<rparr>) s))"

definition inode_del :: "ptr \<Rightarrow> 'a kfiles_scheme \<Rightarrow> 'a kfiles_scheme option" where
  "inode_del i s = do {
     n \<leftarrow> inodes s i;
     let s = inode_upd i (\<lambda>n. n\<lparr>i_ref := i_ref n - 1\<rparr>) s;
     if i_ref n - 1 = 0
     then do { s \<leftarrow> kfree i s; Some (s\<lparr>inodes := (inodes s)(i := None)\<rparr>) }
     else Some s
   }"

section \<open>File descriptors\<close>

definition process_new_fd :: "ptr \<Rightarrow> 'a kproc_scheme \<Rightarrow> (int \<times> 'a kproc_scheme) option" where
  "process_new_fd p s = do {
     P \<leftarrow> procs s p;
     l \<leftarrow> spinlock_lock (files_lock P);
     let s = proc_upd p (\<lambda>P. P\<lparr>files_lock := l\<rparr>) s;
     case find (\<lambda>i. \<not> f_used (files P ! i)) [0..<PROCESS_MAX_OPEN_FD] of
       Some i \<Rightarrow> do {
         let s = file_upd (p, i) (\<lambda>f. f\<lparr>f_used := True\<rparr>) s;
         Some (int i, proc_upd p (\<lambda>P. P\<lparr>files_lock := spinlock_unlock l\<rparr>) s)
       }
     | None \<Rightarrow> Some (- EMFILE, proc_upd p (\<lambda>P. P\<lparr>files_lock := spinlock_unlock l\<rparr>) s)
   }"

definition process_fd_exist :: "ptr \<Rightarrow> int \<Rightarrow> 'a kproc_scheme \<Rightarrow> (bool \<times> 'a kproc_scheme) option" where
  "process_fd_exist p fd s =
     (if fd < 0 \<or> fd \<ge> int PROCESS_MAX_OPEN_FD then Some (False, s)
      else do {
        P \<leftarrow> procs s p;
        l \<leftarrow> spinlock_lock (files_lock P);
        let s = proc_upd p (\<lambda>P. P\<lparr>files_lock := l\<rparr>) s;
        f \<leftarrow> get_file (p, nat fd) s;
        Some (f_used f, proc_upd p (\<lambda>P. P\<lparr>files_lock := spinlock_unlock l\<rparr>) s)
      })"

text \<open>The second result is the place of the file; it has a meaning only when the first one is 0.\<close>

definition process_file_from_fd :: "ptr \<Rightarrow> int \<Rightarrow> 'a kproc_scheme \<Rightarrow> (int \<times> fref) option" where
  "process_file_from_fd p fd s =
     (if fd < 0 \<or> fd \<ge> int PROCESS_MAX_OPEN_FD then Some (- EINVAL, (p, 0))
      else do {
        f \<leftarrow> get_file (p, nat fd) s;
        if \<not> f_used f then Some (- EBADF, (p, 0)) else Some (0, (p, nat fd))
      })"

definition process_dup_file :: "(fops \<Rightarrow> 'a kfiles_scheme file_operation) \<Rightarrow> fref \<Rightarrow> fref \<Rightarrow> 'a kfiles_scheme \<Rightarrow> (int \<times> 'a kfiles_scheme) option" where
  "process_dup_file vt f_new f_old s = do {
     fo \<leftarrow> get_file f_old s;
     let s = file_upd f_new (\<lambda>f. f\<lparr>f_used := f_used fo\<rparr>) s;
     if \<not> f_used fo then Some (0, s)
     else do {
       let s = file_upd f_new (\<lambda>f. f\<lparr>f_inode := NULL\<rparr>) s;
       fo \<leftarrow> get_file f_old s;
       s \<leftarrow> (if f_inode fo \<noteq> NULL
             then do { s \<leftarrow> inode_inc (f_inode fo) s; Some (file_upd f_new (\<lambda>f. f\<lparr>f_inode := f_inode fo\<rparr>) s) }
             else Some s);
       let s = file_upd f_new (\<lambda>f. f\<lparr>f_offset := f_offset fo, f_ops := f_ops fo, f_private := f_private fo, f_mount := f_mount fo\<rparr>) s;
       ops \<leftarrow> f_ops fo;
       case fo_dup (vt ops) of
         None \<Rightarrow> Some (0, s)
       | Some dup \<Rightarrow> do {
           (ret, s) \<leftarrow> dup f_new f_old s;
           if ret < 0
           then do { fn \<leftarrow> get_file f_new s; s \<leftarrow> inode_del (f_inode fn) s; Some (ret, s) }
           else Some (0, s)
         }
     }
   }"

definition process_free_fd :: "ptr \<Rightarrow> int \<Rightarrow> 'a kproc_scheme \<Rightarrow> 'a kproc_scheme option" where
  "process_free_fd p fd s =
     (if fd < 0 \<or> fd \<ge> int PROCESS_MAX_OPEN_FD then Some s
      else do {
        P \<leftarrow> procs s p;
        l \<leftarrow> spinlock_lock (files_lock P);
        let s = proc_upd p (\<lambda>P. P\<lparr>files_lock := l\<rparr>) s;
        let s = file_upd (p, nat fd) (\<lambda>f. f\<lparr>f_used := False\<rparr>) s;
        Some (proc_upd p (\<lambda>P. P\<lparr>files_lock := spinlock_unlock l\<rparr>) s)
      })"

section \<open>Loading a program\<close>

definition get_half :: "ptr \<Rightarrow> mem \<Rightarrow> u16" where
  "get_half p m = ucast (m p) OR push_bit 8 (ucast (m (p + 1)))"

definition get_word :: "ptr \<Rightarrow> mem \<Rightarrow> u32" where
  "get_word p m = ucast (m p) OR push_bit 8 (ucast (m (p + 1))) OR push_bit 16 (ucast (m (p + 2))) OR push_bit 24 (ucast (m (p + 3)))"

definition is_elf :: "ptr \<Rightarrow> mem \<Rightarrow> bool" where
  "is_elf elf m \<longleftrightarrow> m elf = 0x7F \<and> m (elf + 1) = 0x45 \<and> m (elf + 2) = 0x4C \<and> m (elf + 3) = 0x46"

definition PT_LOAD :: u32 where "PT_LOAD = 1"

text \<open>One round of the loop over the program headers; \<open>phdr\<close> is the address of the header.\<close>

definition load_segment :: "ptr \<Rightarrow> bool \<Rightarrow> ptr \<Rightarrow> ptr \<Rightarrow> 'a kproc_scheme \<Rightarrow> 'a kproc_scheme option" where
  "load_segment as need_kernel elf phdr s =
     (let field = (\<lambda>k. get_word (phdr + k) (kbytes s));
          offset = field 4; p_vaddr = field 8; filesz = field 16; memsz = field 20 in
      if field 0 \<noteq> PT_LOAD then Some s
      else do {
        let page_size = align memsz PAGE_SIZE div PAGE_SIZE;
        (vaddr, s) \<leftarrow> region_reserve as p_vaddr page_size s;
        (paddr, s) \<leftarrow> segment_alloc_address page_size s;
        (vaddr, s) \<leftarrow> as_map as_glue_dispatcher as vaddr paddr memsz (AS_MAP_USER OR AS_MAP_WRITE) s;
        (vaddr, s) \<leftarrow> (if need_kernel then as_map as_glue_dispatcher (kernel_as s) 0 paddr memsz AS_MAP_WRITE s else Some (vaddr, s));
        let s = s\<lparr>kbytes := snd (memcpy vaddr (elf + offset) filesz (kbytes s))\<rparr>;
        let s = s\<lparr>kbytes := snd (memset (vaddr + filesz) 0 (memsz - filesz) (kbytes s))\<rparr>;
        if need_kernel then as_unmap as_glue_dispatcher (kernel_as s) vaddr AS_UNMAP_NORELEASE s else Some s
      })"

text \<open>
  The loop reads the number of headers, 16 bits, before every round: 65535 rounds are always enough.
\<close>

fun load_segments :: "nat \<Rightarrow> nat \<Rightarrow> ptr \<Rightarrow> bool \<Rightarrow> ptr \<Rightarrow> ptr \<Rightarrow> 'a kproc_scheme \<Rightarrow> 'a kproc_scheme option" where
  "load_segments 0 i as need_kernel elf phdr s = Some s"
| "load_segments (Suc n) i as need_kernel elf phdr s =
     (if i < unat (get_half (elf + 44) (kbytes s))
      then do { s \<leftarrow> load_segment as need_kernel elf (phdr + 32 * of_nat i) s; load_segments n (Suc i) as need_kernel elf phdr s }
      else Some s)"

definition process_load_elf :: "ptr \<Rightarrow> ptr \<Rightarrow> 'a kproc_scheme \<Rightarrow> (u32 \<times> 'a kproc_scheme) option" where
  "process_load_elf p elf s = do {
     let phdr = elf + get_word (elf + 28) (kbytes s);
     P \<leftarrow> procs s p;
     need_kernel \<leftarrow> (if current s = NULL then Some True
        else do { th \<leftarrow> threads s (current s); Q \<leftarrow> procs s (th_parent th); Some (p_as Q \<noteq> p_as P) });
     s \<leftarrow> load_segments 65535 0 (p_as P) need_kernel elf phdr s;
     Some (get_word (elf + 24) (kbytes s), s)
   }"

section \<open>Creation, duplication and end\<close>

definition process_initialize :: "'a kproc_scheme \<Rightarrow> 'a kproc_scheme" where
  "process_initialize s = s\<lparr>processes := []\<rparr>"

definition init_process :: "int \<Rightarrow> u32 \<Rightarrow> ptr \<Rightarrow> process \<Rightarrow> process" where
  "init_process n type parent P = P\<lparr>p_state := PROCESS_STATE_ALIVE, thread_count := 0, p_type := type, pid := n, p_parent := parent,
     plock := spinlock_init, files_lock := spinlock_init, p_threads := [], children := []\<rparr>"

definition pid_used :: "'a kproc_scheme \<Rightarrow> int \<Rightarrow> bool" where
  "pid_used s n \<longleftrightarrow> list_ex (\<lambda>p. map_option pid (procs s p) = Some n) (processes s)"

definition process_new_pid :: "'a kproc_scheme \<Rightarrow> int" where
  "process_new_pid s = (case find (\<lambda>n. \<not> pid_used s (int n)) [0..<PROCESS_MAX_PID] of Some n \<Rightarrow> int n | None \<Rightarrow> - 1)"

definition process_get :: "int \<Rightarrow> 'a kproc_scheme \<Rightarrow> ptr" where
  "process_get n s = (case find (\<lambda>p. map_option pid (procs s p) = Some n) (processes s) of Some p \<Rightarrow> p | None \<Rightarrow> NULL)"

text \<open>
  A fresh object is not cleared: \<open>jp\<close> is what the memory of the new process holds, \<open>jt\<close> the page of its thread. When
  \<^verbatim>\<open>as_initialize\<close> fails, the error path walks the lists of the address space, which were not initialised: this is
  \<open>None\<close>.
\<close>

definition process_create :: "process \<Rightarrow> thread \<Rightarrow> u32 \<Rightarrow> u32 \<Rightarrow> u32 \<Rightarrow> ptr list option \<Rightarrow> 'a kproc_scheme \<Rightarrow> (ptr \<times> 'a kproc_scheme) option" where
  "process_create jp jt type code fl argv s =
     (let n = process_new_pid s in
      if n < 0 then Some (NULL, s)
      else do {
        (p, s) \<leftarrow> kmalloc sizeof_process s;
        if p = NULL then Some (NULL, s)
        else do {
          (as, s) \<leftarrow> (if type AND PROCESS_TYPE_USER \<noteq> 0
             then do {
               (as, s) \<leftarrow> kmalloc sizeof_as s;
               let s = s\<lparr>spaces := (spaces s)(as \<mapsto> as_blank)\<rparr>;
               (ok, s) \<leftarrow> as_initialize as_glue_dispatcher as s;
               if ok = 0 then None else Some (as, s)
             }
             else Some (kernel_as s, s));
          let P = (init_process n type (process_get 1 s) (jp\<lparr>p_as := as\<rparr>))\<lparr>files := replicate (PROCESS_MAX_OPEN_FD + 1) file_zero\<rparr>;
          let s = s\<lparr>procs := (procs s)(p \<mapsto> P)\<rparr>;
          (code, ok, s) \<leftarrow> (if fl AND PROCESS_FLAG_LOAD \<noteq> 0
             then do { (code, s) \<leftarrow> process_load_elf p code s; Some (code, code \<noteq> 0, s) }
             else Some (code, True, s));
          (ok, s) \<leftarrow> (if ok \<and> code \<noteq> 0
             then do { (tid, _, s) \<leftarrow> thread_create jt p code argv THREAD_CREATEF_DEEP_ARGV_COPY s; Some (tid \<ge> 0, s) }
             else Some (ok, s));
          if ok then Some (p, s\<lparr>processes := p # processes s\<rparr>)
          else do {
            s \<leftarrow> (if as \<noteq> kernel_as s then as_destroy as_glue_dispatcher as s else Some s);
            s \<leftarrow> kfree p s;
            Some (NULL, s\<lparr>procs := (procs s)(p := None)\<rparr>)
          }
        }
      })"

definition process_fork :: "(fops \<Rightarrow> 'a kfiles_scheme file_operation) \<Rightarrow> process \<Rightarrow> thread \<Rightarrow> ptr \<Rightarrow> irq_regs \<Rightarrow> 'a kfiles_scheme
    \<Rightarrow> (int \<times> 'a kfiles_scheme) option" where
  "process_fork vt jp jt p regs s =
     (let n = process_new_pid s in
      if n = 0 then Some (- EAGAIN, s)
      else do {
        (child, s) \<leftarrow> kmalloc sizeof_process s;
        if child = NULL then Some (- ENOMEM, s)
        else do {
          P \<leftarrow> procs s p;
          (as, s) \<leftarrow> as_duplicate as_glue_dispatcher (p_as P) s;
          if as = NULL then do { s \<leftarrow> kfree child s; Some (- EAGAIN, s) }
          else do {
            let s = s\<lparr>procs := (procs s)(child \<mapsto> init_process n (p_type P) p (jp\<lparr>p_as := as\<rparr>))\<rparr>;
            (ok, s) \<leftarrow> thread_duplicate jt child (current s) regs s;
            if ok = 0
            then do {
              s \<leftarrow> as_destroy as_glue_dispatcher as s;
              s \<leftarrow> kfree child s;
              Some (- ENOMEM, s\<lparr>procs := (procs s)(child := None)\<rparr>)
            }
            else do {
              s \<leftarrow> for_each (\<lambda>i s. do { (_, s) \<leftarrow> process_dup_file vt (child, i) (p, i) s; Some s }) [0..<PROCESS_MAX_OPEN_FD] s;
              let s = proc_upd p (\<lambda>P. P\<lparr>children := child # children P\<rparr>) s;
              Some (n, s\<lparr>processes := child # processes s\<rparr>)
            }
          }
        }
      })"

definition process_exit :: "ptr \<Rightarrow> int \<Rightarrow> 'a kirq_scheme \<Rightarrow> 'a kirq_scheme option" where
  "process_exit p code s = do {
     c \<leftarrow> cpu_get cpu_id_get s;
     P \<leftarrow> procs s p;
     _ \<leftarrow> spinlock_lock (plock P);
     let s = proc_upd p (\<lambda>P. P\<lparr>exit_state := code, p_state := PROCESS_STATE_ZOMBIE\<rparr>) s;
     s \<leftarrow> for_each thread_exit (p_threads P) s;
     scheduler_update None True (sched_upd c (\<lambda>sc. sc\<lparr>sc_time := 1\<rparr>) s)
   }"

section \<open>Waiting for a child\<close>

text \<open>
  \<^verbatim>\<open>brothers\<close> links a process in the list of its parent only after a fork; removing it when it is not linked is \<open>None\<close>.
\<close>

definition remove_process :: "ptr \<Rightarrow> 'a kproc_scheme \<Rightarrow> 'a kproc_scheme option" where
  "remove_process child s = do {
     C \<leftarrow> procs s child;
     P \<leftarrow> procs s (p_parent C);
     if child \<notin> set (children P) \<or> child \<notin> set (processes s) then None
     else do {
       let s = proc_upd (p_parent C) (\<lambda>P. P\<lparr>children := remove1 child (children P)\<rparr>) s;
       let s = s\<lparr>processes := remove1 child (processes s)\<rparr>;
       Some (proc_upd child (\<lambda>C. C\<lparr>pid := - 1\<rparr>) s)
     }
   }"

definition find_child :: "('a kproc_scheme \<Rightarrow> 'a kproc_scheme option) \<Rightarrow> ptr \<Rightarrow> int \<Rightarrow> ptr \<Rightarrow> 'a kproc_scheme
    \<Rightarrow> (int \<times> 'a kproc_scheme) option" where
  "find_child yield p n status s =
     (let child = process_get n s in
      if child = NULL then Some (- ECHILD, s)
      else do {
        C \<leftarrow> procs s child;
        if p_parent C \<noteq> p then Some (- ECHILD, s)
        else do {
          l \<leftarrow> spinlock_lock (plock C);
          let s = proc_upd child (\<lambda>C. C\<lparr>plock := l\<rparr>) s;
          let unlock = proc_upd child (\<lambda>C. C\<lparr>plock := spinlock_unlock l\<rparr>);
          s \<leftarrow> (if p_state C = PROCESS_STATE_ZOMBIE then Some (unlock s)
                else thread_block yield (current s) SCHED_EV_PEXIT n unlock s);
          C \<leftarrow> procs s child;
          let s = (if status \<noteq> NULL then s\<lparr>kbytes := put_word status (word_of_int (exit_state C)) (kbytes s)\<rparr> else s);
          s \<leftarrow> remove_process child s;
          Some (n, s)
        }
      })"

definition process_waitpid :: "('a kproc_scheme \<Rightarrow> 'a kproc_scheme option) \<Rightarrow> ptr \<Rightarrow> int \<Rightarrow> ptr \<Rightarrow> int \<Rightarrow> 'a kproc_scheme
    \<Rightarrow> (int \<times> 'a kproc_scheme) option" where
  "process_waitpid yield p n status options s = find_child yield p n status s"

section \<open>Kernel threads\<close>

definition kthread_initialize :: "process \<Rightarrow> thread \<Rightarrow> 'a kfiles_scheme \<Rightarrow> 'a kfiles_scheme option" where
  "kthread_initialize jp jt s = do {
     (kproc, s) \<leftarrow> process_create jp jt PROCESS_TYPE_KERNEL 0 0 None s;
     if kproc = NULL then None else Some (s\<lparr>kproc_ptr := kproc\<rparr>)
   }"

definition kthread_create :: "thread \<Rightarrow> u32 \<Rightarrow> ptr list option \<Rightarrow> 'a kfiles_scheme \<Rightarrow> (ptr \<times> 'a kfiles_scheme) option" where
  "kthread_create jt code argv s = do {
     (tid, _, s) \<leftarrow> thread_create jt (kproc_ptr s) code argv THREAD_CREATEF_NOSTART_THREAD s;
     if tid < 0 then Some (NULL, s)
     else do {
       (t, s) \<leftarrow> thread_get (kproc_ptr s) tid s;
       if t = NULL then None else Some (t, s)
     }
   }"

section \<open>System calls\<close>

definition sys_usleep :: "('a kproc_scheme \<Rightarrow> 'a kproc_scheme option) \<Rightarrow> u32 \<Rightarrow> regs_ptr \<Rightarrow> 'a kproc_scheme \<Rightarrow> (int \<times> 'a kproc_scheme) option" where
  "sys_usleep yield arg1 regs s = do { s \<leftarrow> thread_sleep yield (current s) arg1 regs s; Some (0, s) }"

definition sys_exit :: "int \<Rightarrow> 'a kirq_scheme \<Rightarrow> (int \<times> 'a kirq_scheme) option" where
  "sys_exit arg1 s = do { th \<leftarrow> threads s (current s); s \<leftarrow> process_exit (th_parent th) arg1 s; Some (0, s) }"

definition sys_fork :: "(fops \<Rightarrow> 'a kfiles_scheme file_operation) \<Rightarrow> process \<Rightarrow> thread \<Rightarrow> irq_regs \<Rightarrow> 'a kfiles_scheme
    \<Rightarrow> (int \<times> 'a kfiles_scheme) option" where
  "sys_fork vt jp jt regs s = do { th \<leftarrow> threads s (current s); process_fork vt jp jt (th_parent th) regs s }"

definition sys_getpid :: "'a kproc_scheme \<Rightarrow> int option" where
  "sys_getpid s = do { th \<leftarrow> threads s (current s); P \<leftarrow> procs s (th_parent th); Some (pid P) }"

definition sys_waitpid :: "('a kproc_scheme \<Rightarrow> 'a kproc_scheme option) \<Rightarrow> int \<Rightarrow> ptr \<Rightarrow> int \<Rightarrow> 'a kproc_scheme \<Rightarrow> (int \<times> 'a kproc_scheme) option" where
  "sys_waitpid yield n status options s = do { th \<leftarrow> threads s (current s); process_waitpid yield (th_parent th) n status options s }"

definition sys_thread_exit :: "'a kirq_scheme \<Rightarrow> (int \<times> 'a kirq_scheme) option" where
  "sys_thread_exit s = do {
     c \<leftarrow> cpu_get cpu_id_get s;
     s \<leftarrow> thread_exit (current s) s;
     s \<leftarrow> scheduler_update None True (sched_upd c (\<lambda>sc. sc\<lparr>sc_time := 1\<rparr>) s);
     Some (0, s)
   }"

definition sys_gettid :: "'a kproc_scheme \<Rightarrow> int option" where
  "sys_gettid s = map_option th_tid (threads s (current s))"

section \<open>Descriptors\<close>

lemma proc_upd_id: "procs s p = Some P \<Longrightarrow> g P = P \<Longrightarrow> proc_upd p g s = s"
  by (simp add: proc_upd_def fun_upd_idem)

lemma proc_upd_twice: "proc_upd p g (proc_upd p h s) = proc_upd p (\<lambda>P. g (h P)) s"
  by (simp add: proc_upd_def option.map_comp comp_def)

lemma proc_upd_cong: "procs s p = Some P \<Longrightarrow> g P = h P \<Longrightarrow> proc_upd p g s = proc_upd p h s"
  by (simp add: proc_upd_def)

lemma get_file_upd:
  assumes "procs s p = Some P" "i < length (files P)"
  shows "get_file (p, i) s = Some (files P ! i)" and "get_file (p, i) (file_upd (p, i) g s) = Some (g (files P ! i))"
  using assms by (simp_all add: get_file_def file_upd_def proc_upd_def)

lemma process_new_fd_eq:
  assumes P: "procs s p = Some P" and l: "\<not> files_lock P"
  shows "process_new_fd p s = (case find (\<lambda>i. \<not> f_used (files P ! i)) [0..<PROCESS_MAX_OPEN_FD] of
    Some i \<Rightarrow> Some (int i, file_upd (p, i) (\<lambda>f. f\<lparr>f_used := True\<rparr>) s) | None \<Rightarrow> Some (- EMFILE, s))"
  using assms
  by (auto simp: process_new_fd_def spinlock_defs file_upd_def proc_upd_twice Let_def split: option.split
      intro!: proc_upd_cong [OF P] proc_upd_id [OF P])

lemma process_free_fd_eq:
  assumes P: "procs s p = Some P" and l: "\<not> files_lock P" and fd: "0 \<le> fd" "fd < int PROCESS_MAX_OPEN_FD"
  shows "process_free_fd p fd s = Some (file_upd (p, nat fd) (\<lambda>f. f\<lparr>f_used := False\<rparr>) s)"
  using assms
  by (auto simp: process_free_fd_def spinlock_defs file_upd_def proc_upd_twice Let_def intro!: proc_upd_cong [OF P])

text \<open>
  C33. File descriptors. A process with a free descriptor gets the smallest one, below 255; only this descriptor changes, to
  used, so that \<^verbatim>\<open>process_file_from_fd\<close> finds its file, and releasing it gives back the state before. Without a free
  descriptor the result is -EMFILE and nothing changes. A descriptor out of range or not in use is refused with -EINVAL
  or -EBADF.
\<close>
theorem process_new_fd_correct:
  assumes P: "procs s p = Some P" and l: "\<not> files_lock P" and n: "length (files P) = PROCESS_MAX_OPEN_FD + 1"
  shows "\<exists>r s'. process_new_fd p s = Some (r, s')
    \<and> (if \<forall>i < PROCESS_MAX_OPEN_FD. f_used (files P ! i) then r = - EMFILE \<and> s' = s
       else 0 \<le> r \<and> r < int PROCESS_MAX_OPEN_FD \<and> \<not> f_used (files P ! nat r) \<and> (\<forall>i < nat r. f_used (files P ! i))
         \<and> s' = file_upd (p, nat r) (\<lambda>f. f\<lparr>f_used := True\<rparr>) s \<and> process_file_from_fd p r s' = Some (0, (p, nat r))
         \<and> process_free_fd p r s' = Some s)
    \<and> (\<forall>fd. process_file_from_fd p fd s = Some (if fd < 0 \<or> fd \<ge> int PROCESS_MAX_OPEN_FD then (- EINVAL, (p, 0))
         else if f_used (files P ! nat fd) then (0, (p, nat fd)) else (- EBADF, (p, 0))))"
proof (cases "find (\<lambda>i. \<not> f_used (files P ! i)) [0..<PROCESS_MAX_OPEN_FD]")
  case None
  with process_new_fd_eq [OF P l] n show ?thesis by (auto simp: find_None_iff process_file_from_fd_def get_file_def P)
next
  case (Some i)
  then have i: "i < PROCESS_MAX_OPEN_FD" "\<not> f_used (files P ! i)" "\<forall>j < i. f_used (files P ! j)"
    by (auto simp: find_Some_iff)
  let ?s = "file_upd (p, i) (\<lambda>f. f\<lparr>f_used := True\<rparr>) s"
  let ?P = "P\<lparr>files := (files P)[i := (files P ! i)\<lparr>f_used := True\<rparr>]\<rparr>"
  have s': "procs ?s p = Some ?P" using P by (simp add: file_upd_def proc_upd_def)
  have "process_free_fd p (int i) ?s = Some (file_upd (p, i) (\<lambda>f. f\<lparr>f_used := False\<rparr>) ?s)"
    using process_free_fd_eq [OF s'] l i(1) by simp
  also have "file_upd (p, i) (\<lambda>f. f\<lparr>f_used := False\<rparr>) ?s = s"
    unfolding file_upd_def fst_conv snd_conv proc_upd_twice using i n by (intro proc_upd_id [OF P]) (simp add: list_update_same_conv)
  finally have "process_free_fd p (int i) ?s = Some s" .
  moreover have "process_file_from_fd p (int i) ?s = Some (0, (p, i))"
    using i(1) n get_file_upd(2) [OF P, of i "\<lambda>f. f\<lparr>f_used := True\<rparr>"] by (simp add: process_file_from_fd_def)
  moreover have "\<not> (\<forall>i < PROCESS_MAX_OPEN_FD. f_used (files P ! i))" using i by auto
  ultimately show ?thesis
    using process_new_fd_eq [OF P l] Some i n by (auto simp: process_file_from_fd_def get_file_def P)
qed


definition fd_example :: kproc where
  "fd_example = kproc_example\<lparr>procs := [0x500 \<mapsto> process_example\<lparr>files := replicate 256 file_zero\<rparr>]\<rparr>"

theorem process_new_fd_correct_witness:
  "\<exists>s'. process_new_fd 0x500 fd_example = Some (0, s') \<and> process_free_fd 0x500 0 s' = Some fd_example
     \<and> process_file_from_fd 0x500 0 s' = Some (0, (0x500, 0))"
proof -
  let ?P = "process_example\<lparr>files := replicate 256 file_zero\<rparr>"
  have P: "procs fd_example 0x500 = Some ?P" "\<not> files_lock ?P" "length (files ?P) = PROCESS_MAX_OPEN_FD + 1"
    by (simp_all add: fd_example_def process_example_def PROCESS_MAX_OPEN_FD_def)
  have u: "\<not> f_used (files ?P ! 0)" by (simp add: file_zero_def)
  have n: "\<not> (\<forall>i < PROCESS_MAX_OPEN_FD. f_used (files ?P ! i))"
    using u by (intro notI) (drule spec [of _ 0], simp add: PROCESS_MAX_OPEN_FD_def)
  obtain r s' where r: "process_new_fd 0x500 fd_example = Some (r, s')" "0 \<le> r" "\<forall>i < nat r. f_used (files ?P ! i)"
    "process_free_fd 0x500 r s' = Some fd_example" "process_file_from_fd 0x500 r s' = Some (0, (0x500, nat r))"
    using process_new_fd_correct [OF P] unfolding if_not_P [OF n] by blast
  have "r = 0"
  proof (rule ccontr)
    assume "r \<noteq> 0"
    with r(2) have "0 < nat r" by simp
    with r(3) u show False by blast
  qed
  with r(1, 4, 5) show ?thesis by simp
qed

section \<open>Reference counts of inodes\<close>

text \<open>The files of a process that a descriptor can name, and how many files of the system name an inode.\<close>

definition slots :: "ptr \<Rightarrow> 'a kproc_scheme \<Rightarrow> vfs_file list" where
  "slots p s = (case procs s p of None \<Rightarrow> [] | Some P \<Rightarrow> take PROCESS_MAX_OPEN_FD (files P))"

definition names :: "ptr \<Rightarrow> vfs_file \<Rightarrow> bool" where
  "names i f \<longleftrightarrow> f_used f \<and> f_inode f = i"

definition refs :: "ptr \<Rightarrow> 'a kproc_scheme \<Rightarrow> nat" where
  "refs i s = (\<Sum>p \<leftarrow> processes s. length (filter (names i) (slots p s)))"

text \<open>Every inode exists exactly as long as files name it, and its count is their number.\<close>

definition ref_inv :: "'a kfiles_scheme \<Rightarrow> bool" where
  "ref_inv s \<longleftrightarrow> distinct (processes s) \<and> inodes s NULL = None
     \<and> (\<forall>i. i \<noteq> NULL \<longrightarrow> (case inodes s i of None \<Rightarrow> refs i s = 0 | Some n \<Rightarrow> i_ref n = int (refs i s) \<and> 0 < refs i s))"

lemma filter_list_update:
  assumes "k < length xs"
  shows "length (filter c (xs[k := v])) + (if c (xs ! k) then 1 else 0) = length (filter c xs) + (if c v then 1 else 0)"
  using assms
proof (induction xs arbitrary: k)
  case (Cons x xs)
  then show ?case by (cases k) auto
qed simp

lemma slots_file_upd:
  assumes "procs s p = Some P" "k < PROCESS_MAX_OPEN_FD" "k < length (files P)"
  shows "slots q (file_upd (p, k) g s) = (if q = p then (slots p s)[k := g (slots p s ! k)] else slots q s)"
  using assms by (auto simp: slots_def file_upd_def proc_upd_def take_update_swap)

lemma refs_file_upd:
  assumes "procs s p = Some P" "k < PROCESS_MAX_OPEN_FD" "k < length (files P)" "distinct (processes s)" "p \<in> set (processes s)"
  shows "refs i (file_upd (p, k) g s) + (if names i (files P ! k) then 1 else 0) = refs i s + (if names i (g (files P ! k)) then 1 else 0)"
proof -
  let ?n = "\<lambda>s q. length (filter (names i) (slots q s))"
  have sl: "slots p s ! k = files P ! k" "k < length (slots p s)" using assms by (simp_all add: slots_def)
  have r: "refs i s = (\<Sum>q \<in> set (processes s). ?n s q)" "refs i (file_upd (p, k) g s) = (\<Sum>q \<in> set (processes s). ?n (file_upd (p, k) g s) q)"
    using assms(4) by (simp_all add: refs_def sum_list_distinct_conv_sum_set file_upd_def proc_upd_def)
  have o: "(\<Sum>q \<in> set (processes s) - {p}. ?n (file_upd (p, k) g s) q) = (\<Sum>q \<in> set (processes s) - {p}. ?n s q)"
    by (rule sum.cong) (simp_all add: slots_file_upd [OF assms(1-3)])
  have "?n (file_upd (p, k) g s) p + (if names i (files P ! k) then 1 else 0) = ?n s p + (if names i (g (files P ! k)) then 1 else 0)"
    using filter_list_update [OF sl(2), of "names i" "g (slots p s ! k)"] sl(1) by (simp add: slots_file_upd [OF assms(1-3)])
  then show ?thesis unfolding r sum.remove [OF finite_set assms(5)] o by simp
qed


lemma refs_cong: "procs s' = procs s \<Longrightarrow> processes s' = processes s \<Longrightarrow> refs i s' = refs i s"
  by (simp add: refs_def slots_def)

lemma ref_inv_cong: "procs s' = procs s \<Longrightarrow> processes s' = processes s \<Longrightarrow> inodes s' = inodes s \<Longrightarrow> ref_inv s' = ref_inv s"
  by (simp add: ref_inv_def refs_cong [of s' s] cong: option.case_cong)

lemma file_upd_simps [simp]:
  "inodes (file_upd r g s) = inodes s" "processes (file_upd r g s) = processes s" "threads (file_upd r g s) = threads s"
  "current (file_upd r g s) = current s" "procs (file_upd r g (s\<lparr>inodes := m\<rparr>)) = procs (file_upd r g s)"
  by (simp_all add: file_upd_def proc_upd_def)

lemma file_upd_twice: "procs (file_upd r g (file_upd r h s)) = procs (file_upd r (\<lambda>f. g (h f)) s)"
proof (cases "procs s (fst r)")
  case (Some P)
  then show ?thesis by (cases "snd r < length (files P)") (simp_all add: file_upd_def proc_upd_def list_update_beyond)
qed (simp add: file_upd_def proc_upd_def)

lemma file_upd_procs: "procs s = procs s' \<Longrightarrow> procs (file_upd r g s) = procs (file_upd r g s')"
  by (simp add: file_upd_def proc_upd_def)

lemma get_file_procs: "procs s' = procs s \<Longrightarrow> get_file r s' = get_file r s"
  by (simp add: get_file_def)

lemma get_file_other: "r \<noteq> r' \<Longrightarrow> get_file r (file_upd r' g s) = get_file r s"
  by (cases r; cases r') (auto simp: get_file_def file_upd_def proc_upd_def split: option.split)

lemma get_file_same: "get_file r (file_upd r g s) = map_option g (get_file r s)"
  by (cases r) (auto simp: get_file_def file_upd_def proc_upd_def split: option.split)

definition add_ref :: "ptr \<Rightarrow> (ptr \<Rightarrow> inode option) \<Rightarrow> ptr \<Rightarrow> inode option" where
  "add_ref i m = (if i = NULL then m else m(i := map_option (\<lambda>n. n\<lparr>i_ref := i_ref n + 1\<rparr>) (m i)))"

lemma inode_del_undoes:
  assumes "inode_del i s = Some s'" "inodes s = add_ref i m" "m i = Some n" "i_ref n \<noteq> 0" "i \<noteq> NULL"
  shows "inodes s' = m" and "procs s' = procs s" and "processes s' = processes s"
  using assms by (auto simp: inode_del_def add_ref_def inode_upd_def Let_def fun_upd_idem split: if_splits elim!: bind_SomeE)

lemma inode_del_Some:
  assumes "inode_del i s = Some s'"
  obtains n where "inodes s i = Some n" "procs s' = procs s" "processes s' = processes s"
    "inodes s' = (inodes s)(i := if i_ref n = 1 then None else Some (n\<lparr>i_ref := i_ref n - 1\<rparr>))"
proof -
  from assms obtain n where n: "inodes s i = Some n" by (auto simp: inode_del_def elim!: bind_SomeE)
  let ?s = "inode_upd i (\<lambda>n. n\<lparr>i_ref := i_ref n - 1\<rparr>) s"
  have s: "inodes ?s = (inodes s)(i \<mapsto> n\<lparr>i_ref := i_ref n - 1\<rparr>)" "procs ?s = procs s" "processes ?s = processes s"
    using n by (simp_all add: inode_upd_def)
  show ?thesis
  proof (cases "i_ref n = 1")
    case True
    with assms n obtain t where t: "kfree i ?s = Some t" "s' = t\<lparr>inodes := (inodes t)(i := None)\<rparr>"
      by (auto simp: inode_del_def Let_def elim!: bind_SomeE)
    obtain h where "t = ?s\<lparr>kmalloc_head := h\<rparr>" using kfree_heap_only [OF t(1)] by (rule heap_onlyE)
    with t(2) s True n show ?thesis by (intro that [of n]) simp_all
  next
    case False
    with assms n s show ?thesis by (intro that [of n]) (simp_all add: inode_del_def Let_def)
  qed
qed

text \<open>Releasing a file: the count goes down with the descriptor.\<close>

lemma release_refs:
  assumes inv: "ref_inv s" and P: "procs s p = Some P" "k < PROCESS_MAX_OPEN_FD" "k < length (files P)" "p \<in> set (processes s)"
    and f: "f_used (files P ! k)" and del: "inode_del (f_inode (files P ! k)) s = Some s1"
  shows "ref_inv (file_upd (p, k) (\<lambda>f. f\<lparr>f_used := False\<rparr>) s1)" (is "ref_inv ?s'")
proof -
  let ?i = "f_inode (files P ! k)"
  obtain n where n: "inodes s ?i = Some n" and fr: "procs s1 = procs s" "processes s1 = processes s"
    and i1: "inodes s1 = (inodes s)(?i := if i_ref n = 1 then None else Some (n\<lparr>i_ref := i_ref n - 1\<rparr>))"
    by (rule inode_del_Some [OF del])
  have d: "distinct (processes s1)" and nul: "inodes s NULL = None" using inv fr by (simp_all add: ref_inv_def)
  have ne: "?i \<noteq> NULL" using n nul by auto
  have P1: "procs s1 p = Some P" "p \<in> set (processes s1)" using P fr by simp_all
  have R: "refs i ?s' + (if i = ?i then 1 else 0) = refs i s" for i
    using refs_file_upd [OF P1(1) P(2, 3) d P1(2), of i "\<lambda>f. f\<lparr>f_used := False\<rparr>"] f refs_cong [OF fr, of i] by (auto simp: names_def)
  have "case inodes ?s' i of None \<Rightarrow> refs i ?s' = 0 | Some n \<Rightarrow> i_ref n = int (refs i ?s') \<and> 0 < refs i ?s'" if "i \<noteq> NULL" for i
  proof -
    have "case inodes s i of None \<Rightarrow> refs i s = 0 | Some n \<Rightarrow> i_ref n = int (refs i s) \<and> 0 < refs i s"
      using inv that by (simp add: ref_inv_def)
    then show ?thesis using R [of i] n i1 by (cases "i = ?i") (auto split: option.splits)
  qed
  moreover have "inodes ?s' NULL = None" using i1 ne nul by simp
  ultimately show ?thesis unfolding ref_inv_def using d by simp
qed

text \<open>What the reference counts need from a table of file operations: duplication touches only the private field of the new file.\<close>

locale file_ops =
  fixes vt :: "fops \<Rightarrow> 'a kfiles_scheme file_operation"
  assumes dup_law: "fo_dup (vt ops) = Some d \<Longrightarrow> d fn fo s = Some (r, s') \<Longrightarrow> inodes s' = inodes s \<and> processes s' = processes s
    \<and> (\<exists>x. procs s' = procs (file_upd fn (\<lambda>f. f\<lparr>f_private := x\<rparr>) s))"
begin

lemma process_dup_file_used:
  assumes ok: "process_dup_file vt fn fo s = Some (r, s')" and F: "get_file fo s = Some F" "f_used F" and ne: "fn \<noteq> fo"
    and nul: "inodes s NULL = None"
  obtains x s2 where "procs s2 = procs (file_upd fn (\<lambda>_. F\<lparr>f_private := x\<rparr>) s)" "processes s2 = processes s"
    "inodes s2 = add_ref (f_inode F) (inodes s)" "f_inode F \<noteq> NULL \<longrightarrow> inodes s (f_inode F) \<noteq> None"
    "if r < 0 then inode_del (f_inode F) s2 = Some s' \<and> f_inode F \<noteq> NULL else r = 0 \<and> s' = s2"
proof -
  let ?s1 = "file_upd fn (\<lambda>f. f\<lparr>f_inode := NULL\<rparr>) (file_upd fn (\<lambda>f. f\<lparr>f_used := True\<rparr>) s)"
  let ?inc = "if f_inode F \<noteq> NULL then do { s \<leftarrow> inode_inc (f_inode F) ?s1; Some (file_upd fn (\<lambda>f. f\<lparr>f_inode := f_inode F\<rparr>) s) } else Some ?s1"
  let ?set = "\<lambda>f. f\<lparr>f_offset := f_offset F, f_ops := f_ops F, f_private := f_private F, f_mount := f_mount F\<rparr>"
  have F1: "get_file fo ?s1 = Some F" using F(1) ne by (simp add: get_file_other)
  note e = ok [unfolded process_dup_file_def Let_def F(1) bind.bind_lunit eqTrueI [OF F(2)] not_True_eq_False if_False F1]
  obtain t where inc: "?inc = Some t" using e by (auto elim!: bind_SomeE)
  have t: "processes t = processes s" "inodes t = add_ref (f_inode F) (inodes s)" "f_inode F \<noteq> NULL \<longrightarrow> inodes s (f_inode F) \<noteq> None"
    "procs t = procs (file_upd fn (\<lambda>f. f\<lparr>f_used := True, f_inode := f_inode F\<rparr>) s)"
    using inc by (auto simp: inode_inc_def inode_upd_def add_ref_def file_upd_twice split: if_splits elim!: bind_SomeE)
  define u where "u = file_upd fn ?set t"
  note e = e [unfolded inc bind.bind_lunit, folded u_def]
  have "(\<lambda>f. ?set (f\<lparr>f_used := True, f_inode := f_inode F\<rparr>)) = (\<lambda>_. F)" using F(2) by (intro ext) simp
  then have u: "procs u = procs (file_upd fn (\<lambda>_. F) s)" "processes u = processes s" "inodes u = add_ref (f_inode F) (inodes s)"
    using file_upd_procs [OF t(4), of fn ?set] t(1, 2) by (simp_all add: u_def file_upd_twice)
  obtain ops where ops: "f_ops F = Some ops" using e by (cases "f_ops F") auto
  note e = e [unfolded ops bind.bind_lunit]
  show ?thesis
  proof (cases "fo_dup (vt ops)")
    case None
    with e have "r = 0" "s' = u" by auto
    with u t(3) show ?thesis by (intro that [of u "f_private F"]) simp_all
  next
    case (Some d)
    note e = e [unfolded Some option.case]
    obtain ret v where d: "d fn fo u = Some (ret, v)" using e by (auto elim!: bind_SomeE)
    note e = e [unfolded d, simplified]
    obtain x where v: "inodes v = inodes u" "processes v = processes u" "procs v = procs (file_upd fn (\<lambda>f. f\<lparr>f_private := x\<rparr>) u)"
      using dup_law [OF Some d] by blast
    have pv: "procs v = procs (file_upd fn (\<lambda>_. F\<lparr>f_private := x\<rparr>) s)"
      using v(3) file_upd_procs [OF u(1), of fn "\<lambda>f. f\<lparr>f_private := x\<rparr>"] by (simp add: file_upd_twice)
    have "inode_del (f_inode F) v = Some s' \<and> f_inode F \<noteq> NULL" "r < 0" if "ret < 0"
    proof -
      from e that obtain f where f: "get_file fn v = Some f" "inode_del (f_inode f) v = Some s'" "r = ret"
        by (auto elim!: bind_SomeE)
      from f(1) pv have "f_inode f = f_inode F"
        by (auto simp: get_file_procs [OF pv] get_file_same)
      moreover have "f_inode f \<noteq> NULL" using f(2) v(1) u(3) nul by (auto simp: inode_del_def add_ref_def \<open>f_inode f = f_inode F\<close>)
      ultimately show "inode_del (f_inode F) v = Some s' \<and> f_inode F \<noteq> NULL" "r < 0" using f that by simp_all
    qed
    moreover have "r = 0" "s' = v" if "\<not> ret < 0" using e that by simp_all
    ultimately show ?thesis
      by (intro that [of v x]) (use pv u(2, 3) v(1, 2) t(3) in \<open>cases "ret < 0"; simp\<close>)+
  qed
qed

lemma process_dup_file_unused:
  assumes "process_dup_file vt fn fo s = Some (r, s')" "get_file fo s = Some F" "\<not> f_used F"
  shows "r = 0" and "s' = file_upd fn (\<lambda>f. f\<lparr>f_used := False\<rparr>) s"
  using assms by (simp_all add: process_dup_file_def Let_def)

lemma process_dup_file_refs:
  assumes ok: "process_dup_file vt (p, k) fo s = Some (r, s')" and F: "get_file fo s = Some F" and ne: "(p, k) \<noteq> fo"
    and P: "procs s p = Some P" "k < PROCESS_MAX_OPEN_FD" "k < length (files P)" "p \<in> set (processes s)"
    and inv: "ref_inv (file_upd (p, k) (\<lambda>f. f\<lparr>f_used := False\<rparr>) s)" (is "ref_inv ?s0")
  shows "if r < 0 then ref_inv (file_upd (p, k) (\<lambda>f. f\<lparr>f_used := False\<rparr>) s') else r = 0 \<and> ref_inv s'"
proof (cases "f_used F")
  case False
  with process_dup_file_unused [OF ok F] inv show ?thesis by simp
next
  case True
  have nul: "inodes s NULL = None" and d: "distinct (processes s)" using inv by (simp_all add: ref_inv_def)
  obtain x s2 where s2: "procs s2 = procs (file_upd (p, k) (\<lambda>_. F\<lparr>f_private := x\<rparr>) s)" "processes s2 = processes s"
    "inodes s2 = add_ref (f_inode F) (inodes s)" "f_inode F \<noteq> NULL \<longrightarrow> inodes s (f_inode F) \<noteq> None"
    "if r < 0 then inode_del (f_inode F) s2 = Some s' \<and> f_inode F \<noteq> NULL else r = 0 \<and> s' = s2"
    by (rule process_dup_file_used [OF ok F True ne nul])
  have P0: "procs ?s0 p = Some (P\<lparr>files := (files P)[k := (files P ! k)\<lparr>f_used := False\<rparr>]\<rparr>)"
    using P(1) by (simp add: file_upd_def proc_upd_def)
  have R: "refs i (file_upd (p, k) (\<lambda>_. f) ?s0) = refs i ?s0 + (if names i f then 1 else 0)" for i f
    using refs_file_upd [OF P0, of k i "\<lambda>_. f"] P(2-4) d by (simp add: names_def)
  show ?thesis
  proof (cases "r < 0")
    case neg: True
    obtain n where n: "inodes s (f_inode F) = Some n" using s2(4, 5) neg by auto
    have "i_ref n \<noteq> 0" using inv n s2(5) neg by (auto simp: ref_inv_def split: option.splits dest!: spec [of _ "f_inode F"])
    from inode_del_undoes [OF _ s2(3) n this] s2(5) neg
    have s': "inodes s' = inodes s" "procs s' = procs s2" "processes s' = processes s2" by auto
    have "procs (file_upd (p, k) (\<lambda>f. f\<lparr>f_used := False\<rparr>) s') = procs (file_upd (p, k) (\<lambda>_. F\<lparr>f_private := x, f_used := False\<rparr>) ?s0)"
      using file_upd_procs [OF s'(2) [unfolded s2(1)], of "(p, k)" "\<lambda>f. f\<lparr>f_used := False\<rparr>"] by (simp add: file_upd_twice)
    then have "refs i (file_upd (p, k) (\<lambda>f. f\<lparr>f_used := False\<rparr>) s') = refs i ?s0" for i
      using refs_cong [of "file_upd (p, k) (\<lambda>f. f\<lparr>f_used := False\<rparr>) s'" "file_upd (p, k) (\<lambda>_. F\<lparr>f_private := x, f_used := False\<rparr>) ?s0" i]
        R [of i "F\<lparr>f_private := x, f_used := False\<rparr>"] s' s2(2) by (simp add: names_def)
    then show ?thesis using inv neg s' s2(2) by (simp add: ref_inv_def cong: option.case_cong)
  next
    case False
    have "procs s' = procs (file_upd (p, k) (\<lambda>_. F\<lparr>f_private := x\<rparr>) ?s0)" using s2(1, 5) False by (simp add: file_upd_twice)
    then have refs: "refs i s' = refs i ?s0 + (if i = f_inode F then 1 else 0)" for i
      using refs_cong [of s' "file_upd (p, k) (\<lambda>_. F\<lparr>f_private := x\<rparr>) ?s0" i] R [of i "F\<lparr>f_private := x\<rparr>"] s2(2, 5) False True
      by (auto simp: names_def)
    have "case inodes s' i of None \<Rightarrow> refs i s' = 0 | Some n \<Rightarrow> i_ref n = int (refs i s') \<and> 0 < refs i s'" if "i \<noteq> NULL" for i
    proof -
      have "case inodes s i of None \<Rightarrow> refs i ?s0 = 0 | Some n \<Rightarrow> i_ref n = int (refs i ?s0) \<and> 0 < refs i ?s0"
        using inv that by (simp add: ref_inv_def)
      then show ?thesis
        using that s2(3-5) False unfolding refs by (cases "i = f_inode F") (auto simp: add_ref_def split: option.splits)
    qed
    moreover have "inodes s' NULL = None" "processes s' = processes s" using False s2(2, 3, 5) nul by (simp_all add: add_ref_def)
    ultimately have "ref_inv s'" unfolding ref_inv_def using d by simp
    then show ?thesis using False s2(5) by simp
  qed
qed

end

end
