(* ===== verification/Channel.thy ===== *)
theory Channel
  imports Process
begin

text \<open>
  Channels, \<^verbatim>\<open>kernel/core/fs/channel.c\<close>: named message queues between a master and its slaves. A message lies in
  the kernel heap, its data after its header; the name of a channel is the first field of its object. Both kinds of endpoint
  have a wait queue, a lock and a list of messages: an endpoint is a \<open>port\<close>. The main results: a port is a queue of byte
  strings, first in, first out, and a read that is too short for a message loses the rest of it.
\<close>

section \<open>Data\<close>

definition CHANNEL_NAME_MAXL :: u32 where "CHANNEL_NAME_MAXL = 20"

definition sizeof_channel_message :: u32 where "sizeof_channel_message = 20"

definition sizeof_channel :: u32 where "sizeof_channel = 76"

definition sizeof_channel_slave :: u32 where "sizeof_channel_slave = 52"

definition sizeof_msg_header :: u32 where "sizeof_msg_header = 4"

record channel_message =
  cm_cid :: u16
  cm_size :: u32
  cm_off :: u32

record channel =
  ch_slave_id :: u16
  ch_proc :: ptr
  ch_wait :: wait_queue
  ch_lock :: bool
  ch_input :: "(ptr \<times> channel_message) list"
  ch_slaves :: "ptr list"

record channel_slave =
  sl_id :: u16
  sl_parent :: ptr
  sl_lock :: bool
  sl_proc :: ptr
  sl_wait :: wait_queue
  sl_input :: "(ptr \<times> channel_message) list"

record kchan = kfiles +
  channels :: "ptr list"
  clock :: bool
  chans :: "ptr \<Rightarrow> channel option"
  slaves :: "ptr \<Rightarrow> channel_slave option"

text \<open>The wait queue, the lock and the list of messages that the reading and writing functions get.\<close>

datatype port = Master ptr | Slave ptr

record port_state =
  po_wait :: wait_queue
  po_lock :: bool
  po_input :: "(ptr \<times> channel_message) list"

fun port_get :: "port \<Rightarrow> 'a kchan_scheme \<Rightarrow> port_state option" where
  "port_get (Master c) s = map_option (\<lambda>C. \<lparr>po_wait = ch_wait C, po_lock = ch_lock C, po_input = ch_input C\<rparr>) (chans s c)"
| "port_get (Slave c) s = map_option (\<lambda>C. \<lparr>po_wait = sl_wait C, po_lock = sl_lock C, po_input = sl_input C\<rparr>) (slaves s c)"

fun port_put :: "port \<Rightarrow> port_state \<Rightarrow> 'a kchan_scheme \<Rightarrow> 'a kchan_scheme" where
  "port_put (Master c) p s = s\<lparr>chans := (chans s)(c := map_option (\<lambda>C. C\<lparr>ch_wait := po_wait p, ch_lock := po_lock p, ch_input := po_input p\<rparr>) (chans s c))\<rparr>"
| "port_put (Slave c) p s = s\<lparr>slaves := (slaves s)(c := map_option (\<lambda>C. C\<lparr>sl_wait := po_wait p, sl_lock := po_lock p, sl_input := po_input p\<rparr>) (slaves s c))\<rparr>"

definition port_queue :: "port \<Rightarrow> 'a kchan_scheme \<Rightarrow> wait_queue option" where
  "port_queue q s = map_option po_wait (port_get q s)"

definition port_set_queue :: "port \<Rightarrow> wait_queue \<Rightarrow> 'a kchan_scheme \<Rightarrow> 'a kchan_scheme" where
  "port_set_queue q w s = (case port_get q s of None \<Rightarrow> s | Some p \<Rightarrow> port_put q (p\<lparr>po_wait := w\<rparr>) s)"

text \<open>\<^verbatim>\<open>!klist_empty(input)\<close>\<close>

definition port_ready :: "port \<Rightarrow> 'a kchan_scheme \<Rightarrow> bool" where
  "port_ready q s \<longleftrightarrow> map_option po_input (port_get q s) \<noteq> Some []"

section \<open>Channels and slaves\<close>

definition channel_lock :: "'a kchan_scheme \<Rightarrow> 'a kchan_scheme option" where
  "channel_lock s = do { l \<leftarrow> spinlock_lock (clock s); Some (s\<lparr>clock := l\<rparr>) }"

definition channel_unlock :: "'a kchan_scheme \<Rightarrow> 'a kchan_scheme" where
  "channel_unlock s = s\<lparr>clock := spinlock_unlock (clock s)\<rparr>"

definition channel_initialize :: "'a kchan_scheme \<Rightarrow> int \<times> 'a kchan_scheme" where
  "channel_initialize s = (0, s\<lparr>channels := [], clock := spinlock_init\<rparr>)"

definition channel_get_slave :: "ptr \<Rightarrow> u16 \<Rightarrow> 'a kchan_scheme \<Rightarrow> ptr option" where
  "channel_get_slave c id' s = do {
     C \<leftarrow> chans s c;
     Some (case find (\<lambda>x. map_option sl_id (slaves s x) = Some id') (ch_slaves C) of Some x \<Rightarrow> x | None \<Rightarrow> NULL)
   }"

text \<open>This function releases the lock when it finds a channel; its callers release it again.\<close>

definition channel_from_name_nolock :: "ptr \<Rightarrow> 'a kchan_scheme \<Rightarrow> ptr \<times> 'a kchan_scheme" where
  "channel_from_name_nolock name s =
     (case find (\<lambda>c. strncmp c name CHANNEL_NAME_MAXL (kbytes s) = 0) (channels s) of
        Some c \<Rightarrow> (c, channel_unlock s) | None \<Rightarrow> (NULL, s))"

definition channel_from_name :: "ptr \<Rightarrow> 'a kchan_scheme \<Rightarrow> (ptr \<times> 'a kchan_scheme) option" where
  "channel_from_name name s = do {
     s \<leftarrow> channel_lock s;
     let (c, s) = channel_from_name_nolock name s;
     Some (c, channel_unlock s)
   }"

section \<open>Messages\<close>

text \<open>
  The loop of \<^verbatim>\<open>channel_read_message\<close> that waits for a message and unlinks it; \<open>yield\<close> is the run of the system
  while the thread is blocked.
\<close>

partial_function (option) channel_take :: "('a kchan_scheme \<Rightarrow> 'a kchan_scheme option) \<Rightarrow> port \<Rightarrow> 'a kchan_scheme
    \<Rightarrow> ((ptr \<times> channel_message) \<times> 'a kchan_scheme) option" where
  "channel_take yield q s = do {
     s \<leftarrow> wait_queue_wait (port_queue q) (port_set_queue q) yield (current s) (port_ready q) s;
     p \<leftarrow> port_get q s;
     _ \<leftarrow> spinlock_lock (po_lock p);
     case po_input p of
       [] \<Rightarrow> channel_take yield q s
     | m # ms \<Rightarrow> Some (m, port_put q (p\<lparr>po_input := ms\<rparr>) s)
   }"

declare channel_take.simps [code]

definition channel_read_message :: "('a kchan_scheme \<Rightarrow> 'a kchan_scheme option) \<Rightarrow> port \<Rightarrow> u32 \<Rightarrow> ptr \<Rightarrow> 'a kchan_scheme
    \<Rightarrow> (int \<times> 'a kchan_scheme) option" where
  "channel_read_message yield q sz buf s = do {
     ((mp, m), s) \<leftarrow> channel_take yield q s;
     let to_read = (if cm_size m - cm_off m < sz then cm_size m - cm_off m else sz);
     let s = s\<lparr>kbytes := snd (memcpy buf (mp + sizeof_channel_message + cm_off m) to_read (kbytes s))\<rparr>;
     s \<leftarrow> (if sz < cm_size m
           then do {
             let m = m\<lparr>cm_off := cm_size m\<rparr>;
             p \<leftarrow> port_get q s;
             _ \<leftarrow> spinlock_lock (po_lock p);
             Some (port_put q (p\<lparr>po_input := (mp, m) # po_input p\<rparr>) s)
           }
           else kfree mp s);
     Some (sint to_read, s)
   }"

definition channel_write_message :: "port \<Rightarrow> u16 \<Rightarrow> u32 \<Rightarrow> ptr \<Rightarrow> 'a kchan_scheme \<Rightarrow> (int \<times> 'a kchan_scheme) option" where
  "channel_write_message q cid sz buf s = do {
     (mp, s) \<leftarrow> kmalloc (sizeof_channel_message + sz) s;
     if mp = NULL then Some (- ENOMEM, s)
     else do {
       let m = \<lparr>cm_cid = cid, cm_size = sz, cm_off = 0\<rparr>;
       let s = s\<lparr>kbytes := snd (memcpy (mp + sizeof_channel_message) buf sz (kbytes s))\<rparr>;
       p \<leftarrow> port_get q s;
       _ \<leftarrow> spinlock_lock (po_lock p);
       let s = port_put q (p\<lparr>po_input := po_input p @ [(mp, m)]\<rparr>) s;
       s \<leftarrow> wait_queue_notify (port_queue q) (port_set_queue q) s;
       Some (sint sz, s)
     }
   }"

section \<open>Operations on endpoints\<close>

definition channel_create :: "ptr \<Rightarrow> fref \<Rightarrow> 'a kchan_scheme \<Rightarrow> (int \<times> ptr \<times> 'a kchan_scheme) option" where
  "channel_create name file s = do {
     (c, s) \<leftarrow> kmalloc sizeof_channel s;
     if c = NULL then Some (- ENOMEM, NULL, s)
     else do {
       s \<leftarrow> channel_lock s;
       if list_ex (\<lambda>d. strncmp d name CHANNEL_NAME_MAXL (kbytes s) = 0) (channels s)
       then do { s \<leftarrow> kfree c (channel_unlock s); Some (- EEXIST, NULL, s) }
       else do {
         let s = channel_unlock (s\<lparr>channels := c # channels s\<rparr>);
         (_, m) \<leftarrow> strncpy c name CHANNEL_NAME_MAXL (kbytes s);
         th \<leftarrow> threads s (current s);
         let C = \<lparr>ch_slave_id = 0, ch_proc = th_parent th, ch_wait = wait_queue_init, ch_lock = spinlock_init, ch_input = [], ch_slaves = []\<rparr>;
         let s = s\<lparr>kbytes := m, chans := (chans s)(c \<mapsto> C)\<rparr>;
         let s = file_upd file (\<lambda>f. f\<lparr>f_inode := NULL, f_private := c, f_ops := Some ChannelMasterFops, f_mount := None\<rparr>) s;
         Some (0, c, s)
       }
     }
   }"

definition channel_master_read :: "('a kchan_scheme \<Rightarrow> 'a kchan_scheme option) \<Rightarrow> ptr \<Rightarrow> ptr \<Rightarrow> u32 \<Rightarrow> 'a kchan_scheme \<Rightarrow> (int \<times> 'a kchan_scheme) option" where
  "channel_master_read yield c buf sz s = channel_read_message yield (Master c) sz buf s"

definition channel_master_write :: "ptr \<Rightarrow> ptr \<Rightarrow> u32 \<Rightarrow> 'a kchan_scheme \<Rightarrow> (int \<times> 'a kchan_scheme) option" where
  "channel_master_write c buf sz s =
     (if sz < sizeof_msg_header then Some (- EINVAL, s)
      else do {
        slave \<leftarrow> channel_get_slave c (get_half (buf + 2) (kbytes s)) s;
        if slave = NULL then Some (- EINVAL, s)
        else do {
          S \<leftarrow> slaves s slave;
          channel_write_message (Slave slave) (sl_id S) (sz - sizeof_msg_header) (buf + sizeof_msg_header) s
        }
      })"

text \<open>Closing releases the messages that were not read.\<close>

definition free_messages :: "(ptr \<times> channel_message) list \<Rightarrow> 'a kchan_scheme \<Rightarrow> 'a kchan_scheme option" where
  "free_messages ms s = for_each (\<lambda>(mp, _) s. kfree mp s) ms s"

definition channel_master_close :: "ptr \<Rightarrow> 'a kchan_scheme \<Rightarrow> (int \<times> 'a kchan_scheme) option" where
  "channel_master_close c s = do {
     s \<leftarrow> channel_lock s;
     C \<leftarrow> chans s c;
     if c \<notin> set (channels s) then None
     else do {
       let s = channel_unlock (s\<lparr>channels := remove1 c (channels s)\<rparr>);
       s \<leftarrow> free_messages (ch_input C) s;
       s \<leftarrow> kfree c s;
       Some (0, s\<lparr>chans := (chans s)(c := None)\<rparr>)
     }
   }"

text \<open>\<open>file\<close> is \<open>None\<close> for a null pointer.\<close>

definition channel_open :: "ptr \<Rightarrow> fref option \<Rightarrow> 'a kchan_scheme \<Rightarrow> (int \<times> ptr \<times> 'a kchan_scheme) option" where
  "channel_open c file s = do {
     (x, s) \<leftarrow> kmalloc sizeof_channel_slave s;
     if x = NULL then Some (- ENOMEM, NULL, s)
     else do {
       s \<leftarrow> channel_lock s;
       C \<leftarrow> chans s c;
       let s = s\<lparr>chans := (chans s)(c \<mapsto> C\<lparr>ch_slaves := x # ch_slaves C, ch_slave_id := ch_slave_id C + 1\<rparr>)\<rparr>;
       let s = channel_unlock s;
       th \<leftarrow> threads s (current s);
       let S = \<lparr>sl_id = ch_slave_id C, sl_parent = c, sl_lock = spinlock_init, sl_proc = th_parent th, sl_wait = wait_queue_init, sl_input = []\<rparr>;
       let s = s\<lparr>slaves := (slaves s)(x \<mapsto> S)\<rparr>;
       let s = (case file of None \<Rightarrow> s | Some r \<Rightarrow> file_upd r (\<lambda>f. f\<lparr>f_private := x, f_ops := Some ChannelSlaveFops, f_mount := None\<rparr>) s);
       Some (0, x, s)
     }
   }"

definition channel_open_from_name :: "ptr \<Rightarrow> fref option \<Rightarrow> 'a kchan_scheme \<Rightarrow> (int \<times> ptr \<times> 'a kchan_scheme) option" where
  "channel_open_from_name name file s = do {
     (x, s) \<leftarrow> kmalloc sizeof_channel_slave s;
     if x = NULL then Some (- ENOMEM, NULL, s)
     else do {
       s \<leftarrow> channel_lock s;
       let (c, s) = channel_from_name_nolock name s;
       if c = NULL
       then do { s \<leftarrow> kfree x (channel_unlock s); Some (- ENOENT, NULL, s) }
       else channel_open c file (channel_unlock s)
     }
   }"

definition channel_slave_read :: "('a kchan_scheme \<Rightarrow> 'a kchan_scheme option) \<Rightarrow> ptr \<Rightarrow> ptr \<Rightarrow> u32 \<Rightarrow> 'a kchan_scheme \<Rightarrow> (int \<times> 'a kchan_scheme) option" where
  "channel_slave_read yield x buf sz s = channel_read_message yield (Slave x) sz buf s"

definition channel_slave_write :: "ptr \<Rightarrow> ptr \<Rightarrow> u32 \<Rightarrow> 'a kchan_scheme \<Rightarrow> (int \<times> 'a kchan_scheme) option" where
  "channel_slave_write x buf sz s = do {
     S \<leftarrow> slaves s x;
     channel_write_message (Master (sl_parent S)) (sl_id S) sz buf s
   }"

definition channel_slave_close :: "ptr \<Rightarrow> 'a kchan_scheme \<Rightarrow> (int \<times> 'a kchan_scheme) option" where
  "channel_slave_close x s = do {
     s \<leftarrow> channel_lock s;
     S \<leftarrow> slaves s x;
     C \<leftarrow> chans s (sl_parent S);
     if x \<notin> set (ch_slaves C) then None
     else do {
       let s = channel_unlock (s\<lparr>chans := (chans s)(sl_parent S \<mapsto> C\<lparr>ch_slaves := remove1 x (ch_slaves C)\<rparr>)\<rparr>);
       s \<leftarrow> free_messages (sl_input S) s;
       s \<leftarrow> kfree x s;
       Some (0, s\<lparr>slaves := (slaves s)(x := None)\<rparr>)
     }
   }"

section \<open>Tables of file operations\<close>

text \<open>Every operation checks first that the file has its table.\<close>

definition checked :: "fops \<Rightarrow> fref \<Rightarrow> (ptr \<Rightarrow> 'a kchan_scheme \<Rightarrow> (int \<times> 'a kchan_scheme) option) \<Rightarrow> 'a kchan_scheme \<Rightarrow> (int \<times> 'a kchan_scheme) option" where
  "checked ops file g s = do {
     f \<leftarrow> get_file file s;
     if f_ops f \<noteq> Some ops then Some (- EBADF, s) else g (f_private f) s
   }"

definition with_req :: "req_rdwr \<Rightarrow> (int \<times> 's) option \<Rightarrow> (int \<times> req_rdwr \<times> 's) option" where
  "with_req req r = map_option (\<lambda>(n, s). (n, req, s)) r"

definition channel_slave_f_ops :: "('a kchan_scheme \<Rightarrow> 'a kchan_scheme option) \<Rightarrow> 'a kchan_scheme file_operation" where
  "channel_slave_f_ops yield = \<lparr>fo_open = None,
     fo_read = Some (\<lambda>file p req buf s. with_req req (checked ChannelSlaveFops file (\<lambda>x. channel_slave_read yield x buf (rw_size req)) s)),
     fo_write = Some (\<lambda>file p req buf s. with_req req (checked ChannelSlaveFops file (\<lambda>x. channel_slave_write x buf (rw_size req)) s)),
     fo_ioctl = None, fo_dup = None,
     fo_close = Some (\<lambda>file ino. checked ChannelSlaveFops file channel_slave_close)\<rparr>"

definition channel_master_f_ops :: "('a kchan_scheme \<Rightarrow> 'a kchan_scheme option) \<Rightarrow> 'a kchan_scheme file_operation" where
  "channel_master_f_ops yield = \<lparr>fo_open = None,
     fo_read = Some (\<lambda>file p req buf s. with_req req (checked ChannelMasterFops file (\<lambda>c. channel_master_read yield c buf (rw_size req)) s)),
     fo_write = Some (\<lambda>file p req buf s. with_req req (checked ChannelMasterFops file (\<lambda>c. channel_master_write c buf (rw_size req)) s)),
     fo_ioctl = None, fo_dup = None,
     fo_close = Some (\<lambda>file ino. checked ChannelMasterFops file channel_master_close)\<rparr>"

section \<open>Ports are queues\<close>

lemma port_get_put: "port_get q s \<noteq> None \<Longrightarrow> port_get q (port_put q p s) = Some p"
  by (cases q) auto

lemma port_put_heap [simp]:
  "kmalloc_head (port_put q p s) = kmalloc_head s" "kmalloc_lock (port_put q p s) = kmalloc_lock s" "kbytes (port_put q p s) = kbytes s"
  by (cases q; simp)+

lemma port_get_frame [simp]:
  "port_get q (s\<lparr>kmalloc_head := h\<rparr>) = port_get q s" "port_get q (s\<lparr>kbytes := m\<rparr>) = port_get q s"
  "port_get q (s\<lparr>threads := t\<rparr>) = port_get q s" "port_get q (s\<lparr>cpus := c\<rparr>) = port_get q s"
  by (cases q; simp)+

text \<open>Heap facts in terms of the three fields that they depend on.\<close>

definition same_heap :: "'a kheap_scheme \<Rightarrow> 'a kheap_scheme \<Rightarrow> bool" where
  "same_heap s s' \<longleftrightarrow> kmalloc_head s' = kmalloc_head s \<and> kmalloc_lock s' = kmalloc_lock s"

lemma same_heap_facts:
  assumes "same_heap s s'"
  shows "heap_inv a b s' = heap_inv a b s" and "live s' = live s" and "area s' = area s"
  using assms by (simp_all add: same_heap_def heap_inv_def live_def area_def fun_eq_iff)

lemma live_area_in_heap:
  assumes "heap_inv a b s" "p \<in> live s"
  shows "area s p \<subseteq> {a..<b}"
proof -
  from assms(2) obtain x k where x: "(x, k) \<in> set (kmalloc_head s)" "p = blk_ptr k" unfolding live_def by (rule live_ofE)
  have "chain a (kmalloc_head s) b" using assms(1) by (simp add: heap_inv_def)
  from chain_bounds [OF this x(1)] area_block [OF assms(1) x(1)] x(2) show ?thesis by auto
qed

definition holds_message :: "'a kheap_scheme \<Rightarrow> ptr \<times> channel_message \<Rightarrow> u8 list \<Rightarrow> bool" where
  "holds_message s x w \<longleftrightarrow> fst x \<in> live s \<and> cm_off (snd x) = 0 \<and> unat (cm_size (snd x)) = length w
     \<and> 20 + length w \<le> card (area s (fst x)) \<and> holds (kbytes s) (fst x + sizeof_channel_message) w"

text \<open>The port is free and its messages are the byte strings \<open>ws\<close>, in this order.\<close>

definition queued :: "port \<Rightarrow> u8 list list \<Rightarrow> 'a kchan_scheme \<Rightarrow> bool" where
  "queued q ws s \<longleftrightarrow> (\<exists>p. port_get q s = Some p \<and> \<not> po_lock p \<and> \<not> wq_lock (po_wait p) \<and> distinct (map fst (po_input p))
     \<and> list_all2 (holds_message s) (po_input p) ws)"

definition outside :: "nat \<Rightarrow> nat \<Rightarrow> ptr \<Rightarrow> nat \<Rightarrow> bool" where
  "outside a b buf n \<longleftrightarrow> (\<forall>j < n. unat (buf + of_nat j) \<notin> {a..<b})"

lemma message_addr:
  assumes inv: "heap_inv a b s" and mp: "mp \<in> live s" and n: "20 + n \<le> card (area s mp)" and j: "j < n"
  shows "unat (mp + sizeof_channel_message + of_nat j) \<in> area s mp" and "unat (mp + sizeof_channel_message + of_nat j) \<in> {a..<b}"
proof -
  obtain k :: kmalloc_blk where k: "area s mp = {unat mp ..< unat mp + unat (blk_size k)}" "unat mp + unat (blk_size k) < 2 ^ 32"
    by (rule area_live [OF inv mp])
  have e: "mp + sizeof_channel_message + of_nat j = mp + of_nat (20 + j)" by (simp add: sizeof_channel_message_def)
  have "unat (mp + of_nat (20 + j)) = unat mp + (20 + j)" using k n j by (intro unat_add_of_nat [of mp "20 + n"]) auto
  then show "unat (mp + sizeof_channel_message + of_nat j) \<in> area s mp" unfolding e using k n j by simp
  then show "unat (mp + sizeof_channel_message + of_nat j) \<in> {a..<b}" using live_area_in_heap [OF inv mp] by blast
qed

lemma holds_message_frame:
  assumes inv: "heap_inv a b s" and h: "holds_message s x w" and live: "fst x \<in> live s'" "area s' (fst x) = area s (fst x)"
    and bytes: "\<And>y. unat y \<in> area s (fst x) \<Longrightarrow> kbytes s' y = kbytes s y"
  shows "holds_message s' x w"
proof -
  have "kbytes s' (fst x + sizeof_channel_message + of_nat j) = kbytes s (fst x + sizeof_channel_message + of_nat j)" if "j < length w" for j
    using message_addr(1) [OF inv _ _ that, of "fst x"] h bytes by (simp add: holds_message_def)
  with h live show ?thesis by (simp add: holds_message_def holds_def)
qed

lemma apart_outside:
  assumes inv: "heap_inv a b s" and mp: "mp \<in> live s" and n: "20 + n \<le> card (area s mp)" and out: "outside a b buf n"
  shows "apart (mp + sizeof_channel_message) n buf n" and "apart buf n (mp + sizeof_channel_message) n"
proof -
  have "mp + sizeof_channel_message + of_nat i \<noteq> buf + of_nat j" if "i < n" "j < n" for i j
    using message_addr(2) [OF inv mp n that(1)] out that(2) by (metis outside_def)
  then show "apart (mp + sizeof_channel_message) n buf n" "apart buf n (mp + sizeof_channel_message) n"
    unfolding apart_def by metis+
qed

lemma scheduler_add_thread_fields: "scheduler_add_thread i t s = Some s' \<Longrightarrow> s' = s\<lparr>cpus := cpus s'\<rparr>"
  unfolding scheduler_add_thread_def sched_lock_acquire_def sched_lock_release_def sched_upd_def
  by (auto simp: Let_def split: if_splits elim!: bind_SomeE)

lemma cpu_add_thread_fields:
  assumes "cpu_add_thread t s = Some s'"
  shows "s' = s\<lparr>threads := threads s', cpus := cpus s'\<rparr>"
proof -
  obtain i f where "scheduler_add_thread i t (thread_upd t f s) = Some s'"
    using assms by (auto simp: cpu_add_thread_def Let_def split: if_splits)
  from scheduler_add_thread_fields [OF this] obtain T C where "s' = s\<lparr>threads := T, cpus := C\<rparr>" by (auto simp: thread_upd_def)
  then show ?thesis by simp
qed

lemma notify_frame:
  assumes ok: "wait_queue_notify (port_queue q) (port_set_queue q) s = Some s'" and p: "port_get q s = Some p"
  shows "same_heap s s' \<and> kbytes s' = kbytes s \<and> (\<exists>w. port_get q s' = Some (p\<lparr>po_wait := w\<rparr>) \<and> wq_lock w = wq_lock (po_wait p))"
proof (cases "wq_threads (po_wait p)")
  case Nil
  then have "s' = s" using ok p by (auto simp: wait_queue_notify_def port_queue_def elim!: bind_SomeE)
  with p show ?thesis by (auto simp: same_heap_def intro: exI [of _ "po_wait p"])
next
  case (Cons t ts)
  let ?s = "thread_upd t (\<lambda>th. th\<lparr>th_state := THREAD_STATE_RUNNING\<rparr>) s"
  from ok p Cons obtain s1 where s1: "cpu_add_thread t ?s = Some s1" and s': "port_queue q s1 = Some w \<Longrightarrow> s' = port_set_queue q (w\<lparr>wq_threads := ts\<rparr>) s1" for w
    by (auto simp: wait_queue_notify_def port_queue_def elim!: bind_SomeE)
  have e: "s1 = s\<lparr>threads := threads s1, cpus := cpus s1\<rparr>"
    using cpu_add_thread_fields [OF s1] by (simp add: thread_upd_def)
  have g: "port_get q s1 = Some p" using p by (subst e) simp
  have h: "kmalloc_head s1 = kmalloc_head s" "kmalloc_lock s1 = kmalloc_lock s" "kbytes s1 = kbytes s" by (subst e, simp)+
  have "s' = port_put q (p\<lparr>po_wait := (po_wait p)\<lparr>wq_threads := ts\<rparr>\<rparr>) s1" using s' g by (simp add: port_queue_def port_set_queue_def)
  with g h show ?thesis by (auto simp: same_heap_def port_get_put intro: exI [of _ "(po_wait p)\<lparr>wq_threads := ts\<rparr>"])
qed


lemma write_message_queues:
  assumes inv: "heap_inv a b s" and q: "queued q ws s" and sz: "unat sz + 20 < 2 ^ 32"
    and src: "holds (kbytes s) buf w" "length w = unat sz" "outside a b buf (unat sz)"
    and ok: "channel_write_message q cid sz buf s = Some (r, s')"
  shows "heap_inv a b s' \<and> queued q (ws @ [w]) s' \<and> r = sint sz \<and> (\<forall>x. unat x \<notin> {a..<b} \<longrightarrow> kbytes s' x = kbytes s x)"
proof -
  from q obtain p where p: "port_get q s = Some p" "\<not> po_lock p" "\<not> wq_lock (po_wait p)" "distinct (map fst (po_input p))"
    "list_all2 (holds_message s) (po_input p) ws" by (auto simp: queued_def)
  from ok obtain mp s1 where k: "kmalloc (sizeof_channel_message + sz) s = Some (mp, s1)"
    by (auto simp: channel_write_message_def elim!: bind_SomeE)
  note ki = kmalloc_inv [OF inv k] and ar = area_kmalloc [OF inv k]
  obtain h where h: "s1 = s\<lparr>kmalloc_head := h\<rparr>" using kmalloc_frame [OF k] by blast
  have "unat (sizeof_channel_message + sz) = 20 + unat sz" using sz by (simp add: sizeof_channel_message_def unat_word_ariths)
  with ar(3) have n: "20 + unat sz \<le> card (area s1 mp)" by simp
  have lv: "mp \<in> live s1" using ki(3) by simp
  note ap = apart_outside(1) [OF ki(1) lv n src(3)]
  define m where "m = \<lparr>cm_cid = cid, cm_size = sz, cm_off = 0\<rparr>"
  define s2 where "s2 = s1\<lparr>kbytes := snd (memcpy (mp + sizeof_channel_message) buf sz (kbytes s1))\<rparr>"
  define s3 where "s3 = port_put q (p\<lparr>po_input := po_input p @ [(mp, m)]\<rparr>) s2"
  have g2: "port_get q s2 = Some p" "port_get q s1 = Some p" using p(1) by (simp_all add: s2_def h)
  have g3: "port_get q s3 = Some (p\<lparr>po_input := po_input p @ [(mp, m)]\<rparr>)" using g2 by (simp add: s3_def port_get_put)
  have nt: "wait_queue_notify (port_queue q) (port_set_queue q) s3 = Some s'" and r: "r = sint sz"
    using ok k ki(4) g2 p(2) unfolding channel_write_message_def
    by (auto simp: Let_def spinlock_defs s3_def simp flip: s2_def m_def elim!: bind_SomeE)
  from notify_frame [OF nt g3] obtain v where s': "same_heap s3 s'" "kbytes s' = kbytes s3"
    "port_get q s' = Some (p\<lparr>po_input := po_input p @ [(mp, m)], po_wait := v\<rparr>)" "wq_lock v = wq_lock (po_wait p)" by auto
  have sh: "same_heap s1 s'" using s'(1) by (simp add: same_heap_def s2_def s3_def)
  have kb: "kbytes s' = snd (memcpy (mp + sizeof_channel_message) buf sz (kbytes s))" using s'(2) by (simp add: s3_def s2_def h)
  have other: "kbytes s' x = kbytes s x" if "unat x \<notin> area s1 mp" for x
    unfolding kb using that message_addr(1) [OF ki(1) lv n] by (intro memcpy_bytes(2) [OF ap]) metis
  have "kbytes s' (mp + sizeof_channel_message + of_nat j) = w ! j" if "j < length w" for j
    unfolding kb using that src(1, 2) memcpy_bytes(1) [OF ap, of j] by (simp add: holds_def)
  then have new: "holds_message s' (mp, m) w"
    using lv n src(2) same_heap_facts(2, 3) [OF sh] by (simp add: holds_message_def holds_def m_def)
  have old: "holds_message s' x w'" if h: "holds_message s x w'" for x w'
  proof (rule holds_message_frame [OF inv h])
    have x: "fst x \<in> live s" using h by (simp add: holds_message_def)
    then show "fst x \<in> live s'" "area s' (fst x) = area s (fst x)" using ki(3) ar(1) same_heap_facts(2, 3) [OF sh] by simp_all
    have "area s (fst x) \<inter> area s1 mp = {}"
      using live_areas_disjoint [OF ki(1), of "fst x" mp] x ki(2, 3) ar(1) [OF x] by auto
    then show "kbytes s' y = kbytes s y" if "unat y \<in> area s (fst x)" for y using other that by blast
  qed
  have "mp \<notin> fst ` set (po_input p)"
  proof
    assume "mp \<in> fst ` set (po_input p)"
    then obtain x where x: "x \<in> set (po_input p)" "mp = fst x" by auto
    then obtain w' where "holds_message s x w'" using p(5) by (auto simp: list_all2_conv_all_nth in_set_conv_nth)
    then show False using ki(2) x by (simp add: holds_message_def)
  qed
  moreover have "list_all2 (holds_message s') (po_input p) ws" by (rule list_all2_mono [OF p(5) old])
  ultimately have "queued q (ws @ [w]) s'"
    unfolding queued_def using s'(3, 4) p(2-4) new by (simp add: list_all2_appendI)
  moreover have "heap_inv a b s'" using ki(1) same_heap_facts(1) [OF sh] by simp
  ultimately show ?thesis using r other ar(2) by blast
qed


lemma channel_take_ready:
  assumes "port_get q s = Some p" "\<not> po_lock p" "\<not> wq_lock (po_wait p)" "po_input p = m # ms"
  shows "channel_take yield q s = Some (m, port_put q (p\<lparr>po_input := ms\<rparr>) s)"
proof -
  have "wait_queue_wait (port_queue q) (port_set_queue q) yield (current s) (port_ready q) s = Some s"
    using assms by (subst wait_queue_wait.simps) (simp add: port_queue_def port_ready_def spinlock_defs)
  with assms show ?thesis by (subst channel_take.simps) (simp add: spinlock_defs)
qed

lemma read_message_dequeues:
  assumes inv: "heap_inv a b s" and q: "queued q (w # ws) s" and sz: "length w \<le> unat sz" and out: "outside a b buf (length w)"
  shows "\<exists>s'. channel_read_message yield q sz buf s = Some (sint (of_nat (length w) :: u32), s') \<and> heap_inv a b s' \<and> queued q ws s'
    \<and> holds (kbytes s') buf w \<and> (\<forall>x. (\<forall>j < length w. x \<noteq> buf + of_nat j) \<longrightarrow> kbytes s' x = kbytes s x)"
proof -
  from q obtain p x xs where p: "port_get q s = Some p" "\<not> po_lock p" "\<not> wq_lock (po_wait p)" "distinct (map fst (po_input p))"
    "po_input p = x # xs" and w: "holds_message s x w" "list_all2 (holds_message s) xs ws"
    by (auto simp: queued_def list_all2_Cons2)
  obtain mp m where x: "x = (mp, m)" by (cases x)
  have m: "cm_off m = 0" "unat (cm_size m) = length w" "20 + length w \<le> card (area s mp)" "holds (kbytes s) (mp + sizeof_channel_message) w"
    and lv: "mp \<in> live s" using w(1) x by (simp_all add: holds_message_def)
  note ap = apart_outside(2) [OF inv lv m(3) out]
  define s1 where "s1 = port_put q (p\<lparr>po_input := xs\<rparr>) s"
  define s2 where "s2 = s1\<lparr>kbytes := snd (memcpy buf (mp + sizeof_channel_message) (cm_size m) (kbytes s1))\<rparr>"
  have sh: "same_heap s s2" by (simp add: same_heap_def s1_def s2_def)
  have inv2: "heap_inv a b s2" and lv2: "mp \<in> live s2" using inv lv same_heap_facts [OF sh] by simp_all
  obtain s' where f: "kfree mp s2 = Some s'" "heap_inv a b s'" "live s' = live s2 - {mp}" using kfree_inv [OF inv2 lv2] by blast
  obtain h where h: "s' = s2\<lparr>kmalloc_head := h\<rparr>" using kfree_frame [OF f(1)] by blast
  have rd: "(if cm_size m - cm_off m < sz then cm_size m - cm_off m else sz) = cm_size m" "\<not> sz < cm_size m"
    using sz m(1, 2) by (auto simp: word_less_nat_alt intro: unsigned_word_eqI [where ?'a = nat])
  have e: "of_nat (length w) = cm_size m" using m(2) by (simp flip: m(2))
  have "channel_read_message yield q sz buf s = Some (sint (cm_size m), s')"
    unfolding channel_read_message_def channel_take_ready [OF p(1-3, 5)]
    using rd f(1) m(1) by (simp add: x Let_def flip: s1_def s2_def)
  moreover have kb: "kbytes s' = snd (memcpy buf (mp + sizeof_channel_message) (cm_size m) (kbytes s))" by (simp add: h s2_def s1_def)
  have frame: "kbytes s' y = kbytes s y" if "\<forall>j < length w. y \<noteq> buf + of_nat j" for y
    unfolding kb using that m(2) by (intro memcpy_bytes(2)) (simp_all add: ap)
  moreover have "holds (kbytes s') buf w"
    unfolding holds_def kb using memcpy_bytes(1) [of buf "cm_size m" "mp + sizeof_channel_message"] ap m(2, 4) by (simp add: holds_def)
  moreover have "queued q ws s'"
  proof -
    have "port_get q s' = Some (p\<lparr>po_input := xs\<rparr>)" using p(1) by (simp add: h s2_def s1_def port_get_put)
    moreover have "holds_message s' y v" if y: "y \<in> set xs" and hm: "holds_message s y v" for y v
    proof (rule holds_message_frame [OF inv hm])
      have l: "fst y \<in> live s" using hm by (simp add: holds_message_def)
      have "fst y \<noteq> mp" using p(4, 5) x y by auto
      then show l': "fst y \<in> live s'" using l f(3) same_heap_facts(2) [OF sh] by simp
      show "area s' (fst y) = area s (fst y)" using area_kfree [OF inv2 lv2 f(1) l'] same_heap_facts(3) [OF sh] by simp
      show "kbytes s' z = kbytes s z" if "unat z \<in> area s (fst y)" for z
      proof (rule frame, intro allI impI notI)
        fix j assume j: "j < length w" "z = buf + of_nat j"
        then show False using out that live_area_in_heap [OF inv l] unfolding outside_def by blast
      qed
    qed
    then have "list_all2 (holds_message s') xs ws" using w(2) by (simp add: list_all2_conv_all_nth)
    ultimately show ?thesis using p(2-5) by (simp add: queued_def)
  qed
  ultimately show ?thesis unfolding e using f(2) by (intro exI [of _ s']) simp
qed


lemma write_message_returns:
  fixes s :: "'a kchan_scheme"
  assumes "queued q ws s" "port_get q s = Some p" "wq_threads (po_wait p) = []" "kmalloc (sizeof_channel_message + sz) s \<noteq> None"
  shows "\<exists>r s'. channel_write_message q cid sz buf s = Some (r, s')"
proof -
  from assms(4) obtain mp s1 where k: "kmalloc (sizeof_channel_message + sz) s = Some (mp, s1)" by auto
  obtain h where h: "s1 = s\<lparr>kmalloc_head := h\<rparr>" using kmalloc_frame [OF k] by blast
  have l: "\<not> po_lock p" "\<not> wq_lock (po_wait p)" using assms(1, 2) by (auto simp: queued_def)
  have "wait_queue_notify (port_queue q) (port_set_queue q) (port_put q (p\<lparr>po_input := i\<rparr>) t) = Some (port_put q (p\<lparr>po_input := i\<rparr>) t)"
    if "port_get q t = Some p" for t :: "'a kchan_scheme" and i
    using that assms(3) l by (simp add: wait_queue_notify_def port_queue_def spinlock_defs port_get_put)
  then show ?thesis
    using assms(2) k h l by (cases "mp = NULL") (auto simp: channel_write_message_def Let_def spinlock_defs)
qed

text \<open>
  C4. A port is a queue of byte strings, first in, first out. In an intact heap let the messages of the port be \<open>ws\<close>. Writing the
  bytes \<open>w\<close> of a buffer outside the heap appends \<open>w\<close>, returns its size and changes no byte outside the heap; it returns
  whenever the heap has room and no thread waits. If \<open>ws\<close> starts with \<open>w\<close>, reading with a large enough buffer outside the heap
  always returns the size of \<open>w\<close>, puts \<open>w\<close> into the buffer, removes it from the queue, releases its memory and changes no other
  byte.
\<close>
theorem channel_is_fifo:
  assumes inv: "heap_inv a b s" and q: "queued q ws s"
  shows "(\<forall>w (sz :: u32) buf cid r s'. channel_write_message q cid sz buf s = Some (r, s') \<longrightarrow> length w = unat sz \<longrightarrow> length w + 20 < 2 ^ 32
           \<longrightarrow> holds (kbytes s) buf w \<longrightarrow> outside a b buf (length w)
           \<longrightarrow> heap_inv a b s' \<and> queued q (ws @ [w]) s' \<and> r = sint sz \<and> (\<forall>x. unat x \<notin> {a..<b} \<longrightarrow> kbytes s' x = kbytes s x))
    \<and> (\<forall>sz buf cid. (\<exists>p. port_get q s = Some p \<and> wq_threads (po_wait p) = []) \<longrightarrow> kmalloc (sizeof_channel_message + sz) s \<noteq> None
           \<longrightarrow> (\<exists>r s'. channel_write_message q cid sz buf s = Some (r, s')))
    \<and> (\<forall>w vs (sz :: u32) buf yield. ws = w # vs \<longrightarrow> length w \<le> unat sz \<longrightarrow> outside a b buf (length w)
           \<longrightarrow> (\<exists>s'. channel_read_message yield q sz buf s = Some (sint (of_nat (length w) :: u32), s') \<and> heap_inv a b s' \<and> queued q vs s'
             \<and> holds (kbytes s') buf w \<and> (\<forall>x. (\<forall>j < length w. x \<noteq> buf + of_nat j) \<longrightarrow> kbytes s' x = kbytes s x)))"
proof (intro conjI allI impI)
  fix w and sz :: u32 and buf cid r s'
  assume "channel_write_message q cid sz buf s = Some (r, s')" "length w = unat sz" "length w + 20 < 2 ^ 32"
    "holds (kbytes s) buf w" "outside a b buf (length w)"
  with write_message_queues [OF inv q, of sz buf w cid r s']
  show "heap_inv a b s'" "queued q (ws @ [w]) s'" "r = sint sz" "unat x \<notin> {a..<b} \<Longrightarrow> kbytes s' x = kbytes s x" for x by simp_all
next
  fix sz :: u32 and buf cid
  assume "\<exists>p. port_get q s = Some p \<and> wq_threads (po_wait p) = []" "kmalloc (sizeof_channel_message + sz) s \<noteq> None"
  with write_message_returns [OF q] show "\<exists>r s'. channel_write_message q cid sz buf s = Some (r, s')" by blast
next
  fix w vs and sz :: u32 and buf yield
  assume "ws = w # vs" "length w \<le> unat sz" "outside a b buf (length w)"
  with read_message_dequeues [OF inv, of q w vs sz buf yield] q
  show "\<exists>s'. channel_read_message yield q sz buf s = Some (sint (of_nat (length w) :: u32), s') \<and> heap_inv a b s' \<and> queued q vs s'
     \<and> holds (kbytes s') buf w \<and> (\<forall>x. (\<forall>j < length w. x \<noteq> buf + of_nat j) \<longrightarrow> kbytes s' x = kbytes s x)" by simp
qed


lemma port_put_put: "port_put q p (port_put q p' s) = port_put q p s"
  by (cases q) (simp_all add: option.map_comp comp_def)

lemma port_put_same: "port_get q s = Some p \<Longrightarrow> port_put q p s = s"
  by (cases q) (auto simp: fun_upd_idem)

lemma memcpy_0 [simp]: "memcpy d p 0 m = (d, m)"
  by (simp add: memcpy_def)

lemma port_put_kbytes: "port_put q p (s\<lparr>kbytes := m\<rparr>) = (port_put q p s)\<lparr>kbytes := m\<rparr>"
  by (cases q) simp_all

text \<open>A message that a short read has put back: reading it again gives nothing.\<close>

lemma read_rest:
  assumes p: "port_get q s = Some p" "\<not> po_lock p" "\<not> wq_lock (po_wait p)" "po_input p = (mp, m) # ms"
    and m: "cm_off m = cm_size m" "sz < cm_size m"
  shows "channel_read_message yield q sz buf s = Some (0, s)"
proof -
  let ?s = "port_put q (p\<lparr>po_input := ms\<rparr>) s"
  have z: "(if cm_size m - cm_off m < sz then cm_size m - cm_off m else sz) = 0" using m by (simp add: word_less_nat_alt unat_gt_0)
  have "m\<lparr>cm_off := cm_size m\<rparr> = m" using m(1) by simp
  moreover have "p\<lparr>po_input := (mp, m) # ms\<rparr> = p" using p(4) by simp
  ultimately show ?thesis
    unfolding channel_read_message_def channel_take_ready [OF p] using m(2) p(1, 2) z
    by (simp add: Let_def port_get_put spinlock_defs port_put_put port_put_same)
qed

text \<open>
  C37. A read that is too short loses the rest of the message. It returns as many bytes as asked for, the first ones of the
  message; after it, however, every read that is again shorter than the message returns 0 and changes nothing: the
  rest is never delivered and the messages behind it are not reached.
\<close>
theorem channel_short_read:
  assumes inv: "heap_inv a b s" and q: "queued q (w # ws) s" and sz: "unat sz < length w" and out: "outside a b buf (unat sz)"
  shows "\<exists>s1. channel_read_message yield q sz buf s = Some (sint sz, s1) \<and> holds (kbytes s1) buf (take (unat sz) w)
    \<and> (\<forall>yield' sz' buf'. unat sz' < length w \<longrightarrow> channel_read_message yield' q sz' buf' s1 = Some (0, s1))"
proof -
  from q obtain p x xs where p: "port_get q s = Some p" "\<not> po_lock p" "\<not> wq_lock (po_wait p)" "po_input p = x # xs"
    and w: "holds_message s x w" by (auto simp: queued_def list_all2_Cons2)
  obtain mp m where x: "x = (mp, m)" by (cases x)
  have m: "cm_off m = 0" "unat (cm_size m) = length w" "20 + unat sz \<le> card (area s mp)" "holds (kbytes s) (mp + sizeof_channel_message) w"
    and lv: "mp \<in> live s" using w x sz by (simp_all add: holds_message_def)
  note ap = apart_outside(2) [OF inv lv m(3) out]
  let ?m = "m\<lparr>cm_off := cm_size m\<rparr>"
  define kb where "kb = snd (memcpy buf (mp + sizeof_channel_message) sz (kbytes s))"
  define s1 where "s1 = (port_put q (p\<lparr>po_input := (mp, ?m) # xs\<rparr>) s)\<lparr>kbytes := kb\<rparr>"
  have lt: "sz < cm_size m" using sz m(2) by (simp add: word_less_nat_alt)
  have rd: "(if cm_size m - cm_off m < sz then cm_size m - cm_off m else sz) = sz" using less_not_sym [OF lt] m(1) by simp
  have z: "mp + sizeof_channel_message + cm_off m = mp + sizeof_channel_message" using m(1) by simp
  let ?t = "(port_put q (p\<lparr>po_input := xs\<rparr>) s)\<lparr>kbytes := kb\<rparr>"
  have g: "port_get q ?t = Some (p\<lparr>po_input := xs\<rparr>)" using p(1) by (simp add: port_get_put)
  have pp: "port_put q (p\<lparr>po_input := (mp, ?m) # xs\<rparr>) ?t = s1" by (simp add: port_put_kbytes port_put_put s1_def)
  have "channel_read_message yield q sz buf s = Some (sint sz, s1)"
    unfolding channel_read_message_def channel_take_ready [OF p] x bind.bind_lunit prod.case Let_def rd z port_put_heap
    using lt p(2) g pp by (simp add: spinlock_defs flip: kb_def)
  moreover have "holds (kbytes s1) buf (take (unat sz) w)"
    unfolding holds_def s1_def kb_def using memcpy_bytes(1) [OF ap] m(4) sz by (simp add: holds_def)
  moreover have "port_get q s1 = Some (p\<lparr>po_input := (mp, ?m) # xs\<rparr>)" using p(1) by (simp add: s1_def port_get_put)
  then have "channel_read_message yield' q sz' buf' s1 = Some (0, s1)" if "unat sz' < length w" for yield' sz' buf'
    using that p(2, 3) m(2) by (intro read_rest [where p = "p\<lparr>po_input := (mp, ?m) # xs\<rparr>" and m = ?m]) (simp_all add: word_less_nat_alt)
  ultimately show ?thesis by blast
qed


text \<open>A channel with one message of two bytes for the witnesses.\<close>

definition chan_example :: kchan where
  "chan_example = (kfiles.extend (kirq.extend kirq_example (kfiles.fields Map.empty 0)) (kchan.fields [0x1014] False
     [0x1014 \<mapsto> \<lparr>ch_slave_id = 0, ch_proc = 0x500, ch_wait = wait_queue_init, ch_lock = False,
        ch_input = [(0x1074, \<lparr>cm_cid = 0, cm_size = 2, cm_off = 0\<rparr>)], ch_slaves = []\<rparr>] Map.empty))\<lparr>
     kmalloc_head := [(0x1000, \<lparr>blk_ptr = 0x1014, blk_size = 76, blk_free = False\<rparr>),
                      (0x1060, \<lparr>blk_ptr = 0x1074, blk_size = 24, blk_free = False\<rparr>),
                      (0x108C, \<lparr>blk_ptr = 0x10A0, blk_size = 0xF60, blk_free = True\<rparr>)],
     kmalloc_lock := False, kbytes := (\<lambda>_. 0)(0x1088 := 7, 0x1089 := 8)\<rparr>"

lemma chan_example_inv: "heap_inv 0x1000 0x2000 chan_example" "queued (Master 0x1014) [[7, 8]] chan_example"
proof -
  show "heap_inv 0x1000 0x2000 chan_example" by (simp add: heap_inv_def chan_example_def sizeof_blk_def)
  have "live chan_example = {0x1014, 0x1074}" by (auto simp: live_def chan_example_def)
  then have "holds_message chan_example (0x1074, \<lparr>cm_cid = 0, cm_size = 2, cm_off = 0\<rparr>) [7, 8]"
    by (auto simp: holds_message_def less_Suc_eq holds_def area_def sizeof_blk_def sizeof_channel_message_def)
       (simp_all add: chan_example_def)
  then show "queued (Master 0x1014) [[7, 8]] chan_example"
    by (simp add: queued_def) (simp add: chan_example_def kfiles.defs kirq.defs kchan.defs wait_queue_init_def spinlock_defs)
qed

lemma outside_example: "n \<le> 8 \<Longrightarrow> outside 0x1000 0x2000 0x3000 n"
proof -
  assume "n \<le> 8"
  then have "unat (0x3000 + of_nat j :: u32) = 0x3000 + j" if "j < n" for j
    using that unat_add_of_nat [of "0x3000" n j] by simp
  then show ?thesis by (simp add: outside_def)
qed

theorem channel_is_fifo_witness:
  "\<exists>s'. channel_read_message (\<lambda>_. None) (Master 0x1014) 8 0x3000 chan_example = Some (2, s')
     \<and> holds (kbytes s') 0x3000 [7, 8] \<and> queued (Master 0x1014) [] s'"
proof -
  have "length [7, 8 :: u8] \<le> unat (8 :: u32)" "outside 0x1000 0x2000 0x3000 (length [7, 8 :: u8])" by (simp_all add: outside_example)
  then have "\<exists>s'. channel_read_message (\<lambda>_. None) (Master 0x1014) 8 0x3000 chan_example = Some (sint (of_nat (length [7, 8 :: u8]) :: u32), s')
      \<and> heap_inv 0x1000 0x2000 s' \<and> queued (Master 0x1014) [] s' \<and> holds (kbytes s') 0x3000 [7, 8]
      \<and> (\<forall>x. (\<forall>j < length [7, 8 :: u8]. x \<noteq> 0x3000 + of_nat j) \<longrightarrow> kbytes s' x = kbytes chan_example x)"
    using channel_is_fifo [OF chan_example_inv] by blast
  then show ?thesis by auto
qed

theorem channel_short_read_witness:
  "\<exists>s1. channel_read_message (\<lambda>_. None) (Master 0x1014) 1 0x3000 chan_example = Some (1, s1) \<and> holds (kbytes s1) 0x3000 [7]
     \<and> channel_read_message (\<lambda>_. None) (Master 0x1014) 1 0x3000 s1 = Some (0, s1)"
proof -
  have "unat (1 :: u32) < length [7, 8 :: u8]" "outside 0x1000 0x2000 0x3000 (unat (1 :: u32))" by (simp_all add: outside_example)
  from channel_short_read [OF chan_example_inv this, of "\<lambda>_. None"] this(1) show ?thesis by auto
qed

end
