(* ===== verification/Device.thy ===== *)
theory Device
  imports Channel
begin

unbundle bit_operations_syntax

text \<open>
  Virtual devices, \<^verbatim>\<open>kernel/core/fs/vfs/device.c\<close>: a table of 255 entries in the static memory of the kernel, in which a
  device has a name of at most 14 characters. The names are bytes of memory; the other fields are a record. The
  main result: the table is a map from identifiers to names, and the operations are those of the map; a longer
  name is cut when it is stored but not when it is compared.
\<close>

section \<open>The table\<close>

definition VFS_MAX_DEVICE :: nat where "VFS_MAX_DEVICE = 255"

definition VFS_DEV_MAX_NAMEL :: u32 where "VFS_DEV_MAX_NAMEL = 15"

definition VFS_OPS_OPEN :: u32 where "VFS_OPS_OPEN = 1"

definition VFS_OPS_CLOSE :: u32 where "VFS_OPS_CLOSE = 8"

record device =
  d_active :: bool
  d_id :: int
  d_pid :: int
  d_ops :: u32
  d_fops :: "fops option"
  d_private :: ptr

text \<open>\<open>devices_addr\<close> is the address of the static array \<^verbatim>\<open>devices\<close>; the name is the first field of an entry of 40 bytes.\<close>

record kdevs = kchan +
  devices :: "device list"
  device_lock :: bool
  devices_addr :: ptr

definition dev_name :: "'a kdevs_scheme \<Rightarrow> nat \<Rightarrow> ptr" where
  "dev_name s i = devices_addr s + of_nat (40 * i)"

definition dev_upd :: "nat \<Rightarrow> (device \<Rightarrow> device) \<Rightarrow> 'a kdevs_scheme \<Rightarrow> 'a kdevs_scheme" where
  "dev_upd i g s = s\<lparr>devices := (devices s)[i := g (devices s ! i)]\<rparr>"

text \<open>The loop of \<^verbatim>\<open>find_free_device\<close> over the remaining entries; \<open>n\<close> is the free entry found so far.\<close>

fun find_free_loop :: "nat list \<Rightarrow> int \<Rightarrow> ptr \<Rightarrow> 'a kdevs_scheme \<Rightarrow> int option" where
  "find_free_loop [] n name s = Some (if n = - 1 then - EBUSY else n)"
| "find_free_loop (i # is) n name s =
     (let n' = (if n = - 1 \<and> \<not> d_active (devices s ! i) then int i else n) in
      if d_active (devices s ! i)
      then do { r \<leftarrow> strcmp (dev_name s i) name (kbytes s); if r = 0 then Some (- EEXIST) else find_free_loop is n' name s }
      else find_free_loop is n' name s)"

definition find_free_device :: "ptr \<Rightarrow> 'a kdevs_scheme \<Rightarrow> int option" where
  "find_free_device name s = find_free_loop [0..<VFS_MAX_DEVICE] (- 1) name s"

definition device_create :: "int \<Rightarrow> ptr \<Rightarrow> u32 \<Rightarrow> fops option \<Rightarrow> ptr \<Rightarrow> 'a kdevs_scheme \<Rightarrow> (int \<times> 'a kdevs_scheme) option" where
  "device_create p name ops fo private s =
     (if ops AND VFS_OPS_OPEN = 0 \<or> ops AND VFS_OPS_CLOSE = 0 then Some (- EINVAL, s)
      else do {
        l \<leftarrow> spinlock_lock (device_lock s);
        let s = s\<lparr>device_lock := l\<rparr>;
        dev_id \<leftarrow> find_free_device name s;
        if dev_id < 0 then Some (dev_id, s\<lparr>device_lock := spinlock_unlock l\<rparr>)
        else do {
          let s = dev_upd (nat dev_id) (\<lambda>d. d\<lparr>d_active := True\<rparr>) s;
          (_, m) \<leftarrow> strncpy (dev_name s (nat dev_id)) name VFS_DEV_MAX_NAMEL (kbytes s);
          let s = s\<lparr>kbytes := m, device_lock := spinlock_unlock l\<rparr>;
          Some (dev_id, dev_upd (nat dev_id) (\<lambda>d. d\<lparr>d_id := dev_id, d_pid := p, d_ops := ops, d_fops := fo, d_private := private\<rparr>) s)
        }
      })"

definition vfs_device_create :: "ptr \<Rightarrow> int \<Rightarrow> int \<Rightarrow> u32 \<Rightarrow> fops option \<Rightarrow> ptr \<Rightarrow> 'a kdevs_scheme \<Rightarrow> (int \<times> 'a kdevs_scheme) option" where
  "vfs_device_create name p perm ops fo private s = device_create p name ops fo private s"

text \<open>A pointer to an entry is its index, the null pointer is \<open>None\<close>.\<close>

definition device_get :: "int \<Rightarrow> 'a kdevs_scheme \<Rightarrow> nat option" where
  "device_get dev s = (if dev < 0 \<or> dev \<ge> int VFS_MAX_DEVICE then None
     else if \<not> d_active (devices s ! nat dev) then None else Some (nat dev))"

fun get_from_name_loop :: "nat list \<Rightarrow> ptr \<Rightarrow> 'a kdevs_scheme \<Rightarrow> int option" where
  "get_from_name_loop [] name s = Some (- ENODEV)"
| "get_from_name_loop (i # is) name s =
     (if \<not> d_active (devices s ! i) then get_from_name_loop is name s
      else do {
        r \<leftarrow> strcmp (dev_name s i) name (kbytes s);
        if r = 0 then Some (d_id (devices s ! i)) else get_from_name_loop is name s
      })"

definition device_get_from_name :: "ptr \<Rightarrow> 'a kdevs_scheme \<Rightarrow> int option" where
  "device_get_from_name name s = get_from_name_loop [0..<VFS_MAX_DEVICE] name s"

fun get_from_index_loop :: "nat list \<Rightarrow> int \<Rightarrow> 'a kdevs_scheme \<Rightarrow> nat option" where
  "get_from_index_loop [] index s = None"
| "get_from_index_loop (i # is) index s =
     (if d_active (devices s ! i) then if index = 0 then Some i else get_from_index_loop is (index - 1) s
      else get_from_index_loop is index s)"

definition device_get_from_index :: "int \<Rightarrow> 'a kdevs_scheme \<Rightarrow> (nat option \<times> 'a kdevs_scheme) option" where
  "device_get_from_index index s =
     (if index < 0 \<or> index > int VFS_MAX_DEVICE then Some (None, s)
      else do {
        l \<leftarrow> spinlock_lock (device_lock s);
        Some (get_from_index_loop [0..<VFS_MAX_DEVICE] index s, s\<lparr>device_lock := spinlock_unlock l\<rparr>)
      })"

fun device_exists_loop :: "nat list \<Rightarrow> ptr \<Rightarrow> 'a kdevs_scheme \<Rightarrow> int option" where
  "device_exists_loop [] name s = Some 0"
| "device_exists_loop (i # is) name s =
     (if d_active (devices s ! i)
      then do { r \<leftarrow> strcmp (dev_name s i) name (kbytes s); if r = 0 then Some 1 else device_exists_loop is name s }
      else device_exists_loop is name s)"

definition device_exists :: "ptr \<Rightarrow> 'a kdevs_scheme \<Rightarrow> int option" where
  "device_exists name s = device_exists_loop [0..<VFS_MAX_DEVICE] name s"

definition device_destroy :: "int \<Rightarrow> int \<Rightarrow> 'a kdevs_scheme \<Rightarrow> (int \<times> 'a kdevs_scheme) option" where
  "device_destroy p dev s =
     (if dev < 0 \<or> dev \<ge> int VFS_MAX_DEVICE then Some (- EINVAL, s)
      else if \<not> d_active (devices s ! nat dev) then Some (- ENODEV, s)
      else if d_pid (devices s ! nat dev) \<noteq> p then Some (- EINVAL, s)
      else do {
        l \<leftarrow> spinlock_lock (device_lock s);
        let s = s\<lparr>device_lock := l\<rparr>;
        let s = dev_upd (nat dev) (\<lambda>d. d\<lparr>d_active := False\<rparr>) s;
        Some (0, s\<lparr>device_lock := spinlock_unlock l\<rparr>)
      })"

section \<open>The table as a map\<close>

text \<open>The string that starts a block of \<open>n\<close> bytes.\<close>

definition str_in :: "mem \<Rightarrow> ptr \<Rightarrow> nat \<Rightarrow> u8 list" where
  "str_in m p n = takeWhile (\<lambda>c. c \<noteq> 0) (bytes_at m p n)"

lemma cstr_str_in: "0 \<in> set (bytes_at m p n) \<Longrightarrow> cstr m p (str_in m p n)"
  by (induction n arbitrary: p) (auto simp: str_in_def)

lemma str_in_cstr: "cstr m p w \<Longrightarrow> length w < n \<Longrightarrow> str_in m p n = w \<and> 0 \<in> set (bytes_at m p n)"
proof (induction w arbitrary: p n)
  case Nil
  then show ?case by (cases n) (simp_all add: str_in_def)
next
  case (Cons c cs)
  then obtain k where n: "n = Suc k" by (cases n) auto
  with Cons.IH [of "p + 1" k] Cons.prems show ?case by (simp add: str_in_def)
qed

definition registry :: "'a kdevs_scheme \<Rightarrow> nat \<Rightarrow> u8 list option" where
  "registry s i = (if i < VFS_MAX_DEVICE \<and> d_active (devices s ! i) then Some (str_in (kbytes s) (dev_name s i) 15) else None)"

text \<open>The table does not wrap around, and every active entry has its index as identifier and a name that ends.\<close>

definition dev_inv :: "'a kdevs_scheme \<Rightarrow> bool" where
  "dev_inv s \<longleftrightarrow> length (devices s) = VFS_MAX_DEVICE \<and> \<not> device_lock s \<and> unat (devices_addr s) + 40 * VFS_MAX_DEVICE \<le> 2 ^ 32
     \<and> (\<forall>i < VFS_MAX_DEVICE. d_active (devices s ! i) \<longrightarrow> d_id (devices s ! i) = int i \<and> 0 \<in> set (bytes_at (kbytes s) (dev_name s i) 15))"

lemma registry_cstr:
  assumes "dev_inv s" "i < VFS_MAX_DEVICE" "d_active (devices s ! i)"
  obtains w where "cstr (kbytes s) (dev_name s i) w" "registry s i = Some w" "d_id (devices s ! i) = int i"
proof -
  have "0 \<in> set (bytes_at (kbytes s) (dev_name s i) 15)" "d_id (devices s ! i) = int i" using assms by (simp_all add: dev_inv_def)
  with cstr_str_in [OF this(1)] assms show ?thesis by (intro that) (simp_all add: registry_def)
qed

lemma registry_strcmp:
  assumes "dev_inv s" "i < VFS_MAX_DEVICE" "d_active (devices s ! i)" "cstr (kbytes s) name w"
  shows "\<exists>r. strcmp (dev_name s i) name (kbytes s) = Some r \<and> (r = 0 \<longleftrightarrow> registry s i = Some w)"
proof -
  obtain v where "cstr (kbytes s) (dev_name s i) v" "registry s i = Some v" by (rule registry_cstr [OF assms(1-3)])
  with strcmp_cstr [OF this(1) assms(4)] show ?thesis by simp
qed

lemma registry_inactive: "\<not> d_active (devices s ! i) \<Longrightarrow> registry s i = None"
  by (simp add: registry_def)

lemma registry_active: "i < VFS_MAX_DEVICE \<Longrightarrow> d_active (devices s ! i) \<longleftrightarrow> registry s i \<noteq> None"
  by (simp add: registry_def)

lemma get_from_name_loop_eq:
  assumes "dev_inv s" "cstr (kbytes s) name w" "\<forall>i \<in> set is. i < VFS_MAX_DEVICE"
  shows "get_from_name_loop is name s = Some (case find (\<lambda>i. registry s i = Some w) is of Some i \<Rightarrow> int i | None \<Rightarrow> - ENODEV)"
  using assms(3)
proof (induction "is")
  case (Cons i "is")
  show ?case
  proof (cases "d_active (devices s ! i)")
    case True
    with registry_strcmp [OF assms(1) _ True assms(2)] Cons assms(1) show ?thesis by (auto simp: dev_inv_def)
  qed (use Cons in \<open>simp add: registry_inactive\<close>)
qed simp

lemma device_exists_loop_eq:
  assumes "dev_inv s" "cstr (kbytes s) name w" "\<forall>i \<in> set is. i < VFS_MAX_DEVICE"
  shows "device_exists_loop is name s = Some (if \<exists>i \<in> set is. registry s i = Some w then 1 else 0)"
  using assms(3)
proof (induction "is")
  case (Cons i "is")
  show ?case
  proof (cases "d_active (devices s ! i)")
    case True
    with registry_strcmp [OF assms(1) _ True assms(2)] Cons show ?thesis by auto
  qed (use Cons in \<open>simp add: registry_inactive\<close>)
qed simp

lemma find_free_loop_eq:
  assumes "dev_inv s" "cstr (kbytes s) name w" "\<forall>i \<in> set is. i < VFS_MAX_DEVICE"
  shows "find_free_loop is n name s = Some (if \<exists>i \<in> set is. registry s i = Some w then - EEXIST else if n \<noteq> - 1 then n
           else case find (\<lambda>i. registry s i = None) is of Some i \<Rightarrow> int i | None \<Rightarrow> - EBUSY)"
  using assms(3)
proof (induction "is" arbitrary: n)
  case (Cons i "is")
  show ?case
  proof (cases "d_active (devices s ! i)")
    case True
    with registry_strcmp [OF assms(1) _ True assms(2)] Cons registry_active [of i s] show ?thesis by auto
  qed (use Cons in \<open>auto simp: registry_inactive Let_def\<close>)
qed simp

section \<open>Creating and destroying\<close>

lemma dev_name_unat:
  assumes "dev_inv s" "i < VFS_MAX_DEVICE" "j < 40"
  shows "unat (dev_name s i + of_nat j) = unat (devices_addr s) + 40 * i + j"
proof -
  have "dev_name s i + of_nat j = devices_addr s + of_nat (40 * i + j)" by (simp add: dev_name_def)
  then show ?thesis using assms unat_add_of_nat [of "devices_addr s" "40 * VFS_MAX_DEVICE" "40 * i + j"]
    by (simp add: dev_inv_def VFS_MAX_DEVICE_def add.assoc)
qed

lemma bytes_at_cong: "(\<And>j. j < n \<Longrightarrow> m' (p + of_nat j) = m (p + of_nat j)) \<Longrightarrow> bytes_at m' p n = bytes_at m p n"
  by (intro nth_equalityI) (simp_all add: nth_bytes_at)

text \<open>Storing a name in one entry leaves the names in the others.\<close>

lemma other_name:
  assumes "dev_inv s" "i < VFS_MAX_DEVICE" "k < VFS_MAX_DEVICE" "k \<noteq> i" "length v \<le> 15"
  shows "bytes_at (write_bytes (dev_name s i) v (kbytes s)) (dev_name s k) 15 = bytes_at (kbytes s) (dev_name s k) 15"
proof (intro bytes_at_cong write_bytes_other allI impI notI)
  fix j l assume jl: "j < 15" "l < length v" "dev_name s k + of_nat j = dev_name s i + of_nat l"
  then have "unat (devices_addr s) + 40 * k + j = unat (devices_addr s) + 40 * i + l"
    using dev_name_unat [OF assms(1, 3), of j] dev_name_unat [OF assms(1, 2), of l] assms(5) by simp
  moreover have "j < 40" "l < 40" using jl(1, 2) assms(5) by simp_all
  ultimately show False using assms(4) by presburger
qed

lemma dev_upd_simps [simp]:
  "kbytes (dev_upd i g s) = kbytes s" "device_lock (dev_upd i g s) = device_lock s" "devices_addr (dev_upd i g s) = devices_addr s"
  "dev_name (dev_upd i g s) = dev_name s" "devices (dev_upd i g s) = (devices s)[i := g (devices s ! i)]"
  by (simp_all add: dev_upd_def dev_name_def fun_eq_iff)

lemma dev_name_simps [simp]:
  "dev_name (s\<lparr>kbytes := m\<rparr>) = dev_name s" "dev_name (s\<lparr>device_lock := l\<rparr>) = dev_name s" "dev_name (s\<lparr>devices := d\<rparr>) = dev_name s"
  by (simp_all add: dev_name_def fun_eq_iff)

text \<open>What \<^verbatim>\<open>device_create\<close> leaves when it has stored the name in the entry \<open>i\<close>.\<close>

definition entry_set :: "nat \<Rightarrow> u8 list \<Rightarrow> device \<Rightarrow> 'a kdevs_scheme \<Rightarrow> 'a kdevs_scheme" where
  "entry_set i v d s = s\<lparr>kbytes := write_bytes (dev_name s i) (v @ [0]) (kbytes s), devices := (devices s)[i := d]\<rparr>"

lemma entry_set_inv:
  assumes inv: "dev_inv s" and i: "i < VFS_MAX_DEVICE" and v: "length v \<le> 14" "0 \<notin> set v" and d: "d_active d" "d_id d = int i"
  shows "dev_inv (entry_set i v d s)" and "registry (entry_set i v d s) = (registry s)(i \<mapsto> v)"
proof -
  let ?m = "write_bytes (dev_name s i) (v @ [0]) (kbytes s)"
  have l: "length (devices s) = VFS_MAX_DEVICE" using inv by (simp add: dev_inv_def)
  have "cstr ?m (dev_name s i) v" using v by (intro cstr_write_bytes) simp_all
  from str_in_cstr [OF this, of 15] v have s: "str_in ?m (dev_name s i) 15 = v" "0 \<in> set (bytes_at ?m (dev_name s i) 15)" by simp_all
  have o: "bytes_at ?m (dev_name s k) 15 = bytes_at (kbytes s) (dev_name s k) 15" if "k < VFS_MAX_DEVICE" "k \<noteq> i" for k
    using other_name [OF inv i that] v by simp
  have n: "dev_name (entry_set i v d s) = dev_name s" by (simp add: entry_set_def)
  show "dev_inv (entry_set i v d s)"
    using inv s(2) o l i d unfolding dev_inv_def n by (auto simp: entry_set_def nth_list_update)
  show "registry (entry_set i v d s) = (registry s)(i \<mapsto> v)"
    using s(1) o l i d by (intro ext) (auto simp: registry_def n entry_set_def nth_list_update str_in_def)
qed

lemma find_free_loop_lock [simp]: "find_free_loop is n name (s\<lparr>device_lock := l\<rparr>) = find_free_loop is n name s"
  by (induction "is" arbitrary: n) (simp_all add: Let_def cong: if_cong)

lemma device_create_stores:
  assumes inv: "dev_inv s" and name: "cstr (kbytes s) name w" and ap: "apart (devices_addr s) (40 * VFS_MAX_DEVICE + length w) name (Suc (length w))"
    and ops: "ops AND VFS_OPS_OPEN \<noteq> 0" "ops AND VFS_OPS_CLOSE \<noteq> 0" and i: "i < VFS_MAX_DEVICE" "find_free_device name s = Some (int i)"
  shows "device_create p name ops fo private s
    = Some (int i, entry_set i (take 14 w) \<lparr>d_active = True, d_id = int i, d_pid = p, d_ops = ops, d_fops = fo, d_private = private\<rparr> s)"
proof -
  have l: "\<not> device_lock s" using inv by (simp add: dev_inv_def)
  have "apart (dev_name s i) (Suc (length w)) name (Suc (length w))"
    using ap i(1) by (auto simp: apart_def dev_name_def algebra_simps simp flip: of_nat_add of_nat_mult dest!: spec [of _ "40 * i + _"])
  from strncpy_cstr [OF name this, of VFS_DEV_MAX_NAMEL]
  have cpy: "strncpy (dev_name s i) name VFS_DEV_MAX_NAMEL (kbytes s) = Some (dev_name s i, write_bytes (dev_name s i) (take 14 w @ [0]) (kbytes s))"
    by (simp add: VFS_DEV_MAX_NAMEL_def)
  have e: "(devices s ! i)\<lparr>d_active := True, d_id := int i, d_pid := p, d_ops := ops, d_fops := fo, d_private := private\<rparr>
      = \<lparr>d_active = True, d_id = int i, d_pid = p, d_ops = ops, d_fops = fo, d_private = private\<rparr>"
    by (rule device.equality) simp_all
  have "device_create p name ops fo private s
      = Some (int i, (entry_set i (take 14 w) ((devices s ! i)\<lparr>d_active := True, d_id := int i, d_pid := p, d_ops := ops, d_fops := fo, d_private := private\<rparr>) s)\<lparr>device_lock := False\<rparr>)"
    using l ops i cpy inv
    by (simp add: device_create_def find_free_device_def Let_def entry_set_def dev_upd_def spinlock_defs dev_inv_def)
  with l show ?thesis unfolding e by (simp add: entry_set_def)
qed

lemma registry_ran: "(\<exists>i \<in> set [0..<VFS_MAX_DEVICE]. registry s i = Some w) \<longleftrightarrow> w \<in> ran (registry s)"
proof -
  have "i < VFS_MAX_DEVICE" if "registry s i = Some w" for i using that by (simp add: registry_def split: if_splits)
  then show ?thesis unfolding ran_def by auto
qed

lemma find_free_device_eq:
  assumes "dev_inv s" "cstr (kbytes s) name w"
  shows "find_free_device name s = Some (if w \<in> ran (registry s) then - EEXIST
           else case find (\<lambda>i. registry s i = None) [0..<VFS_MAX_DEVICE] of Some i \<Rightarrow> int i | None \<Rightarrow> - EBUSY)"
  unfolding find_free_device_def registry_ran [symmetric] using find_free_loop_eq [OF assms, of "[0..<VFS_MAX_DEVICE]" "- 1"] by simp

lemma device_create_fails:
  assumes "dev_inv s" "ops AND VFS_OPS_OPEN \<noteq> 0" "ops AND VFS_OPS_CLOSE \<noteq> 0" "find_free_device name s = Some r" "r < 0"
  shows "device_create p name ops fo private s = Some (r, s)"
proof -
  have "\<not> device_lock s" using assms(1) by (simp add: dev_inv_def)
  then show ?thesis using assms(2-5) by (simp add: device_create_def find_free_device_def Let_def spinlock_defs)
qed

lemma device_destroy_eq:
  assumes inv: "dev_inv s" and i: "i < VFS_MAX_DEVICE" "d_active (devices s ! i)" "d_pid (devices s ! i) = p"
  shows "\<exists>s'. device_destroy p (int i) s = Some (0, s') \<and> dev_inv s' \<and> registry s' = (registry s)(i := None)"
proof -
  let ?s = "s\<lparr>devices := (devices s)[i := (devices s ! i)\<lparr>d_active := False\<rparr>]\<rparr>"
  have l: "\<not> device_lock s" "length (devices s) = VFS_MAX_DEVICE" using inv by (simp_all add: dev_inv_def)
  have "device_destroy p (int i) s = Some (0, ?s)" using i l by (simp add: device_destroy_def dev_upd_def Let_def spinlock_defs)
  moreover have "dev_inv ?s" using inv i(1) by (auto simp: dev_inv_def nth_list_update)
  moreover have "registry ?s = (registry s)(i := None)" using i(1) l by (intro ext) (auto simp: registry_def nth_list_update)
  ultimately show ?thesis by blast
qed

text \<open>What creating and destroying do to the map.\<close>

definition create_spec :: "int \<Rightarrow> u8 list \<Rightarrow> u32 \<Rightarrow> fops option \<Rightarrow> ptr \<Rightarrow> 'a kdevs_scheme \<Rightarrow> int \<Rightarrow> 'a kdevs_scheme \<Rightarrow> bool" where
  "create_spec p w ops fo private s r s' \<longleftrightarrow>
     (if ops AND VFS_OPS_OPEN = 0 \<or> ops AND VFS_OPS_CLOSE = 0 then r = - EINVAL \<and> s' = s
      else if w \<in> ran (registry s) then r = - EEXIST \<and> s' = s
      else case find (\<lambda>i. registry s i = None) [0..<VFS_MAX_DEVICE] of
          None \<Rightarrow> r = - EBUSY \<and> s' = s
        | Some i \<Rightarrow> r = int i \<and> device_get r s' = Some i \<and> registry s' = (registry s)(i \<mapsto> take 14 w)
            \<and> devices s' ! i = \<lparr>d_active = True, d_id = r, d_pid = p, d_ops = ops, d_fops = fo, d_private = private\<rparr>)"

definition destroy_spec :: "int \<Rightarrow> int \<Rightarrow> 'a kdevs_scheme \<Rightarrow> int \<Rightarrow> 'a kdevs_scheme \<Rightarrow> bool" where
  "destroy_spec p dev s r s' \<longleftrightarrow>
     (case device_get dev s of
        None \<Rightarrow> r = (if dev < 0 \<or> dev \<ge> int VFS_MAX_DEVICE then - EINVAL else - ENODEV) \<and> s' = s
      | Some i \<Rightarrow> if d_pid (devices s ! i) = p then r = 0 \<and> registry s' = (registry s)(i := None) else r = - EINVAL \<and> s' = s)"

lemma device_create_spec:
  assumes inv: "dev_inv s" and name: "cstr (kbytes s) name w"
    and ap: "apart (devices_addr s) (40 * VFS_MAX_DEVICE + length w) name (Suc (length w))"
  shows "\<exists>r s'. device_create p name ops fo private s = Some (r, s') \<and> dev_inv s' \<and> create_spec p w ops fo private s r s'"
proof -
  let ?d = "\<lambda>i. \<lparr>d_active = True, d_id = int i, d_pid = p, d_ops = ops, d_fops = fo, d_private = private\<rparr>"
  note free = find_free_device_eq [OF inv name]
  have w: "length (take 14 w) \<le> 14" "0 \<notin> set (take 14 w)" using cstr_no_nul [OF name] by (auto dest: in_set_takeD)
  consider (ops) "ops AND VFS_OPS_OPEN = 0 \<or> ops AND VFS_OPS_CLOSE = 0"
    | (exists) "ops AND VFS_OPS_OPEN \<noteq> 0" "ops AND VFS_OPS_CLOSE \<noteq> 0" "w \<in> ran (registry s)"
    | (full) "ops AND VFS_OPS_OPEN \<noteq> 0" "ops AND VFS_OPS_CLOSE \<noteq> 0" "w \<notin> ran (registry s)"
        "find (\<lambda>i. registry s i = None) [0..<VFS_MAX_DEVICE] = None"
    | (free) i where "ops AND VFS_OPS_OPEN \<noteq> 0" "ops AND VFS_OPS_CLOSE \<noteq> 0" "w \<notin> ran (registry s)"
        "find (\<lambda>i. registry s i = None) [0..<VFS_MAX_DEVICE] = Some i" by blast
  then show ?thesis
  proof cases
    case ops
    then have "device_create p name ops fo private s = Some (- EINVAL, s)" by (simp add: device_create_def)
    moreover have "create_spec p w ops fo private s (- EINVAL) s" using ops by (simp add: create_spec_def)
    ultimately show ?thesis using inv by blast
  next
    case exists
    then have "device_create p name ops fo private s = Some (- EEXIST, s)"
      using free by (intro device_create_fails [OF inv]) (simp_all add: EEXIST_def)
    moreover have "create_spec p w ops fo private s (- EEXIST) s" using exists by (simp add: create_spec_def)
    ultimately show ?thesis using inv by blast
  next
    case full
    then have "device_create p name ops fo private s = Some (- EBUSY, s)"
      using free by (intro device_create_fails [OF inv]) (simp_all add: EBUSY_def)
    moreover have "create_spec p w ops fo private s (- EBUSY) s" using full by (simp add: create_spec_def)
    ultimately show ?thesis using inv by blast
  next
    case (free i)
    let ?s = "entry_set i (take 14 w) (?d i) s"
    have i: "i < VFS_MAX_DEVICE" using free(4) unfolding find_Some_iff by auto
    have c: "device_create p name ops fo private s = Some (int i, ?s)"
      using free find_free_device_eq [OF inv name] by (intro device_create_stores [OF inv name ap _ _ i]) simp_all
    have d: "devices ?s ! i = ?d i" using inv i by (simp add: entry_set_def dev_inv_def)
    then have "device_get (int i) ?s = Some i" using i by (simp add: device_get_def)
    with d entry_set_inv(2) [OF inv i w, of "?d i"] free have "create_spec p w ops fo private s (int i) ?s"
      by (simp add: create_spec_def)
    with c entry_set_inv(1) [OF inv i w, of "?d i"] show ?thesis by auto
  qed
qed

lemma device_destroy_spec:
  assumes inv: "dev_inv s"
  shows "\<exists>r s'. device_destroy p dev s = Some (r, s') \<and> dev_inv s' \<and> destroy_spec p dev s r s'"
proof (cases "device_get dev s")
  case None
  then show ?thesis using inv by (auto simp: destroy_spec_def device_get_def device_destroy_def split: if_splits)
next
  case (Some i)
  then have i: "i < VFS_MAX_DEVICE" "d_active (devices s ! i)" "dev = int i" by (auto simp: device_get_def split: if_splits)
  show ?thesis
  proof (cases "d_pid (devices s ! i) = p")
    case True
    then show ?thesis using device_destroy_eq [OF inv i(1, 2) True] Some i(3) by (auto simp: destroy_spec_def)
  next
    case False
    then have "device_destroy p dev s = Some (- EINVAL, s)" using i by (simp add: device_destroy_def)
    then show ?thesis using inv Some False by (simp add: destroy_spec_def)
  qed
qed


definition dev_example :: kdevs where
  "dev_example = kchan.extend (chan_example\<lparr>kbytes := write_bytes 0x100 [116, 116, 121, 0] (\<lambda>_. 0)\<rparr>) 
     (kdevs.fields (replicate VFS_MAX_DEVICE \<lparr>d_active = False, d_id = 0, d_pid = 0, d_ops = 0, d_fops = None, d_private = NULL\<rparr>) False 0x10000)"

lemma dev_example_simps:
  "kbytes dev_example = write_bytes 0x100 [116, 116, 121, 0] (\<lambda>_. 0)" "device_lock dev_example = False" "devices_addr dev_example = 0x10000"
  "devices dev_example = replicate VFS_MAX_DEVICE \<lparr>d_active = False, d_id = 0, d_pid = 0, d_ops = 0, d_fops = None, d_private = NULL\<rparr>"
  by (simp_all add: dev_example_def kchan.extend_def kdevs.fields_def)

lemma dev_example_empty: "dev_inv dev_example" "registry dev_example = Map.empty"
  by (simp_all add: dev_inv_def registry_def dev_example_simps fun_eq_iff) (simp add: VFS_MAX_DEVICE_def)


end
