(* ===== verification/Fs.thy ===== *)
theory Fs
  imports Device
begin

unbundle bit_operations_syntax

text \<open>
  File systems (\<^verbatim>\<open>kernel/core/fs/vfs/fs.c\<close>), the table of mount points (\<^verbatim>\<open>mount.c\<close>) and the cache of messages
  (\<^verbatim>\<open>message.c\<close>). A file system is a name and three tables of functions; mounting makes an instance of it. The
  kernel has two file systems, one for devices and one that forwards every operation to a process; their
  tables are in the theories \<open>Devfs\<close> and \<open>Fiu\<close>.
\<close>

section \<open>State\<close>

definition VFS_FS_MAX_NAMEL :: u32 where "VFS_FS_MAX_NAMEL = 15"

definition MAX_MOUNTED_PATH :: nat where "MAX_MOUNTED_PATH = 5"

text \<open>The tables of the two file systems are named by a datatype. An entry of the table of mount points is its index.\<close>

datatype fstab = DevfsTab | FiuTab

record fs =
  fs_pid :: int
  fs_super_ops :: fstab
  fs_ops :: fstab
  fs_f_ops :: fops
  fs_private :: ptr
  fs_ilock :: bool
  fs_instances :: "ptr list"

record fs_instance =
  fi_parent :: ptr
  fi_private :: ptr

record mount_entry =
  mt_used :: bool
  mt_path :: ptr
  mt_fi :: ptr

record devfs =
  devfs_mounted :: bool
  devfs_lock :: bool

record fiu_fs =
  fiu_master :: ptr
  fiu_ops :: u32

record fiu_file_private =
  priv_slave :: ptr
  priv_ops :: u32

record message =
  msg_mid :: u32
  msg_size :: u32
  msg_max_size :: u32

text \<open>
  The private data of the two file systems are objects of their own; \<open>fiu_inst\<close> and \<open>fiu_devs\<close> are the channels
  that \<^verbatim>\<open>struct fiu_fs_instance\<close> and \<^verbatim>\<open>struct fiu_device_private\<close> hold. The name of a file system is the first field of its
  object; \<open>lit_devfs\<close> and \<open>lit_slash\<close> are the addresses of the literals \<^verbatim>\<open>"devfs"\<close> and \<^verbatim>\<open>"/"\<close> of the kernel.
\<close>

record kvfs = kdevs +
  fs_lock :: bool
  fs_list :: "ptr list"
  fss :: "ptr \<Rightarrow> fs option"
  fis :: "ptr \<Rightarrow> fs_instance option"
  mounts :: "mount_entry list"
  mount_lock :: bool
  devfss :: "ptr \<Rightarrow> devfs option"
  fiu_fss :: "ptr \<Rightarrow> fiu_fs option"
  fiu_inst :: "ptr \<Rightarrow> ptr option"
  fiu_devs :: "ptr \<Rightarrow> ptr option"
  fiu_files :: "ptr \<Rightarrow> fiu_file_private option"
  msg_cache :: "(ptr \<times> ptr) list"
  msgs :: "ptr \<Rightarrow> message option"
  cache_lock :: bool
  next_mid :: u32
  mid_lock :: bool
  lit_devfs :: ptr
  lit_slash :: ptr

definition sizeof_fs :: u32 where "sizeof_fs = 60"

definition sizeof_fs_instance :: u32 where "sizeof_fs_instance = 16"

definition sizeof_message :: u32 where "sizeof_message = 12"

definition sizeof_free_msg :: u32 where "sizeof_free_msg = 12"

text \<open>The functions of a file system; one that a table does not have is \<open>None\<close>.\<close>

record 's fs_operation =
  fso_lookup :: "(nat \<Rightarrow> ptr \<Rightarrow> u16 \<Rightarrow> u16 \<Rightarrow> ptr \<Rightarrow> 's \<Rightarrow> (int \<times> 's) option) option"
  fso_mkdir :: "(nat \<Rightarrow> ptr \<Rightarrow> u32 \<Rightarrow> u16 \<Rightarrow> u16 \<Rightarrow> u32 \<Rightarrow> 's \<Rightarrow> (int \<times> 's) option) option"
  fso_mknod :: "(nat \<Rightarrow> ptr \<Rightarrow> u32 \<Rightarrow> u16 \<Rightarrow> u16 \<Rightarrow> u32 \<Rightarrow> int \<Rightarrow> 's \<Rightarrow> (int \<times> 's) option) option"
  fso_stat :: "(nat \<Rightarrow> u16 \<Rightarrow> u16 \<Rightarrow> u32 \<Rightarrow> ptr \<Rightarrow> 's \<Rightarrow> (int \<times> 's) option) option"
  fso_mount :: "(nat \<Rightarrow> u32 \<Rightarrow> int \<Rightarrow> 's \<Rightarrow> (int \<times> 's) option) option"
  fso_getdirent :: "(nat \<Rightarrow> u32 \<Rightarrow> ptr \<Rightarrow> int \<Rightarrow> 's \<Rightarrow> (int \<times> 's) option) option"

record 's fs_super_operation =
  fsu_create :: "(ptr \<Rightarrow> ptr \<Rightarrow> ptr \<Rightarrow> 's \<Rightarrow> (int \<times> 's) option) option"

section \<open>File systems\<close>

definition fs_initialize :: "'a kvfs_scheme \<Rightarrow> int \<times> 'a kvfs_scheme" where
  "fs_initialize s = (0, s\<lparr>fs_lock := spinlock_init, fs_list := []\<rparr>)"

definition fs_from_name_nolock :: "ptr \<Rightarrow> 'a kvfs_scheme \<Rightarrow> ptr" where
  "fs_from_name_nolock name s =
     (case find (\<lambda>f. strncmp f name VFS_FS_MAX_NAMEL (kbytes s) = 0) (fs_list s) of Some f \<Rightarrow> f | None \<Rightarrow> NULL)"

definition fs_from_name :: "ptr \<Rightarrow> 'a kvfs_scheme \<Rightarrow> (ptr \<times> 'a kvfs_scheme) option" where
  "fs_from_name name s = do {
     l \<leftarrow> spinlock_lock (fs_lock s);
     let f = fs_from_name_nolock name s;
     Some (f, s\<lparr>fs_lock := spinlock_unlock l\<rparr>)
   }"

definition fs_register :: "(fstab \<Rightarrow> 'a kvfs_scheme fs_super_operation) \<Rightarrow> ptr \<Rightarrow> int \<Rightarrow> fstab \<Rightarrow> fstab \<Rightarrow> fops \<Rightarrow> ptr \<Rightarrow> 'a kvfs_scheme
    \<Rightarrow> (int \<times> 'a kvfs_scheme) option" where
  "fs_register svt name p sup_ops ops fo private s =
     (if fsu_create (svt sup_ops) = None then Some (- EINVAL, s)
      else do {
        (f, s) \<leftarrow> kmalloc sizeof_fs s;
        if f = NULL then Some (- ENOMEM, s)
        else do {
          (_, m) \<leftarrow> strncpy f name VFS_FS_MAX_NAMEL (kbytes s);
          let F = \<lparr>fs_pid = p, fs_super_ops = sup_ops, fs_ops = ops, fs_f_ops = fo, fs_private = private, fs_ilock = spinlock_init, fs_instances = []\<rparr>;
          let s = s\<lparr>kbytes := m, fss := (fss s)(f \<mapsto> F)\<rparr>;
          l \<leftarrow> spinlock_lock (fs_lock s);
          let s = s\<lparr>fs_lock := l\<rparr>;
          if fs_from_name_nolock name s \<noteq> NULL
          then do {
            s \<leftarrow> kfree f s;
            Some (- EEXIST, s\<lparr>fss := (fss s)(f := None), fs_lock := spinlock_unlock l\<rparr>)
          }
          else Some (0, s\<lparr>fs_list := f # fs_list s, fs_lock := spinlock_unlock l\<rparr>)
        }
      })"

definition fs_unregister :: "ptr \<Rightarrow> int \<Rightarrow> 'a kvfs_scheme \<Rightarrow> (int \<times> 'a kvfs_scheme) option" where
  "fs_unregister name p s = do {
     l \<leftarrow> spinlock_lock (fs_lock s);
     let s = s\<lparr>fs_lock := l\<rparr>;
     let f = fs_from_name_nolock name s;
     if f = NULL then Some (- ENOENT, s\<lparr>fs_lock := spinlock_unlock l\<rparr>)
     else do {
       F \<leftarrow> fss s f;
       if fs_pid F \<noteq> p then Some (- EPERM, s\<lparr>fs_lock := spinlock_unlock l\<rparr>)
       else do {
         let s = s\<lparr>fs_list := remove1 f (fs_list s), fs_lock := spinlock_unlock l\<rparr>;
         s \<leftarrow> kfree f s;
         Some (0, s\<lparr>fss := (fss s)(f := None)\<rparr>)
       }
     }
   }"

text \<open>The second result is the new instance; it has a meaning only when the first one is 0.\<close>

definition fs_new_instance :: "(fstab \<Rightarrow> 'a kvfs_scheme fs_super_operation) \<Rightarrow> ptr \<Rightarrow> ptr \<Rightarrow> ptr \<Rightarrow> 'a kvfs_scheme
    \<Rightarrow> (int \<times> ptr \<times> 'a kvfs_scheme) option" where
  "fs_new_instance svt name dev mount_pt s = do {
     (f, s) \<leftarrow> fs_from_name name s;
     if f = NULL then Some (- ENOENT, NULL, s)
     else do {
       (i, s) \<leftarrow> kmalloc sizeof_fs_instance s;
       if i = NULL then Some (- ENOMEM, NULL, s)
       else do {
         let s = s\<lparr>fis := (fis s)(i \<mapsto> \<lparr>fi_parent = f, fi_private = NULL\<rparr>)\<rparr>;
         F \<leftarrow> fss s f;
         create \<leftarrow> fsu_create (svt (fs_super_ops F));
         (ret, s) \<leftarrow> create i dev mount_pt s;
         if ret < 0
         then do { s \<leftarrow> kfree i s; Some (ret, NULL, s\<lparr>fis := (fis s)(i := None)\<rparr>) }
         else do {
           F \<leftarrow> fss s f;
           l \<leftarrow> spinlock_lock (fs_ilock F);
           Some (0, i, s\<lparr>fss := (fss s)(f \<mapsto> F\<lparr>fs_instances := i # fs_instances F, fs_ilock := spinlock_unlock l\<rparr>)\<rparr>)
         }
       }
     }
   }"

definition fs_del_instance :: "ptr \<Rightarrow> 'a kvfs_scheme \<Rightarrow> 'a kvfs_scheme option" where
  "fs_del_instance i s = do {
     I \<leftarrow> fis s i;
     F \<leftarrow> fss s (fi_parent I);
     l \<leftarrow> spinlock_lock (fs_ilock F);
     if i \<notin> set (fs_instances F) then None
     else do {
       let s = s\<lparr>fss := (fss s)(fi_parent I \<mapsto> F\<lparr>fs_instances := remove1 i (fs_instances F), fs_ilock := spinlock_unlock l\<rparr>)\<rparr>;
       s \<leftarrow> kfree i s;
       Some (s\<lparr>fis := (fis s)(i := None)\<rparr>)
     }
   }"

section \<open>Mount points\<close>

definition mount_upd :: "nat \<Rightarrow> (mount_entry \<Rightarrow> mount_entry) \<Rightarrow> 'a kvfs_scheme \<Rightarrow> 'a kvfs_scheme" where
  "mount_upd i g s = s\<lparr>mounts := (mounts s)[i := g (mounts s ! i)]\<rparr>"

fun check_mounts_loop :: "nat list \<Rightarrow> int \<Rightarrow> ptr \<Rightarrow> 'a kvfs_scheme \<Rightarrow> int option" where
  "check_mounts_loop [] mount_nb path s = Some (if mount_nb = - 1 then - ENOMEM else mount_nb)"
| "check_mounts_loop (i # is) mount_nb path s =
     (if \<not> mt_used (mounts s ! i) then check_mounts_loop is (if mount_nb = - 1 then int i else mount_nb) path s
      else do {
        r \<leftarrow> strcmp (mt_path (mounts s ! i)) path (kbytes s);
        if r = 0 then Some (- EBUSY) else check_mounts_loop is mount_nb path s
      })"

definition vfs_check_mounts :: "ptr \<Rightarrow> 'a kvfs_scheme \<Rightarrow> (int \<times> 'a kvfs_scheme) option" where
  "vfs_check_mounts path s = do {
     l \<leftarrow> spinlock_lock (mount_lock s);
     mount_nb \<leftarrow> check_mounts_loop [0..<MAX_MOUNTED_PATH] (- 1) path s;
     if mount_nb < 0 then Some (mount_nb, s\<lparr>mount_lock := spinlock_unlock l\<rparr>)
     else Some (mount_nb, (mount_upd (nat mount_nb) (\<lambda>e. e\<lparr>mt_used := True\<rparr>) s)\<lparr>mount_lock := spinlock_unlock l\<rparr>)
   }"

definition vfs_root_get :: nat where "vfs_root_get = 0"

text \<open>The index of a mount point, or the null pointer as inner \<open>None\<close>.\<close>

fun mount_pt_loop :: "nat list \<Rightarrow> ptr \<Rightarrow> 'a kvfs_scheme \<Rightarrow> nat option option" where
  "mount_pt_loop [] path s = Some None"
| "mount_pt_loop (i # is) path s =
     (if mt_used (mounts s ! i)
      then do { r \<leftarrow> strcmp path (mt_path (mounts s ! i)) (kbytes s); if r = 0 then Some (Some i) else mount_pt_loop is path s }
      else mount_pt_loop is path s)"

definition vfs_mount_pt_get :: "ptr \<Rightarrow> 'a kvfs_scheme \<Rightarrow> nat option option" where
  "vfs_mount_pt_get path s = mount_pt_loop [0..<MAX_MOUNTED_PATH] path s"

section \<open>The cache of messages\<close>

definition message_alloc :: "u32 \<Rightarrow> 'a kvfs_scheme \<Rightarrow> (ptr \<times> 'a kvfs_scheme) option" where
  "message_alloc sz s = do {
     l \<leftarrow> spinlock_lock (cache_lock s);
     case find (\<lambda>(fr, m). case msgs s m of Some M \<Rightarrow> msg_max_size M \<ge> sz | None \<Rightarrow> False) (msg_cache s) of
       Some (fr, m) \<Rightarrow> do {
         let s = s\<lparr>msg_cache := remove1 (fr, m) (msg_cache s), cache_lock := spinlock_unlock l\<rparr>;
         let s = s\<lparr>msgs := (msgs s)(m := map_option (\<lambda>M. M\<lparr>msg_size := sz\<rparr>) (msgs s m))\<rparr>;
         s \<leftarrow> kfree fr s;
         Some (m, s)
       }
     | None \<Rightarrow> do {
         let s = s\<lparr>cache_lock := spinlock_unlock l\<rparr>;
         (m, s) \<leftarrow> kmalloc (sizeof_message + sz) s;
         if m = NULL then Some (NULL, s)
         else do {
           l \<leftarrow> spinlock_lock (mid_lock s);
           let n = push_bit 8 (next_mid s);
           let s = s\<lparr>next_mid := next_mid s + 1, mid_lock := spinlock_unlock l\<rparr>;
           Some (m, s\<lparr>msgs := (msgs s)(m \<mapsto> \<lparr>msg_mid = n, msg_size = sz, msg_max_size = sz\<rparr>)\<rparr>)
         }
       }
   }"

definition message_free :: "ptr \<Rightarrow> 'a kvfs_scheme \<Rightarrow> 'a kvfs_scheme option" where
  "message_free m s =
     (if m = NULL then Some s
      else do {
        (fr, s) \<leftarrow> kmalloc sizeof_free_msg s;
        if fr = NULL then do { s \<leftarrow> kfree m s; Some (s\<lparr>msgs := (msgs s)(m := None)\<rparr>) }
        else do {
          l \<leftarrow> spinlock_lock (cache_lock s);
          Some (s\<lparr>msg_cache := (fr, m) # msg_cache s, cache_lock := spinlock_unlock l\<rparr>)
        }
      })"

end
