(* ===== verification/Devfs.thy ===== *)
theory Devfs
  imports Fs
begin

unbundle bit_operations_syntax

text \<open>
  The file system of the devices, \<^verbatim>\<open>kernel/core/fs/devfs.c\<close>. Requests and answers that C code reaches through a pointer are
  structures in the byte memory, with the layout of the i386 compiler. The main result: looking up the name
  of a device gives its identifier and the length of the path, so that the path is consumed.
\<close>

section \<open>Structures in memory\<close>

definition put_half :: "ptr \<Rightarrow> u16 \<Rightarrow> mem \<Rightarrow> mem" where
  "put_half p v m = m(p := ucast v, p + 1 := ucast (drop_bit 8 v))"

definition put_word :: "ptr \<Rightarrow> u32 \<Rightarrow> mem \<Rightarrow> mem" where
  "put_word p v m = m(p := ucast v, p + 1 := ucast (drop_bit 8 v), p + 2 := ucast (drop_bit 16 v), p + 3 := ucast (drop_bit 24 v))"

definition put_long :: "ptr \<Rightarrow> u64 \<Rightarrow> mem \<Rightarrow> mem" where
  "put_long p v m = put_word (p + 4) (ucast (drop_bit 32 v)) (put_word p (ucast v) m)"

text \<open>The fields of \<^verbatim>\<open>struct resp_lookup\<close>.\<close>

definition rl_ret :: "ptr \<Rightarrow> mem \<Rightarrow> int" where "rl_ret r m = sint (get_word r m)"

definition rl_processed :: "ptr \<Rightarrow> mem \<Rightarrow> int" where "rl_processed r m = sint (get_half (r + 4) m)"

definition rl_inode :: "ptr \<Rightarrow> mem \<Rightarrow> u32" where "rl_inode r m = get_word (r + 16) m"

definition rl_dev :: "ptr \<Rightarrow> mem \<Rightarrow> int" where "rl_dev r m = sint (get_word (r + 20) m)"

definition set_ret :: "ptr \<Rightarrow> int \<Rightarrow> mem \<Rightarrow> mem" where "set_ret r v = put_word r (word_of_int v)"

definition set_processed :: "ptr \<Rightarrow> int \<Rightarrow> mem \<Rightarrow> mem" where "set_processed r v = put_half (r + 4) (word_of_int v)"

definition set_inode :: "ptr \<Rightarrow> u32 \<Rightarrow> mem \<Rightarrow> mem" where "set_inode r v = put_word (r + 16) v"

definition set_dev :: "ptr \<Rightarrow> int \<Rightarrow> mem \<Rightarrow> mem" where "set_dev r v = put_word (r + 20) (word_of_int v)"

definition RES_OK :: int where "RES_OK = 0"

definition RES_ENTER_MOUNT :: int where "RES_ENTER_MOUNT = 1"

definition RES_KO :: int where "RES_KO = 2"

section \<open>Operations\<close>

definition DEVFS_INODE_ROOT :: u32 where "DEVFS_INODE_ROOT = 256"

definition VFS_FTYPE_DEV :: u32 where "VFS_FTYPE_DEV = 0x2000"

definition VFS_FTYPE_DIR :: u32 where "VFS_FTYPE_DIR = 0x4000"

definition sizeof_devfs :: u32 where "sizeof_devfs = 12"

definition devfs_open :: "fref \<Rightarrow> u32 \<Rightarrow> int \<Rightarrow> u16 \<Rightarrow> u16 \<Rightarrow> int \<Rightarrow> u32 \<Rightarrow> 's \<Rightarrow> (int \<times> 's) option" where
  "devfs_open file ino p uid gid fl mode s = (if ino \<noteq> DEVFS_INODE_ROOT then Some (- EINVAL, s) else Some (uint DEVFS_INODE_ROOT, s))"

definition devfs_close :: "fref \<Rightarrow> u32 \<Rightarrow> 's \<Rightarrow> (int \<times> 's) option" where
  "devfs_close file ino s = Some (0, s)"

text \<open>The comparisons with the literals \<^verbatim>\<open>""\<close> and \<^verbatim>\<open>"/"\<close> are written out.\<close>

definition devfs_lookup :: "nat \<Rightarrow> ptr \<Rightarrow> u16 \<Rightarrow> u16 \<Rightarrow> ptr \<Rightarrow> 'a kvfs_scheme \<Rightarrow> (int \<times> 'a kvfs_scheme) option" where
  "devfs_lookup root path uid gid resp s =
     (let m = set_processed resp 0 (kbytes s);
          (path, m) = (if m path = 0x2F then (path + 1, set_processed resp (rl_processed resp m + 1) m) else (path, m)) in
      if m path = 0 \<or> m path = 0x2F \<and> m (path + 1) = 0
      then Some (0, s\<lparr>kbytes := set_ret resp RES_OK (set_inode resp DEVFS_INODE_ROOT (set_dev resp (- 1) m))\<rparr>)
      else do {
        path_len \<leftarrow> strlen path m;
        if path_len > VFS_DEV_MAX_NAMEL then Some (- ENOENT, s\<lparr>kbytes := m\<rparr>)
        else do {
          dev \<leftarrow> device_get_from_name path (s\<lparr>kbytes := m\<rparr>);
          let m = set_dev resp dev m;
          if rl_dev resp m < 0 then Some (- ENOENT, s\<lparr>kbytes := m\<rparr>)
          else do {
            let m = set_processed resp (rl_processed resp m + uint path_len) m;
            let m = set_inode resp (word_of_int (rl_dev resp m)) m;
            Some (0, s\<lparr>kbytes := set_ret resp RES_OK m\<rparr>)
          }
        }
      })"

text \<open>The fields of \<^verbatim>\<open>struct stat\<close>, in the order in which they are set.\<close>

definition devfs_stat :: "nat \<Rightarrow> u16 \<Rightarrow> u16 \<Rightarrow> u32 \<Rightarrow> ptr \<Rightarrow> 'a kvfs_scheme \<Rightarrow> (int \<times> 'a kvfs_scheme) option" where
  "devfs_stat mnt uid gid ino st s =
     (let head = (if ino = DEVFS_INODE_ROOT then Some (- 1, DEVFS_INODE_ROOT, VFS_FTYPE_DIR)
                  else case device_get (sint ino) s of
                    None \<Rightarrow> None
                  | Some d \<Rightarrow> Some (word_of_int (d_id (devices s ! d)), word_of_int (d_id (devices s ! d)), VFS_FTYPE_DEV)) in
      case head of
        None \<Rightarrow> Some (- EINVAL, s)
      | Some (dev, n, mode) \<Rightarrow>
          let m = put_word (st + 8) mode (put_word (st + 4) n (put_word st dev (kbytes s)));
              m = put_half (st + 18) 0 (put_half (st + 16) 0 (put_word (st + 12) 0 m));
              m = put_long (st + 36) 0 (put_word (st + 32) 0 (put_long (st + 24) 0 (put_word (st + 20) 0 m)));
              m = put_word (st + 52) 0 (put_word (st + 48) 0 (put_word (st + 44) 0 m))
          in Some (0, s\<lparr>kbytes := m\<rparr>))"

definition devfs_getdirent :: "nat \<Rightarrow> u32 \<Rightarrow> ptr \<Rightarrow> int \<Rightarrow> 'a kvfs_scheme \<Rightarrow> (int \<times> 'a kvfs_scheme) option" where
  "devfs_getdirent mnt ino dirent index s =
     (if ino \<noteq> DEVFS_INODE_ROOT then Some (- EINVAL, s)
      else do {
        (d, s) \<leftarrow> device_get_from_index index s;
        case d of
          None \<Rightarrow> Some (0, s)
        | Some i \<Rightarrow> do {
            let m = put_word dirent (word_of_int (d_id (devices s ! i))) (kbytes s);
            (_, m) \<leftarrow> strncpy (dirent + 4) (dev_name s i) VFS_DEV_MAX_NAMEL m;
            Some (1, s\<lparr>kbytes := m\<rparr>)
          }
      })"

definition devfs_create :: "ptr \<Rightarrow> ptr \<Rightarrow> ptr \<Rightarrow> 'a kvfs_scheme \<Rightarrow> (int \<times> 'a kvfs_scheme) option" where
  "devfs_create fi dev mount_pt s = do {
     I \<leftarrow> fis s fi;
     F \<leftarrow> fss s (fi_parent I);
     D \<leftarrow> devfss s (fs_private F);
     l \<leftarrow> spinlock_lock (devfs_lock D);
     if devfs_mounted D then Some (- EBUSY, s\<lparr>devfss := (devfss s)(fs_private F \<mapsto> D\<lparr>devfs_lock := spinlock_unlock l\<rparr>)\<rparr>)
     else Some (0, s\<lparr>devfss := (devfss s)(fs_private F \<mapsto> D\<lparr>devfs_mounted := True, devfs_lock := spinlock_unlock l\<rparr>)\<rparr>)
   }"

definition devfs_f_ops :: "'s file_operation" where
  "devfs_f_ops = \<lparr>fo_open = Some devfs_open, fo_read = None, fo_write = None, fo_ioctl = None, fo_dup = None, fo_close = Some devfs_close\<rparr>"

definition devfs_ops :: "'a kvfs_scheme fs_operation" where
  "devfs_ops = \<lparr>fso_lookup = Some devfs_lookup, fso_mkdir = None, fso_mknod = None, fso_stat = Some devfs_stat, fso_mount = None,
     fso_getdirent = Some devfs_getdirent\<rparr>"

definition devfs_sup_ops :: "'a kvfs_scheme fs_super_operation" where
  "devfs_sup_ops = \<lparr>fsu_create = Some devfs_create\<rparr>"

definition devfs_initialize :: "(fstab \<Rightarrow> 'a kvfs_scheme fs_super_operation) \<Rightarrow> 'a kvfs_scheme \<Rightarrow> (int \<times> 'a kvfs_scheme) option" where
  "devfs_initialize svt s = do {
     (d, s) \<leftarrow> kmalloc sizeof_devfs s;
     if d = NULL then Some (- ENOMEM, s)
     else do {
       let s = s\<lparr>devfss := (devfss s)(d \<mapsto> \<lparr>devfs_mounted = False, devfs_lock = spinlock_init\<rparr>)\<rparr>;
       fs_register svt (lit_devfs s) 0 DevfsTab DevfsTab DevfsFops d s
     }
   }"

section \<open>Reading back structures\<close>

lemma get_put_half [simp]: "get_half p (put_half p v m) = v"
  by (rule bit_word_eqI) (auto simp: get_half_def put_half_def bit_simps)

lemma get_put_word [simp]: "get_word p (put_word p v m) = v"
proof (rule bit_word_eqI)
  fix n assume "n < LENGTH(32)"
  then consider "n < 8" | "8 \<le> n" "n < 16" | "16 \<le> n" "n < 24" | "24 \<le> n" "n < 32" by fastforce
  then show "bit (get_word p (put_word p v m)) n \<longleftrightarrow> bit v n"
    by cases (auto simp: get_word_def put_word_def bit_simps)
qed

lemmas rl_defs = rl_ret_def rl_processed_def rl_inode_def rl_dev_def set_ret_def set_processed_def set_inode_def set_dev_def

text \<open>The fields of an answer are independent.\<close>

lemma rl_other [simp]:
  "rl_processed r (set_ret r v m) = rl_processed r m" "rl_processed r (set_inode r i m) = rl_processed r m" "rl_processed r (set_dev r v m) = rl_processed r m"
  "rl_inode r (set_ret r v m) = rl_inode r m" "rl_inode r (set_processed r v m) = rl_inode r m" "rl_inode r (set_dev r v m) = rl_inode r m"
  "rl_dev r (set_ret r v m) = rl_dev r m" "rl_dev r (set_processed r v m) = rl_dev r m" "rl_dev r (set_inode r i m) = rl_dev r m"
  "rl_ret r (set_processed r v m) = rl_ret r m" "rl_ret r (set_inode r i m) = rl_ret r m" "rl_ret r (set_dev r v m) = rl_ret r m"
  by (simp_all add: rl_defs get_half_def get_word_def put_half_def put_word_def add.assoc)

lemma rl_same:
  "- (2 ^ 31) \<le> v \<Longrightarrow> v < 2 ^ 31 \<Longrightarrow> rl_ret r (set_ret r v m) = v" "- (2 ^ 31) \<le> v \<Longrightarrow> v < 2 ^ 31 \<Longrightarrow> rl_dev r (set_dev r v m) = v"
  "- (2 ^ 15) \<le> v \<Longrightarrow> v < 2 ^ 15 \<Longrightarrow> rl_processed r (set_processed r v m) = v" "rl_inode r (set_inode r i m) = i"
  by (simp_all add: rl_defs sint_sbintrunc' signed_take_bit_int_eq_self)

text \<open>Only the 48 bytes of the answer at \<open>r\<close> change.\<close>

definition only_at :: "ptr \<Rightarrow> mem \<Rightarrow> mem \<Rightarrow> bool" where
  "only_at r m m' \<longleftrightarrow> (\<forall>x. (\<forall>k < 48. x \<noteq> r + of_nat k) \<longrightarrow> m' x = m x)"

lemma only_at_refl: "only_at r m m"
  by (simp add: only_at_def)

lemma only_at_trans: "only_at r m m' \<Longrightarrow> only_at r m' m'' \<Longrightarrow> only_at r m m''"
  by (simp add: only_at_def)

lemma only_at_put:
  assumes "k < 45"
  shows "only_at r m m' \<Longrightarrow> only_at r m (put_word (r + of_nat k) v m')" and "only_at r m m' \<Longrightarrow> only_at r m (put_half (r + of_nat k) w m')"
proof -
  have n: "x \<noteq> r + of_nat k \<and> x \<noteq> r + of_nat k + 1 \<and> x \<noteq> r + of_nat k + 2 \<and> x \<noteq> r + of_nat k + 3" if "\<forall>k < 48. x \<noteq> r + of_nat k" for x
  proof -
    have e: "r + of_nat k + 1 = r + of_nat (k + 1)" "r + of_nat k + 2 = r + of_nat (k + 2)" "r + of_nat k + 3 = r + of_nat (k + 3)" by simp_all
    show ?thesis unfolding e using that [rule_format, of k] that [rule_format, of "k + 1"] that [rule_format, of "k + 2"] that [rule_format, of "k + 3"] assms by simp
  qed
  show "only_at r m m' \<Longrightarrow> only_at r m (put_word (r + of_nat k) v m')" "only_at r m m' \<Longrightarrow> only_at r m (put_half (r + of_nat k) w m')"
    using n by (simp_all add: only_at_def put_word_def put_half_def)
qed

lemma only_at_set [intro]:
  assumes "only_at r m m'"
  shows "only_at r m (set_ret r v m')" "only_at r m (set_processed r v m')" "only_at r m (set_inode r i m')" "only_at r m (set_dev r v m')"
  using only_at_put [OF _ assms, of 0] only_at_put [OF _ assms, of 4] only_at_put [OF _ assms, of 16] only_at_put [OF _ assms, of 20]
  by (simp_all add: rl_defs)

lemma only_at_keeps:
  assumes "only_at r m m'" "apart r 48 p n"
  shows "j < n \<Longrightarrow> m' (p + of_nat j) = m (p + of_nat j)"
  using assms unfolding only_at_def apart_def by metis

lemma cstr_cong: "(\<And>j. j \<le> length w \<Longrightarrow> m' (p + of_nat j) = m (p + of_nat j)) \<Longrightarrow> cstr m' p w = cstr m p w"
proof (induction w arbitrary: p)
  case Nil
  from Nil [of 0] show ?case by simp
next
  case (Cons c w)
  have "m' (p + 1 + of_nat j) = m (p + 1 + of_nat j)" if "j \<le> length w" for j
    using Cons.prems [of "Suc j"] that by (simp add: add.assoc)
  with Cons.IH [of "p + 1"] Cons.prems [of 0] show ?case by simp
qed

text \<open>The table of devices is the same when only other bytes change.\<close>

lemma registry_only_at:
  assumes "only_at r (kbytes s) m" "apart r 48 (devices_addr s) (40 * VFS_MAX_DEVICE)" "dev_inv s"
  shows "dev_inv (s\<lparr>kbytes := m\<rparr>)" and "registry (s\<lparr>kbytes := m\<rparr>) = registry s"
proof -
  have "bytes_at m (dev_name s i) 15 = bytes_at (kbytes s) (dev_name s i) 15" if "i < VFS_MAX_DEVICE" for i
  proof (rule bytes_at_cong)
    fix j :: nat assume j: "j < 15"
    have "dev_name s i + of_nat j = devices_addr s + of_nat (40 * i + j)" by (simp add: dev_name_def)
    with only_at_keeps [OF assms(1, 2), of "40 * i + j"] that j show "m (dev_name s i + of_nat j) = kbytes s (dev_name s i + of_nat j)"
      by (simp add: add.assoc)
  qed
  then show "dev_inv (s\<lparr>kbytes := m\<rparr>)" "registry (s\<lparr>kbytes := m\<rparr>) = registry s"
    using assms(3) by (auto simp: dev_inv_def registry_def str_in_def)
qed

section \<open>Looking up a device\<close>

text \<open>The step over the leading slash: the rest of the path is in place, and one character is counted.\<close>

lemma lookup_skips_slash:
  assumes "cstr (kbytes s) path (0x2F # w)" "apart r 48 path (length w + 2)" "m0 = set_processed r 0 (kbytes s)"
    and "m1 = set_processed r (rl_processed r m0 + 1) m0"
  shows "m0 path = 0x2F" "cstr m1 (path + 1) w" "rl_processed r m1 = 1" "only_at r (kbytes s) m1"
proof -
  have o: "only_at r (kbytes s) m0" "only_at r (kbytes s) m1" unfolding assms(3, 4) by (intro only_at_set only_at_refl)+
  show "only_at r (kbytes s) m1" by (rule o(2))
  show "m0 path = 0x2F" using only_at_keeps [OF o(1) assms(2), of 0] assms(1) by simp
  have "cstr m1 path (0x2F # w) = cstr (kbytes s) path (0x2F # w)"
    by (rule cstr_cong) (rule only_at_keeps [OF o(2) assms(2)], simp)
  then show "cstr m1 (path + 1) w" using assms(1) by simp
  have "rl_processed r m0 = 0" unfolding assms(3) by (simp add: rl_same)
  then show "rl_processed r m1 = 1" unfolding assms(4) by (simp add: rl_same)
qed

lemma devfs_lookup_device:
  fixes s :: "'a kvfs_scheme"
  assumes inv: "dev_inv s" and path: "cstr (kbytes s) path (0x2F # w)" "w \<noteq> []" "w \<noteq> [0x2F]" "length w \<le> 15"
    and away: "apart r 48 path (length w + 2)" "apart r 48 (devices_addr s) (40 * VFS_MAX_DEVICE)"
  shows "\<exists>m. only_at r (kbytes s) m \<and>
    (case find (\<lambda>i. registry s i = Some w) [0..<VFS_MAX_DEVICE] of
       None \<Rightarrow> devfs_lookup root path uid gid r s = Some (- ENOENT, s\<lparr>kbytes := m\<rparr>)
     | Some i \<Rightarrow> devfs_lookup root path uid gid r s = Some (0, s\<lparr>kbytes := m\<rparr>) \<and> rl_ret r m = RES_OK
         \<and> rl_processed r m = 1 + int (length w) \<and> rl_inode r m = of_nat i \<and> rl_dev r m = int i)"
proof -
  define m0 where "m0 = set_processed r 0 (kbytes s)"
  define m1 where "m1 = set_processed r (rl_processed r m0 + 1) m0"
  note k = lookup_skips_slash [OF path(1) away(1) m0_def m1_def]
  note d = registry_only_at [OF k(4) away(2) inv]
  have w: "\<not> (m1 (path + 1) = 0 \<or> m1 (path + 1) = 0x2F \<and> m1 (path + 1 + 1) = 0)"
    using k(2) path(2, 3) by (cases w; cases "tl w") auto
  have l: "strlen (path + 1) m1 = Some (of_nat (length w))" "\<not> of_nat (length w) > VFS_DEV_MAX_NAMEL" "uint (of_nat (length w) :: u32) = int (length w)"
    using strlen_cstr [OF k(2)] path(4) by (simp_all add: VFS_DEV_MAX_NAMEL_def word_less_nat_alt unsigned_of_nat take_bit_nat_eq_self take_bit_int_eq_self)
  let ?f = "find (\<lambda>i. registry s i = Some w) [0..<VFS_MAX_DEVICE]"
  have g: "device_get_from_name (path + 1) (s\<lparr>kbytes := m1\<rparr>) = Some (case ?f of Some i \<Rightarrow> int i | None \<Rightarrow> - ENODEV)"
    using get_from_name_loop_eq [OF d(1), of "path + 1" w "[0..<VFS_MAX_DEVICE]"] k(2) d(2) by (simp add: device_get_from_name_def)
  note start = devfs_lookup_def [of root path uid gid r s, folded m0_def, unfolded Let_def, folded m1_def]
  show ?thesis
  proof (cases ?f)
    case None
    define m2 where "m2 = set_dev r (- ENODEV) m1"
    have "rl_dev r m2 < 0" "only_at r (kbytes s) m2" using k(4) by (auto simp: m2_def rl_same ENODEV_def)
    then show ?thesis using None g w l k(1) by (intro exI [of _ m2]) (auto simp: start m2_def)
  next
    case (Some i)
    then have i: "i < VFS_MAX_DEVICE" by (auto simp: find_Some_iff)
    define m2 where "m2 = set_dev r (int i) m1"
    define m3 where "m3 = set_processed r (1 + int (length w)) m2"
    define m4 where "m4 = set_ret r RES_OK (set_inode r (of_nat i) m3)"
    have v: "rl_dev r m2 = int i" "rl_processed r m2 = 1" "rl_dev r m3 = int i" using i k(3) by (simp_all add: m2_def m3_def rl_same VFS_MAX_DEVICE_def)
    have a: "rl_ret r m4 = RES_OK" "rl_processed r m4 = 1 + int (length w)" "rl_inode r m4 = of_nat i" "rl_dev r m4 = int i"
      using v path(4) by (simp_all add: m4_def m3_def rl_same RES_OK_def)
    have "only_at r (kbytes s) m4" unfolding m4_def m3_def m2_def by (intro only_at_set k(4))
    moreover have "devfs_lookup root path uid gid r s = Some (0, s\<lparr>kbytes := m4\<rparr>)"
      using Some g w l k(1) v by (auto simp: start m4_def simp flip: m2_def m3_def)
    ultimately show ?thesis using Some a by (intro exI [of _ m4]) simp
  qed
qed

end
