(* ===== verification/Fiu.thy ===== *)
theory Fiu
  imports Devfs
begin

unbundle bit_operations_syntax

text \<open>
  File systems and devices in user processes, \<^verbatim>\<open>kernel/core/fs/fiu.c\<close>: every operation is a request on a channel, and the process
  that owns the channel answers. The request and the answer of an operation are local variables of the kernel: \<open>rq\<close> and \<open>rs\<close> are their
  addresses. \<open>yield\<close> is the run of the system while the thread waits for the answer, and \<open>kcopy\<close> the copy of bytes between two
  mapped ranges.
\<close>

section \<open>Requests\<close>

definition VFS_OPEN :: u16 where "VFS_OPEN = 1"
definition VFS_READ :: u16 where "VFS_READ = 2"
definition VFS_WRITE :: u16 where "VFS_WRITE = 3"
definition VFS_CLOSE :: u16 where "VFS_CLOSE = 4"
definition VFS_MOUNT :: u16 where "VFS_MOUNT = 6"
definition VFS_LOOKUP :: u16 where "VFS_LOOKUP = 7"
definition VFS_STAT :: u16 where "VFS_STAT = 10"
definition VFS_IOCTL :: u16 where "VFS_IOCTL = 11"
definition VFS_GETDIRENT :: u16 where "VFS_GETDIRENT = 12"
definition VFS_FS_CREATE :: u16 where "VFS_FS_CREATE = 13"

definition VFS_OPS_MOUNT :: u32 where "VFS_OPS_MOUNT = 32"

definition VFS_OPS_GETDIRENT :: u32 where "VFS_OPS_GETDIRENT = 2048"

text \<open>The header of a request, \<^verbatim>\<open>struct msg_header\<close>.\<close>

definition put_header :: "ptr \<Rightarrow> u16 \<Rightarrow> u16 \<Rightarrow> mem \<Rightarrow> mem" where
  "put_header rq op slave_id m = put_half (rq + 2) slave_id (put_half rq op m)"

definition mem_upd :: "(mem \<Rightarrow> mem) \<Rightarrow> 'a kheap_scheme \<Rightarrow> 'a kheap_scheme" where
  "mem_upd g s = s\<lparr>kbytes := g (kbytes s)\<rparr>"

definition int_at :: "ptr \<Rightarrow> 'a kheap_scheme \<Rightarrow> int" where
  "int_at p s = sint (get_word p (kbytes s))"

text \<open>The private data that hang on a mount point.\<close>

definition fiu_channel :: "nat \<Rightarrow> 'a kvfs_scheme \<Rightarrow> ptr option" where
  "fiu_channel root s = do { I \<leftarrow> fis s (mt_fi (mounts s ! root)); fiu_inst s (fi_private I) }"

definition fiu_fs_of :: "nat \<Rightarrow> 'a kvfs_scheme \<Rightarrow> fiu_fs option" where
  "fiu_fs_of root s = do { I \<leftarrow> fis s (mt_fi (mounts s ! root)); F \<leftarrow> fss s (fi_parent I); fiu_fss s (fs_private F) }"

definition fiu_channel_read_rw :: "('a kvfs_scheme \<Rightarrow> 'a kvfs_scheme option) \<Rightarrow> ptr \<Rightarrow> ptr \<Rightarrow> u32 \<Rightarrow> ptr \<Rightarrow> u32 \<Rightarrow> 'a kvfs_scheme
    \<Rightarrow> (int \<times> 'a kvfs_scheme) option" where
  "fiu_channel_read_rw yield slave buf_in size_in buf_out size_out s = do {
     (ret, s) \<leftarrow> channel_slave_write slave buf_in size_in s;
     if ret < 0 then Some (ret, s)
     else do {
       (ret, s) \<leftarrow> channel_slave_read yield slave buf_out size_out s;
       if ret < 0 then Some (ret, s) else Some (0, s)
     }
   }"

text \<open>A request whose fields are in place: the header is filled in and the answer is awaited.\<close>

definition fiu_send :: "('a kvfs_scheme \<Rightarrow> 'a kvfs_scheme option) \<Rightarrow> ptr \<Rightarrow> ptr \<Rightarrow> u16 \<Rightarrow> u32 \<Rightarrow> ptr \<Rightarrow> u32 \<Rightarrow> 'a kvfs_scheme
    \<Rightarrow> (int \<times> 'a kvfs_scheme) option" where
  "fiu_send yield slave rq op size_in rs size_out s = do {
     S \<leftarrow> slaves s slave;
     fiu_channel_read_rw yield slave rq size_in rs size_out (mem_upd (put_header rq op (sl_id S)) s)
   }"

section \<open>Operations on a file system\<close>

definition fiu_lookup_end :: "ptr \<Rightarrow> ptr \<Rightarrow> ptr \<Rightarrow> int \<Rightarrow> 'a kvfs_scheme \<Rightarrow> (int \<times> 'a kvfs_scheme) option" where
  "fiu_lookup_end pdevice a slave ret s = do {
     P \<leftarrow> procs s pdevice;
     s \<leftarrow> as_unmap as_glue_dispatcher (p_as P) a AS_UNMAP_RELEASE s;
     (_, s) \<leftarrow> channel_slave_close slave s;
     Some (ret, s)
   }"

definition fiu_lookup :: "('a kvfs_scheme \<Rightarrow> 'a kvfs_scheme option) \<Rightarrow> (u32 \<Rightarrow> u32 \<Rightarrow> u32 \<Rightarrow> 'a kvfs_scheme \<Rightarrow> 'a kvfs_scheme option) \<Rightarrow> ptr
    \<Rightarrow> nat \<Rightarrow> ptr \<Rightarrow> u16 \<Rightarrow> u16 \<Rightarrow> ptr \<Rightarrow> 'a kvfs_scheme \<Rightarrow> (int \<times> 'a kvfs_scheme) option" where
  "fiu_lookup yield kcopy rq root path uid gid resp s = do {
     c \<leftarrow> fiu_channel root s;
     (ret, slave, s) \<leftarrow> channel_open c None s;
     if ret < 0 then Some (ret, s)
     else do {
       let path_empty = (kbytes s path = 0);
       let path = (if path_empty then lit_slash s else path);
       C \<leftarrow> chans s c;
       let pdevice = ch_proc C;
       n \<leftarrow> strlen path (kbytes s);
       let path_size = (ucast n :: u16);
       let s = mem_upd (put_half (rq + 8) path_size) s;
       P \<leftarrow> procs s pdevice;
       (a, s) \<leftarrow> as_map as_glue_dispatcher (p_as P) 0 0 (ucast path_size) (AS_MAP_USER OR AS_MAP_WRITE) s;
       let s = mem_upd (put_word (rq + 4) a) s;
       if a = 0 then do { (_, s) \<leftarrow> channel_slave_close slave s; Some (- ENOMEM, s) }
       else do {
         th \<leftarrow> threads s (current s);
         Q \<leftarrow> procs s (th_parent th);
         (ret, s) \<leftarrow> as_copy as_glue_dispatcher kcopy (p_as Q) (p_as P) path a (ucast path_size + 1) s;
         if ret < 0 then fiu_lookup_end pdevice a slave ret s
         else do {
           let s = mem_upd (put_half (rq + 12) gid) (mem_upd (put_half (rq + 10) uid) s);
           (ret, s) \<leftarrow> fiu_send yield slave rq VFS_LOOKUP 16 resp 48 s;
           if ret < 0 then fiu_lookup_end pdevice a slave ret s
           else do {
             (_, s) \<leftarrow> channel_slave_close slave s;
             let s = (if path_empty then mem_upd (set_processed resp 0) s else s);
             P \<leftarrow> procs s pdevice;
             s \<leftarrow> as_unmap as_glue_dispatcher (p_as P) a AS_UNMAP_RELEASE s;
             if int_at resp s < 0 then Some (int_at resp s, s) else Some (0, s)
           }
         }
       }
     }
   }"

definition fiu_stat :: "('a kvfs_scheme \<Rightarrow> 'a kvfs_scheme option) \<Rightarrow> ptr \<Rightarrow> ptr \<Rightarrow> nat \<Rightarrow> u16 \<Rightarrow> u16 \<Rightarrow> u32 \<Rightarrow> ptr \<Rightarrow> 'a kvfs_scheme
    \<Rightarrow> (int \<times> 'a kvfs_scheme) option" where
  "fiu_stat yield rq rs root uid gid ino buf s = do {
     f \<leftarrow> fiu_fs_of root s;
     if fiu_ops f AND VFS_OPS_GETDIRENT = 0 then Some (- ENOSYS, s)
     else do {
       c \<leftarrow> fiu_channel root s;
       (ret, slave, s) \<leftarrow> channel_open c None s;
       if ret < 0 then Some (ret, s)
       else do {
         let s = mem_upd (put_word (rq + 4) ino) (mem_upd (put_half (rq + 10) gid) (mem_upd (put_half (rq + 8) uid) s));
         (ret, s) \<leftarrow> fiu_send yield slave rq VFS_STAT 12 rs 60 s;
         (_, s) \<leftarrow> channel_slave_close slave s;
         if ret < 0 then Some (ret, s)
         else if int_at rs s < 0 then Some (int_at rs s, s)
         else Some (int_at rs s, mem_upd (\<lambda>m. snd (memcpy buf (rs + 4) 56 m)) s)
       }
     }
   }"

definition fiu_mount :: "('a kvfs_scheme \<Rightarrow> 'a kvfs_scheme option) \<Rightarrow> ptr \<Rightarrow> ptr \<Rightarrow> nat \<Rightarrow> u32 \<Rightarrow> int \<Rightarrow> 'a kvfs_scheme
    \<Rightarrow> (int \<times> 'a kvfs_scheme) option" where
  "fiu_mount yield rq rs root ino mount_nb s = do {
     f \<leftarrow> fiu_fs_of root s;
     if fiu_ops f AND VFS_OPS_MOUNT = 0 then Some (- ENOSYS, s)
     else do {
       c \<leftarrow> fiu_channel root s;
       (ret, slave, s) \<leftarrow> channel_open c None s;
       if ret < 0 then Some (ret, s)
       else do {
         let s = mem_upd (put_word (rq + 8) (word_of_int mount_nb)) (mem_upd (put_word (rq + 4) ino) s);
         (ret, s) \<leftarrow> fiu_send yield slave rq VFS_MOUNT 12 rs 4 s;
         (_, s) \<leftarrow> channel_slave_close slave s;
         if ret < 0 then Some (ret, s) else Some (int_at rs s, s)
       }
     }
   }"

definition fiu_getdirent :: "('a kvfs_scheme \<Rightarrow> 'a kvfs_scheme option) \<Rightarrow> ptr \<Rightarrow> ptr \<Rightarrow> nat \<Rightarrow> u32 \<Rightarrow> ptr \<Rightarrow> int \<Rightarrow> 'a kvfs_scheme
    \<Rightarrow> (int \<times> 'a kvfs_scheme) option" where
  "fiu_getdirent yield rq rs root ino d index s = do {
     f \<leftarrow> fiu_fs_of root s;
     if fiu_ops f AND VFS_OPS_GETDIRENT = 0 then Some (- ENOSYS, s)
     else do {
       c \<leftarrow> fiu_channel root s;
       (ret, slave, s) \<leftarrow> channel_open c None s;
       if ret < 0 then Some (ret, s)
       else do {
         let s = mem_upd (put_word (rq + 8) (word_of_int index)) (mem_upd (put_word (rq + 4) ino) s);
         (ret, s) \<leftarrow> fiu_send yield slave rq VFS_GETDIRENT 12 rs 264 s;
         (_, s) \<leftarrow> channel_slave_close slave s;
         if ret < 0 then Some (ret, s)
         else if int_at rs s < 0 then Some (int_at rs s, s)
         else do {
           let s = mem_upd (\<lambda>m. snd (memcpy d (rs + 4) 260 m)) s;
           Some (int_at rs s, s)
         }
       }
     }
   }"

section \<open>Operations on files\<close>

definition sizeof_fiu_file_private :: u32 where "sizeof_fiu_file_private = 12"

definition fiu_open_error :: "ptr \<Rightarrow> int \<Rightarrow> 'a kvfs_scheme \<Rightarrow> (int \<times> 'a kvfs_scheme) option" where
  "fiu_open_error priv ret s = do { s \<leftarrow> kfree priv s; Some (ret, s\<lparr>fiu_files := (fiu_files s)(priv := None)\<rparr>) }"

text \<open>The channel and the operations that a file gets, from its mount point or from its device.\<close>

definition fiu_target :: "fref \<Rightarrow> 'a kvfs_scheme \<Rightarrow> (ptr \<times> u32) option" where
  "fiu_target file s = do {
     f \<leftarrow> get_file file s;
     case f_mount f of
       Some root \<Rightarrow> do { F \<leftarrow> fiu_fs_of root s; c \<leftarrow> fiu_channel root s; Some (c, fiu_ops F) }
     | None \<Rightarrow> do {
         n \<leftarrow> inodes s (f_inode f);
         d \<leftarrow> device_get (i_dev n) s;
         c \<leftarrow> fiu_devs s (d_private (devices s ! d));
         Some (c, d_ops (devices s ! d))
       }
   }"

definition fiu_open :: "('a kvfs_scheme \<Rightarrow> 'a kvfs_scheme option) \<Rightarrow> ptr \<Rightarrow> ptr
    \<Rightarrow> fref \<Rightarrow> u32 \<Rightarrow> int \<Rightarrow> u16 \<Rightarrow> u16 \<Rightarrow> int \<Rightarrow> u32 \<Rightarrow> 'a kvfs_scheme \<Rightarrow> (int \<times> 'a kvfs_scheme) option" where
  "fiu_open yield rq rs file ino p uid gid fl mode s = do {
     (priv, s) \<leftarrow> kmalloc sizeof_fiu_file_private s;
     if priv = NULL then Some (- ENOMEM, s)
     else do {
       (c, ops) \<leftarrow> fiu_target file s;
       (ret, slave, s) \<leftarrow> channel_open c None s;
       if ret < 0 then fiu_open_error priv ret s
       else do {
         let s = mem_upd (put_word (rq + 20) (word_of_int p) \<circ> put_word (rq + 16) mode \<circ> put_word (rq + 12) (word_of_int fl)
                          \<circ> put_half (rq + 10) gid \<circ> put_half (rq + 8) uid \<circ> put_word (rq + 4) ino) s;
         (ret, s) \<leftarrow> fiu_send yield slave rq VFS_OPEN 24 rs 8 s;
         let ret = (if ret < 0 then ret else int_at rs s);
         if ret < 0 then do { (_, s) \<leftarrow> channel_slave_close slave s; fiu_open_error priv ret s }
         else do {
           let s = s\<lparr>fiu_files := (fiu_files s)(priv \<mapsto> \<lparr>priv_slave = slave, priv_ops = ops\<rparr>)\<rparr>;
           let s = file_upd file (\<lambda>f. f\<lparr>f_private := priv\<rparr>) s;
           Some (int_at (rs + 4) s, s)
         }
       }
     }
   }"

text \<open>The structure \<^verbatim>\<open>struct req_rdwr\<close> of the caller, as bytes at \<open>rq\<close>.\<close>

definition put_req :: "ptr \<Rightarrow> req_rdwr \<Rightarrow> mem \<Rightarrow> mem" where
  "put_req rq r = put_word (rq + 20) (rw_data r) \<circ> put_long (rq + 12) (rw_off r) \<circ> put_word (rq + 8) (rw_size r)
     \<circ> put_word (rq + 4) (rw_inode r) \<circ> put_header rq (rw_op r) (rw_slave_id r)"

definition fiu_read_write :: "('a kvfs_scheme \<Rightarrow> 'a kvfs_scheme option) \<Rightarrow> (u32 \<Rightarrow> u32 \<Rightarrow> u32 \<Rightarrow> 'a kvfs_scheme \<Rightarrow> 'a kvfs_scheme option) \<Rightarrow> ptr \<Rightarrow> ptr
    \<Rightarrow> fref \<Rightarrow> ptr \<Rightarrow> req_rdwr \<Rightarrow> ptr \<Rightarrow> u16 \<Rightarrow> 'a kvfs_scheme \<Rightarrow> (int \<times> req_rdwr \<times> 'a kvfs_scheme) option" where
  "fiu_read_write yield kcopy rq rs file p req buf op s = do {
     f \<leftarrow> get_file file s;
     F \<leftarrow> fiu_files s (f_private f);
     if priv_ops F AND ucast op = 0 then Some (- ENOSYS, req, s)
     else do {
       S \<leftarrow> slaves s (priv_slave F);
       C \<leftarrow> chans s (sl_parent S);
       let pdevice = ch_proc C;
       let req = req\<lparr>rw_op := op, rw_slave_id := sl_id S\<rparr>;
       D \<leftarrow> procs s pdevice;
       (a, s) \<leftarrow> as_map as_glue_dispatcher (p_as D) 0 0 (rw_size req) (AS_MAP_USER OR AS_MAP_WRITE) s;
       let req = req\<lparr>rw_data := a\<rparr>;
       if a = 0 then Some (- ENOMEM, req, s)
       else do {
         P \<leftarrow> procs s p;
         (ret, s) \<leftarrow> (if op = VFS_WRITE then as_copy as_glue_dispatcher kcopy (p_as P) (p_as D) buf a (rw_size req) s else Some (0, s));
         (ret, req, s) \<leftarrow> (if ret < 0 then Some (ret, req, s)
           else do {
             (ret, s) \<leftarrow> fiu_channel_read_rw yield (priv_slave F) rq 24 rs 8 (mem_upd (put_req rq req) s);
             if ret < 0 then Some (ret, req, s)
             else if int_at rs s < 0 then Some (int_at rs s, req, s)
             else do {
               D \<leftarrow> procs s pdevice;
               P \<leftarrow> procs s p;
               (ret, s) \<leftarrow> (if op = VFS_READ then as_copy as_glue_dispatcher kcopy (p_as D) (p_as P) a buf (get_word (rs + 4) (kbytes s)) s else Some (ret, s));
               if ret = 0 then Some (int_at (rs + 4) s, req\<lparr>rw_off := rw_off req + word_of_int (int_at (rs + 4) s)\<rparr>, s)
               else Some (ret, req, s)
             }
           });
         D \<leftarrow> procs s pdevice;
         s \<leftarrow> as_unmap as_glue_dispatcher (p_as D) a AS_UNMAP_RELEASE s;
         Some (ret, req, s)
       }
     }
   }"

definition fiu_ioctl :: "('a kvfs_scheme \<Rightarrow> 'a kvfs_scheme option) \<Rightarrow> ptr \<Rightarrow> ptr \<Rightarrow> fref \<Rightarrow> req_ioctl \<Rightarrow> ptr \<Rightarrow> 'a kvfs_scheme
    \<Rightarrow> (int \<times> 'a kvfs_scheme) option" where
  "fiu_ioctl yield rq rs file req argp s = do {
     f \<leftarrow> get_file file s;
     F \<leftarrow> fiu_files s (f_private f);
     let s = mem_upd (put_word (rq + 16) (word_of_int (io_argp req)) \<circ> put_word (rq + 12) (word_of_int (io_with_argp req))
                      \<circ> put_word (rq + 8) (word_of_int (io_request req)) \<circ> put_word (rq + 4) (io_inode req)) s;
     (ret, s) \<leftarrow> fiu_send yield (priv_slave F) rq VFS_IOCTL 20 rs 12 s;
     if ret < 0 then Some (ret, s)
     else if int_at rs s < 0 then Some (int_at rs s, s)
     else if argp \<noteq> NULL \<and> int_at (rs + 4) s \<noteq> 0 then Some (0, mem_upd (\<lambda>m. put_word argp (get_word (rs + 8) m) m) s)
     else Some (0, s)
   }"

definition fiu_dup :: "fref \<Rightarrow> fref \<Rightarrow> 'a kvfs_scheme \<Rightarrow> (int \<times> 'a kvfs_scheme) option" where
  "fiu_dup f_new f_old s = do {
     f \<leftarrow> get_file f_old s;
     let old_priv = f_private f;
     (new_priv, s) \<leftarrow> kmalloc sizeof_fiu_file_private s;
     if new_priv = NULL then Some (- ENOMEM, s)
     else do {
       F \<leftarrow> fiu_files s old_priv;
       S \<leftarrow> slaves s (priv_slave F);
       (ret, slave, s) \<leftarrow> channel_open (sl_parent S) None s;
       if ret < 0 then do { s \<leftarrow> kfree new_priv s; Some (ret, s) }
       else do {
         let s = s\<lparr>fiu_files := (fiu_files s)(new_priv \<mapsto> \<lparr>priv_slave = slave, priv_ops = priv_ops F\<rparr>)\<rparr>;
         Some (0, file_upd f_new (\<lambda>f. f\<lparr>f_private := new_priv\<rparr>) s)
       }
     }
   }"

definition fiu_close :: "('a kvfs_scheme \<Rightarrow> 'a kvfs_scheme option) \<Rightarrow> ptr \<Rightarrow> ptr \<Rightarrow> fref \<Rightarrow> u32 \<Rightarrow> 'a kvfs_scheme
    \<Rightarrow> (int \<times> 'a kvfs_scheme) option" where
  "fiu_close yield rq rs file ino s = do {
     f \<leftarrow> get_file file s;
     let private = f_private f;
     F \<leftarrow> fiu_files s private;
     let s = mem_upd (put_word (rq + 4) ino) s;
     (ret, s) \<leftarrow> fiu_send yield (priv_slave F) rq VFS_CLOSE 8 rs 4 s;
     F \<leftarrow> fiu_files s private;
     (_, s) \<leftarrow> channel_slave_close (priv_slave F) s;
     s \<leftarrow> kfree private s;
     let s = s\<lparr>fiu_files := (fiu_files s)(private := None)\<rparr>;
     if ret < 0 then Some (ret, s) else Some (int_at rs s, s)
   }"

section \<open>Making an instance\<close>

definition sizeof_fiu_fs_instance :: u32 where "sizeof_fiu_fs_instance = 4"

definition fiu_create :: "('a kvfs_scheme \<Rightarrow> 'a kvfs_scheme option) \<Rightarrow> ptr \<Rightarrow> ptr \<Rightarrow> ptr \<Rightarrow> ptr \<Rightarrow> ptr \<Rightarrow> 'a kvfs_scheme
    \<Rightarrow> (int \<times> 'a kvfs_scheme) option" where
  "fiu_create yield rq rs fi dev mount_pt s = do {
     dev_id \<leftarrow> device_get_from_name dev s;
     if dev_id < 0 then Some (dev_id, s)
     else do {
       (priv, s) \<leftarrow> kmalloc sizeof_fiu_fs_instance s;
       if priv = NULL then Some (- ENOMEM, s)
       else do {
         I \<leftarrow> fis s fi;
         F \<leftarrow> fss s (fi_parent I);
         G \<leftarrow> fiu_fss s (fs_private F);
         (ret, slave, s) \<leftarrow> channel_open (fiu_master G) None s;
         if ret < 0 then do { s \<leftarrow> kfree priv s; Some (ret, s) }
         else do {
           (_, m) \<leftarrow> strncpy (rq + 4) dev VFS_DEV_MAX_NAMEL (kbytes s);
           (ret, s) \<leftarrow> fiu_send yield slave rq VFS_FS_CREATE 20 rs 20 (s\<lparr>kbytes := m\<rparr>);
           let ret = (if ret < 0 then ret else if int_at rs s < 0 then int_at rs s else 0);
           (c, s) \<leftarrow> (if ret < 0 then Some (NULL, s) else channel_from_name (rs + 4) s);
           (_, s) \<leftarrow> channel_slave_close slave s;
           if ret < 0 \<or> c = NULL
           then do { s \<leftarrow> kfree priv s; Some (if ret < 0 then ret else - EINVAL, s) }
           else Some (0, s\<lparr>fis := (fis s)(fi := map_option (\<lambda>I. I\<lparr>fi_private := priv\<rparr>) (fis s fi)), fiu_inst := (fiu_inst s)(priv \<mapsto> c)\<rparr>)
         }
       }
     }
   }"

section \<open>Tables\<close>

definition fiu_fs_ops :: "('a kvfs_scheme \<Rightarrow> 'a kvfs_scheme option) \<Rightarrow> (u32 \<Rightarrow> u32 \<Rightarrow> u32 \<Rightarrow> 'a kvfs_scheme \<Rightarrow> 'a kvfs_scheme option) \<Rightarrow> ptr \<Rightarrow> ptr
    \<Rightarrow> 'a kvfs_scheme fs_operation" where
  "fiu_fs_ops yield kcopy rq rs = \<lparr>fso_lookup = Some (fiu_lookup yield kcopy rq), fso_mkdir = None, fso_mknod = None,
     fso_stat = Some (fiu_stat yield rq rs), fso_mount = Some (fiu_mount yield rq rs), fso_getdirent = Some (fiu_getdirent yield rq rs)\<rparr>"

definition fiu_f_ops :: "('a kvfs_scheme \<Rightarrow> 'a kvfs_scheme option) \<Rightarrow> (u32 \<Rightarrow> u32 \<Rightarrow> u32 \<Rightarrow> 'a kvfs_scheme \<Rightarrow> 'a kvfs_scheme option) \<Rightarrow> ptr \<Rightarrow> ptr
    \<Rightarrow> 'a kvfs_scheme file_operation" where
  "fiu_f_ops yield kcopy rq rs = \<lparr>fo_open = Some (fiu_open yield rq rs),
     fo_read = Some (\<lambda>file p req buf. fiu_read_write yield kcopy rq rs file p req buf VFS_READ),
     fo_write = Some (\<lambda>file p req buf. fiu_read_write yield kcopy rq rs file p req buf VFS_WRITE),
     fo_ioctl = Some (fiu_ioctl yield rq rs), fo_dup = Some fiu_dup, fo_close = Some (fiu_close yield rq rs)\<rparr>"

definition fiu_fs_super_ops :: "('a kvfs_scheme \<Rightarrow> 'a kvfs_scheme option) \<Rightarrow> ptr \<Rightarrow> ptr \<Rightarrow> 'a kvfs_scheme fs_super_operation" where
  "fiu_fs_super_ops yield rq rs = \<lparr>fsu_create = Some (fiu_create yield rq rs)\<rparr>"

end
