(* ===== verification/Vfs.thy ===== *)
theory Vfs
  imports Fiu
begin

unbundle bit_operations_syntax

text \<open>
  The operations on files and paths, \<^verbatim>\<open>kernel/core/fs/ops\<close>, and mounting, \<^verbatim>\<open>kernel/core/fs/vfs/mount.c\<close> and \<^verbatim>\<open>vfs.c\<close>. They reach the
  channels, the devices and the file systems through their tables of functions, which are put together here. The
  results: duplicating and closing descriptors keep the reference counts of inodes, a path through a mount
  point of the file system of devices is resolved to the device, and the offset of a file.
\<close>

section \<open>The tables of the kernel\<close>

text \<open>
  What the operations need from their surroundings: the run of the system while a thread is blocked, the copy
  between mapped ranges, and the addresses of the local variables for a request, an answer, the result of a lookup and
  the attributes of a file.
\<close>

record 's kenv =
  en_yield :: "'s \<Rightarrow> 's option"
  en_kcopy :: "u32 \<Rightarrow> u32 \<Rightarrow> u32 \<Rightarrow> 's \<Rightarrow> 's option"
  en_rq :: ptr
  en_rs :: ptr
  en_res :: ptr
  en_stat :: ptr

fun kernel_f_ops :: "'a kvfs_scheme kenv \<Rightarrow> fops \<Rightarrow> 'a kvfs_scheme file_operation" where
  "kernel_f_ops e ChannelSlaveFops = channel_slave_f_ops (en_yield e)"
| "kernel_f_ops e ChannelMasterFops = channel_master_f_ops (en_yield e)"
| "kernel_f_ops e DevfsFops = devfs_f_ops"
| "kernel_f_ops e FiuFops = fiu_f_ops (en_yield e) (en_kcopy e) (en_rq e) (en_rs e)"

fun kernel_fs_ops :: "'a kvfs_scheme kenv \<Rightarrow> fstab \<Rightarrow> 'a kvfs_scheme fs_operation" where
  "kernel_fs_ops e DevfsTab = devfs_ops"
| "kernel_fs_ops e FiuTab = fiu_fs_ops (en_yield e) (en_kcopy e) (en_rq e) (en_rs e)"

fun kernel_super_ops :: "'a kvfs_scheme kenv \<Rightarrow> fstab \<Rightarrow> 'a kvfs_scheme fs_super_operation" where
  "kernel_super_ops e DevfsTab = devfs_sup_ops"
| "kernel_super_ops e FiuTab = fiu_fs_super_ops (en_yield e) (en_rq e) (en_rs e)"

text \<open>A null thread is a request of the kernel.\<close>

definition get_parent :: "ptr \<Rightarrow> 'a kproc_scheme \<Rightarrow> ptr option" where
  "get_parent t s = (if t = NULL then Some (process_get 0 s) else map_option th_parent (threads s t))"

definition creds :: "ptr \<Rightarrow> 'a kproc_scheme \<Rightarrow> (u16 \<times> u16) option" where
  "creds t s = (if t = NULL then Some (0, 0) else map_option (\<lambda>th. (th_uid th, th_gid th)) (threads s t))"

definition mount_fs :: "nat \<Rightarrow> 'a kvfs_scheme \<Rightarrow> fs option" where
  "mount_fs r s = do { I \<leftarrow> fis s (mt_fi (mounts s ! r)); fss s (fi_parent I) }"

section \<open>Descriptors\<close>

definition vfs_close :: "'a kvfs_scheme kenv \<Rightarrow> ptr \<Rightarrow> int \<Rightarrow> 'a kvfs_scheme \<Rightarrow> (int \<times> 'a kvfs_scheme) option" where
  "vfs_close e t fd s = do {
     p \<leftarrow> (if t = NULL then Some (process_get 0 s) else map_option th_parent (threads s (current s)));
     (ret, file) \<leftarrow> process_file_from_fd p fd s;
     if ret < 0 then Some (ret, s)
     else do {
       f \<leftarrow> get_file file s;
       ops \<leftarrow> f_ops f;
       (ret, s) \<leftarrow> (case fo_close (kernel_f_ops e ops) of
           None \<Rightarrow> Some (ret, s)
         | Some close \<Rightarrow> do { n \<leftarrow> inodes s (f_inode f); close file (i_inode n) s });
       if ret < 0 then Some (ret, s)
       else do {
         f \<leftarrow> get_file file s;
         s \<leftarrow> inode_del (f_inode f) s;
         s \<leftarrow> process_free_fd p fd s;
         Some (0, s)
       }
     }
   }"

definition vfs_dup :: "'a kvfs_scheme kenv \<Rightarrow> ptr \<Rightarrow> int \<Rightarrow> 'a kvfs_scheme \<Rightarrow> (int \<times> 'a kvfs_scheme) option" where
  "vfs_dup e t oldfd s = do {
     p \<leftarrow> get_parent t s;
     (ex, s) \<leftarrow> process_fd_exist p oldfd s;
     if \<not> ex then Some (- EBADF, s)
     else do {
       (newfd, s) \<leftarrow> process_new_fd p s;
       if newfd < 0 then Some (newfd, s)
       else do {
         (ret, s) \<leftarrow> process_dup_file (kernel_f_ops e) (p, nat newfd) (p, nat oldfd) s;
         if ret < 0 then do { s \<leftarrow> process_free_fd p newfd s; Some (ret, s) }
         else Some (newfd, s)
       }
     }
   }"

definition vfs_dup2 :: "'a kvfs_scheme kenv \<Rightarrow> ptr \<Rightarrow> int \<Rightarrow> int \<Rightarrow> 'a kvfs_scheme \<Rightarrow> (int \<times> 'a kvfs_scheme) option" where
  "vfs_dup2 e t oldfd newfd s = do {
     p \<leftarrow> get_parent t s;
     (ex, s) \<leftarrow> process_fd_exist p oldfd s;
     if \<not> ex then Some (- EBADF, s)
     else if newfd < 0 \<or> newfd \<ge> int PROCESS_MAX_OPEN_FD then Some (- EBADF, s)
     else do {
       f \<leftarrow> get_file (p, nat newfd) s;
       (ret, s) \<leftarrow> (if f_used f then vfs_close e t newfd s else Some (0, s));
       if ret < 0 then Some (ret, s)
       else do {
         P \<leftarrow> procs s p;
         l \<leftarrow> spinlock_lock (files_lock P);
         let s = proc_upd p (\<lambda>P. P\<lparr>files_lock := l\<rparr>) s;
         let s = file_upd (p, nat newfd) (\<lambda>f. f\<lparr>f_used := True\<rparr>) s;
         let s = proc_upd p (\<lambda>P. P\<lparr>files_lock := spinlock_unlock l\<rparr>) s;
         (ret, s) \<leftarrow> process_dup_file (kernel_f_ops e) (p, nat newfd) (p, nat oldfd) s;
         if ret < 0 then do { s \<leftarrow> process_free_fd p newfd s; Some (ret, s) }
         else Some (newfd, s)
       }
     }
   }"

text \<open>The fields of the request that the caller does not set are 0; every operation that uses them sets them first.\<close>

definition rdwr_request :: "vfs_file \<Rightarrow> u32 \<Rightarrow> 'a kfiles_scheme \<Rightarrow> req_rdwr option" where
  "rdwr_request f count s = do {
     ino \<leftarrow> (if f_inode f = NULL then Some 0 else map_option i_inode (inodes s (f_inode f)));
     Some \<lparr>rw_op = 0, rw_slave_id = 0, rw_inode = ino, rw_size = count, rw_off = word_of_int (f_offset f), rw_data = NULL\<rparr>
   }"

definition vfs_read :: "'a kvfs_scheme kenv \<Rightarrow> ptr \<Rightarrow> int \<Rightarrow> ptr \<Rightarrow> u32 \<Rightarrow> 'a kvfs_scheme \<Rightarrow> (int \<times> 'a kvfs_scheme) option" where
  "vfs_read e t fd buf count s = do {
     p \<leftarrow> get_parent t s;
     (ret, file) \<leftarrow> process_file_from_fd p fd s;
     if ret < 0 then Some (ret, s)
     else do {
       f \<leftarrow> get_file file s;
       ops \<leftarrow> f_ops f;
       case fo_read (kernel_f_ops e ops) of
         None \<Rightarrow> Some (- ENOSYS, s)
       | Some read \<Rightarrow> do {
           req \<leftarrow> rdwr_request f count s;
           (ret, req, s) \<leftarrow> read file p req buf s;
           if ret < 0 then Some (ret, s)
           else Some (ret, file_upd file (\<lambda>f. f\<lparr>f_offset := sint (rw_off req)\<rparr>) s)
         }
     }
   }"

definition vfs_write :: "'a kvfs_scheme kenv \<Rightarrow> ptr \<Rightarrow> int \<Rightarrow> ptr \<Rightarrow> u32 \<Rightarrow> 'a kvfs_scheme \<Rightarrow> (int \<times> 'a kvfs_scheme) option" where
  "vfs_write e t fd buf count s = do {
     p \<leftarrow> get_parent t s;
     (ret, file) \<leftarrow> process_file_from_fd p fd s;
     if ret < 0 then Some (ret, s)
     else do {
       f \<leftarrow> get_file file s;
       ops \<leftarrow> f_ops f;
       case fo_write (kernel_f_ops e ops) of
         None \<Rightarrow> Some (- ENOSYS, s)
       | Some write \<Rightarrow> do {
           req \<leftarrow> rdwr_request f count s;
           (ret, req, s) \<leftarrow> write file p req buf s;
           if ret < 0 then Some (ret, s)
           else Some (ret, file_upd file (\<lambda>f. f\<lparr>f_offset := sint (rw_off req)\<rparr>) s)
         }
     }
   }"

definition vfs_ioctl :: "'a kvfs_scheme kenv \<Rightarrow> ptr \<Rightarrow> int \<Rightarrow> int \<Rightarrow> ptr \<Rightarrow> 'a kvfs_scheme \<Rightarrow> (int \<times> 'a kvfs_scheme) option" where
  "vfs_ioctl e t fd request argp s = do {
     p \<leftarrow> get_parent t s;
     (ret, file) \<leftarrow> process_file_from_fd p fd s;
     if ret < 0 then Some (ret, s)
     else do {
       f \<leftarrow> get_file file s;
       ops \<leftarrow> f_ops f;
       case fo_ioctl (kernel_f_ops e ops) of
         None \<Rightarrow> Some (- ENOSYS, s)
       | Some ioctl \<Rightarrow> do {
           ino \<leftarrow> (if f_inode f = NULL then Some 0 else map_option i_inode (inodes s (f_inode f)));
           ioctl file \<lparr>io_op = 0, io_slave_id = 0, io_inode = ino, io_request = request, io_with_argp = (if argp \<noteq> NULL then 1 else 0),
             io_argp = (if argp \<noteq> NULL then int_at argp s else 0)\<rparr> argp s
         }
     }
   }"

definition VFS_SEEK_SET :: u32 where "VFS_SEEK_SET = 1"

definition VFS_SEEK_CUR :: u32 where "VFS_SEEK_CUR = 2"

definition VFS_SEEK_END :: u32 where "VFS_SEEK_END = 4"

text \<open>
  \<^verbatim>\<open>off_t\<close> is a signed 64-bit integer; \<^verbatim>\<open>old_off\<close> is a \<^verbatim>\<open>size_t\<close>, so that it holds the low 32 bits. The check of the descriptor
  lets the number 255 pass: it names the last entry of the array.
\<close>

definition vfs_lseek :: "ptr \<Rightarrow> int \<Rightarrow> int \<Rightarrow> u32 \<Rightarrow> 'a kproc_scheme \<Rightarrow> (int \<times> 'a kproc_scheme) option" where
  "vfs_lseek t fd offset whence s = do {
     p \<leftarrow> get_parent t s;
     if whence AND VFS_SEEK_SET = 0 \<and> whence AND VFS_SEEK_CUR = 0 \<and> whence AND VFS_SEEK_END = 0 then Some (- EINVAL, s)
     else if fd < 0 \<or> fd > int PROCESS_MAX_OPEN_FD then Some (- EINVAL, s)
     else do {
       let file = (p, nat fd);
       f \<leftarrow> get_file file s;
       if \<not> f_used f then Some (- EINVAL, s)
       else if whence AND VFS_SEEK_SET \<noteq> 0
       then if offset < 0 then Some (- EINVAL, s) else Some (0, file_upd file (\<lambda>f. f\<lparr>f_offset := offset\<rparr>) s)
       else if whence AND VFS_SEEK_CUR \<noteq> 0
       then do {
         let old_off = uint (word_of_int (f_offset f) :: u32);
         let new_off = sint (word_of_int (f_offset f + offset) :: u64);
         let s = file_upd file (\<lambda>f. f\<lparr>f_offset := new_off\<rparr>) s;
         if offset < 0 \<and> new_off > old_off \<or> offset > 0 \<and> new_off < old_off
         then Some (- EINVAL, file_upd file (\<lambda>f. f\<lparr>f_offset := old_off\<rparr>) s)
         else Some (0, s)
       }
       else None
     }
   }"

section \<open>Paths\<close>

text \<open>
  The loop of \<^verbatim>\<open>vfs_lookup\<close>: \<open>root\<close> is the mount point, \<open>None\<close> for a null pointer, \<open>cp\<close> the copy of the path. The second
  result is the mount point at the end; it has a meaning only when the first one is not negative.
\<close>

partial_function (option) lookup_loop :: "'a kvfs_scheme kenv \<Rightarrow> ptr \<Rightarrow> int \<Rightarrow> u16 \<Rightarrow> u16 \<Rightarrow> ptr \<Rightarrow> ptr \<Rightarrow> nat option \<Rightarrow> int \<Rightarrow> 'a kvfs_scheme
    \<Rightarrow> (int \<times> nat \<times> 'a kvfs_scheme) option" where
  "lookup_loop e path path_len uid gid res cp root processed s =
     (case root of
        None \<Rightarrow> do { s \<leftarrow> kfree cp s; Some (- ENOENT, 0, s) }
      | Some r \<Rightarrow>
          if \<not> mt_used (mounts s ! r) then do { s \<leftarrow> kfree cp s; Some (- ENOENT, 0, s) }
          else do {
            F \<leftarrow> mount_fs r s;
            case fso_lookup (kernel_fs_ops e (fs_ops F)) of
              None \<Rightarrow> do { s \<leftarrow> kfree cp s; Some (- ENOSYS, 0, s) }
            | Some lookup \<Rightarrow> do {
                (ret, s) \<leftarrow> lookup r (path + word_of_int processed) uid gid res s;
                if ret < 0 then do { s \<leftarrow> kfree cp s; Some (ret, 0, s) }
                else do {
                  let k = rl_processed res (kbytes s);
                  let processed = processed + k;
                  if processed = 0 \<or> processed > path_len then do { s \<leftarrow> kfree cp s; Some (- EBADE, 0, s) }
                  else if rl_ret res (kbytes s) = RES_OK \<or> rl_ret res (kbytes s) = RES_KO
                  then do {
                    let s = mem_upd (set_processed res processed) s;
                    s \<leftarrow> kfree cp s;
                    Some (processed, r, s)
                  }
                  else do {
                    let old = kbytes s (cp + word_of_int k);
                    let s = mem_upd (\<lambda>m. m(cp + word_of_int k := 0)) s;
                    root \<leftarrow> vfs_mount_pt_get cp s;
                    let s = mem_upd (\<lambda>m. m(cp + word_of_int k := old)) s;
                    lookup_loop e path path_len uid gid res cp root processed s
                  }
                }
              }
          })"

declare lookup_loop.simps [code]

definition vfs_lookup :: "'a kvfs_scheme kenv \<Rightarrow> ptr \<Rightarrow> ptr \<Rightarrow> ptr \<Rightarrow> 'a kvfs_scheme \<Rightarrow> (int \<times> nat \<times> 'a kvfs_scheme) option" where
  "vfs_lookup e t path res s = do {
     n \<leftarrow> strlen path (kbytes s);
     (cp, s) \<leftarrow> kmalloc (n + 1) s;
     (uid, gid) \<leftarrow> creds t s;
     if cp = NULL then Some (- ENOMEM, 0, s)
     else do {
       (_, m) \<leftarrow> strcpy cp path (kbytes s);
       lookup_loop e path (sint n) uid gid res cp (Some vfs_root_get) 0 (s\<lparr>kbytes := m\<rparr>)
     }
   }"

definition vfs_mkdir :: "'a kvfs_scheme kenv \<Rightarrow> ptr \<Rightarrow> ptr \<Rightarrow> u32 \<Rightarrow> 'a kvfs_scheme \<Rightarrow> (int \<times> 'a kvfs_scheme) option" where
  "vfs_mkdir e t path mode s = do {
     (uid, gid) \<leftarrow> creds t s;
     (ret, mount_pt, s) \<leftarrow> vfs_lookup e t path (en_res e) s;
     if ret < 0 then Some (ret, s)
     else do {
       F \<leftarrow> mount_fs mount_pt s;
       case fso_mkdir (kernel_fs_ops e (fs_ops F)) of
         None \<Rightarrow> Some (- ENOSYS, s)
       | Some mkdir \<Rightarrow> do {
           n \<leftarrow> strlen path (kbytes s);
           if word_of_int ret = n then Some (- EEXIST, s)
           else mkdir mount_pt (path + word_of_int ret) (rl_inode (en_res e) (kbytes s)) uid gid mode s
         }
     }
   }"

definition vfs_mknod :: "'a kvfs_scheme kenv \<Rightarrow> ptr \<Rightarrow> ptr \<Rightarrow> u32 \<Rightarrow> u16 \<Rightarrow> 'a kvfs_scheme \<Rightarrow> (int \<times> 'a kvfs_scheme) option" where
  "vfs_mknod e t path mode dev s = do {
     (uid, gid) \<leftarrow> creds t s;
     (ret, mount_pt, s) \<leftarrow> vfs_lookup e t path (en_res e) s;
     if ret < 0 then Some (ret, s)
     else do {
       F \<leftarrow> mount_fs mount_pt s;
       case fso_mknod (kernel_fs_ops e (fs_ops F)) of
         None \<Rightarrow> Some (- ENOSYS, s)
       | Some mknod \<Rightarrow> do {
           n \<leftarrow> strlen path (kbytes s);
           if word_of_int ret = n then Some (- EEXIST, s)
           else mknod mount_pt (path + word_of_int ret) (rl_inode (en_res e) (kbytes s)) uid gid mode (uint dev) s
         }
     }
   }"

definition vfs_stat :: "'a kvfs_scheme kenv \<Rightarrow> ptr \<Rightarrow> ptr \<Rightarrow> ptr \<Rightarrow> 'a kvfs_scheme \<Rightarrow> (int \<times> 'a kvfs_scheme) option" where
  "vfs_stat e t path buf s = do {
     (uid, gid) \<leftarrow> creds t s;
     (ret, mount_pt, s) \<leftarrow> vfs_lookup e t path (en_res e) s;
     if ret < 0 then Some (ret, s)
     else do {
       n \<leftarrow> strlen path (kbytes s);
       if n \<noteq> word_of_int (rl_processed (en_res e) (kbytes s)) then Some (- ENOENT, s)
       else do {
         F \<leftarrow> mount_fs mount_pt s;
         case fso_stat (kernel_fs_ops e (fs_ops F)) of
           None \<Rightarrow> Some (- ENOSYS, s)
         | Some stat \<Rightarrow> stat mount_pt uid gid (rl_inode (en_res e) (kbytes s)) buf s
       }
     }
   }"

definition vfs_fstat :: "'a kvfs_scheme kenv \<Rightarrow> ptr \<Rightarrow> int \<Rightarrow> ptr \<Rightarrow> 'a kvfs_scheme \<Rightarrow> (int \<times> 'a kvfs_scheme) option" where
  "vfs_fstat e t fd buf s = do {
     p \<leftarrow> get_parent t s;
     (uid, gid) \<leftarrow> creds t s;
     (ret, file) \<leftarrow> process_file_from_fd p fd s;
     if ret < 0 then Some (ret, s)
     else do {
       f \<leftarrow> get_file file s;
       case f_mount f of
         None \<Rightarrow> Some (- EBADF, s)
       | Some r \<Rightarrow> do {
           F \<leftarrow> mount_fs r s;
           case fso_stat (kernel_fs_ops e (fs_ops F)) of
             None \<Rightarrow> Some (- ENOSYS, s)
           | Some stat \<Rightarrow> do { n \<leftarrow> inodes s (f_inode f); stat r uid gid (i_inode n) buf s }
         }
     }
   }"

text \<open>Unlike \<^verbatim>\<open>vfs_fstat\<close>, this function does not look whether the file has a mount point.\<close>

definition vfs_getdirent :: "'a kvfs_scheme kenv \<Rightarrow> ptr \<Rightarrow> int \<Rightarrow> ptr \<Rightarrow> int \<Rightarrow> 'a kvfs_scheme \<Rightarrow> (int \<times> 'a kvfs_scheme) option" where
  "vfs_getdirent e t fd dirent index s = do {
     p \<leftarrow> get_parent t s;
     (ret, file) \<leftarrow> process_file_from_fd p fd s;
     if ret < 0 then Some (ret, s)
     else do {
       f \<leftarrow> get_file (p, nat fd) s;
       if \<not> f_used f then Some (- EBADF, s)
       else do {
         r \<leftarrow> f_mount f;
         F \<leftarrow> mount_fs r s;
         case fso_getdirent (kernel_fs_ops e (fs_ops F)) of
           None \<Rightarrow> Some (- ENOSYS, s)
         | Some getdirent \<Rightarrow> do { n \<leftarrow> inodes s (f_inode f); getdirent r (i_inode n) dirent index s }
       }
     }
   }"

section \<open>Opening\<close>

definition vfs_open_error :: "ptr \<Rightarrow> int \<Rightarrow> ptr \<Rightarrow> int \<Rightarrow> 'a kvfs_scheme \<Rightarrow> (int \<times> 'a kvfs_scheme) option" where
  "vfs_open_error p fd i ret s = do { s \<leftarrow> process_free_fd p fd s; s \<leftarrow> inode_del i s; Some (ret, s) }"

definition vfs_open :: "'a kvfs_scheme kenv \<Rightarrow> ptr \<Rightarrow> ptr \<Rightarrow> int \<Rightarrow> u32 \<Rightarrow> 'a kvfs_scheme \<Rightarrow> (int \<times> 'a kvfs_scheme) option" where
  "vfs_open e t path fl mode s = do {
     (uid, gid) \<leftarrow> creds t s;
     p \<leftarrow> get_parent t s;
     let res = en_res e;
     (ret, mount_pt, s) \<leftarrow> vfs_lookup e t path res s;
     if ret < 0 then Some (ret, s)
     else do {
       n \<leftarrow> strlen path (kbytes s);
       if word_of_int ret \<noteq> n then Some (- ENOENT, s)
       else do {
         (i, s) \<leftarrow> inode_new mode s;
         if i = NULL then Some (- ENOMEM, s)
         else do {
           (fd, s) \<leftarrow> process_new_fd p s;
           if fd < 0 then do { s \<leftarrow> kfree i s; Some (fd, s\<lparr>inodes := (inodes s)(i := None)\<rparr>) }
           else do {
             let file = (p, nat fd);
             let s = file_upd file (\<lambda>f. f\<lparr>f_inode := i, f_offset := 0\<rparr>) s;
             (ops, inode_open, s) \<leftarrow> (if rl_dev res (kbytes s) < 0
               then do {
                 F \<leftarrow> mount_fs mount_pt s;
                 let s = file_upd file (\<lambda>f. f\<lparr>f_mount := Some mount_pt, f_ops := Some (fs_f_ops F)\<rparr>) s;
                 Some (Some (fs_f_ops F), rl_inode res (kbytes s), inode_upd i (\<lambda>n. n\<lparr>i_dev := 0\<rparr>) s)
               }
               else do {
                 d \<leftarrow> device_get (rl_dev res (kbytes s)) s;
                 let s = file_upd file (\<lambda>f. f\<lparr>f_mount := None, f_ops := d_fops (devices s ! d)\<rparr>) s;
                 Some (d_fops (devices s ! d), - 1, inode_upd i (\<lambda>n. n\<lparr>i_dev := rl_dev res (kbytes s)\<rparr>) s)
               });
             ops \<leftarrow> ops;
             case fo_open (kernel_f_ops e ops) of
               None \<Rightarrow> vfs_open_error p fd i (- ENOSYS) s
             | Some open \<Rightarrow> do {
                 P \<leftarrow> procs s p;
                 (ret, s) \<leftarrow> open file inode_open (pid P) uid gid fl mode s;
                 if ret < 0 then vfs_open_error p fd i ret s
                 else do {
                   _ \<leftarrow> inodes s i;
                   Some (fd, inode_upd i (\<lambda>n. n\<lparr>i_inode := word_of_int ret\<rparr>) s)
                 }
               }
           }
         }
       }
     }
   }"

definition vfs_open_device :: "'a kvfs_scheme kenv \<Rightarrow> ptr \<Rightarrow> ptr \<Rightarrow> int \<Rightarrow> u32 \<Rightarrow> 'a kvfs_scheme \<Rightarrow> (int \<times> 'a kvfs_scheme) option" where
  "vfs_open_device e t name fl mode s = do {
     (uid, gid) \<leftarrow> creds t s;
     p \<leftarrow> get_parent t s;
     dev_id \<leftarrow> device_get_from_name name s;
     if dev_id < 0 then Some (dev_id, s)
     else case device_get dev_id s of
       None \<Rightarrow> Some (- ENODEV, s)
     | Some d \<Rightarrow> do {
         ops \<leftarrow> d_fops (devices s ! d);
         case fo_open (kernel_f_ops e ops) of
           None \<Rightarrow> Some (- ENOSYS, s)
         | Some open \<Rightarrow> do {
             (fd, s) \<leftarrow> process_new_fd p s;
             if fd < 0 then Some (fd, s)
             else do {
               let file = (p, nat fd);
               (i, s) \<leftarrow> inode_new mode s;
               let s = file_upd file (\<lambda>f. f\<lparr>f_inode := i\<rparr>) s;
               if i = NULL then do { s \<leftarrow> process_free_fd p fd s; Some (- ENOMEM, s) }
               else do {
                 let s = file_upd file (\<lambda>f. f\<lparr>f_offset := 0, f_mount := None, f_ops := Some ops\<rparr>) s;
                 let s = inode_upd i (\<lambda>n. n\<lparr>i_dev := dev_id\<rparr>) s;
                 P \<leftarrow> procs s p;
                 (ret, s) \<leftarrow> open file (- 1) (pid P) uid gid fl mode s;
                 f \<leftarrow> get_file file s;
                 if ret < 0
                 then do { s \<leftarrow> inode_del (f_inode f) s; s \<leftarrow> process_free_fd p fd s; Some (ret, s) }
                 else do {
                   _ \<leftarrow> inodes s (f_inode f);
                   Some (fd, inode_upd (f_inode f) (\<lambda>n. n\<lparr>i_inode := word_of_int ret\<rparr>) s)
                 }
               }
             }
           }
       }
   }"

section \<open>Mounting\<close>

definition do_mount :: "'a kvfs_scheme kenv \<Rightarrow> ptr \<Rightarrow> ptr \<Rightarrow> int \<Rightarrow> 'a kvfs_scheme \<Rightarrow> (int \<times> 'a kvfs_scheme) option" where
  "do_mount e t path mount_nb s = do {
     path_size \<leftarrow> strlen path (kbytes s);
     (ret, mount_pt, s) \<leftarrow> vfs_lookup e t path (en_res e) s;
     if ret < 0 then Some (ret, s)
     else do {
       F \<leftarrow> mount_fs mount_pt s;
       case fso_mount (kernel_fs_ops e (fs_ops F)) of
         None \<Rightarrow> Some (- ENOSYS, s)
       | Some mount \<Rightarrow>
           if ret \<noteq> sint path_size then Some (- ENOENT, s)
           else mount mount_pt (rl_inode (en_res e) (kbytes s)) mount_nb s
     }
   }"

definition vfs_mount :: "'a kvfs_scheme kenv \<Rightarrow> ptr \<Rightarrow> ptr \<Rightarrow> ptr \<Rightarrow> ptr \<Rightarrow> 'a kvfs_scheme \<Rightarrow> (int \<times> 'a kvfs_scheme) option" where
  "vfs_mount e t fs_name dev mount_pt s = do {
     (f, s) \<leftarrow> fs_from_name fs_name s;
     if f = NULL then Some (- EINVAL, s)
     else do {
       (mount_nb, s) \<leftarrow> vfs_check_mounts mount_pt s;
       if mount_nb < 0 then Some (mount_nb, s)
       else do {
         let unuse = mount_upd (nat mount_nb) (\<lambda>m. m\<lparr>mt_used := False\<rparr>);
         (ret, fi, s) \<leftarrow> fs_new_instance (kernel_super_ops e) fs_name dev mount_pt s;
         if ret < 0 then Some (ret, unuse s)
         else do {
           (ret, s) \<leftarrow> (if mount_nb \<noteq> 0 then do_mount e t mount_pt mount_nb s else Some (0, s));
           if ret < 0 then Some (ret, unuse s)
           else do {
             n \<leftarrow> strlen mount_pt (kbytes s);
             (path, s) \<leftarrow> kmalloc (n + 1) s;
             let s = mount_upd (nat mount_nb) (\<lambda>m. m\<lparr>mt_path := path\<rparr>) s;
             if path = NULL then Some (- ENOMEM, unuse s)
             else do {
               (_, m) \<leftarrow> strcpy path mount_pt (kbytes s);
               Some (0, mount_upd (nat mount_nb) (\<lambda>m. m\<lparr>mt_fi := fi\<rparr>) (s\<lparr>kbytes := m\<rparr>))
             }
           }
         }
       }
     }
   }"

definition vfs_initialize :: "'a kvfs_scheme kenv \<Rightarrow> 'a kvfs_scheme \<Rightarrow> (int \<times> 'a kvfs_scheme) option" where
  "vfs_initialize e s = do {
     let (ret, s) = channel_initialize s;
     if ret < 0 then Some (ret, s)
     else do {
       let (ret, s) = fs_initialize s;
       if ret < 0 then Some (ret, s)
       else do {
         (ret, s) \<leftarrow> devfs_initialize (kernel_super_ops e) s;
         if ret < 0 then Some (ret, s) else Some (0, s)
       }
     }
   }"

section \<open>Reference counts\<close>

text \<open>The fields on which the reference counts depend.\<close>

definition files_view :: "'a kfiles_scheme \<Rightarrow> (ptr \<Rightarrow> process option) \<times> ptr list \<times> (ptr \<Rightarrow> inode option)" where
  "files_view s = (procs s, processes s, inodes s)"

lemma files_view_heap: "heap_only s s' \<Longrightarrow> files_view s' = files_view s"
  by (erule heap_onlyE) (simp add: files_view_def)

lemma kmalloc_files_view: "kmalloc n s = Some (x, s') \<Longrightarrow> files_view s' = files_view s"
  by (rule files_view_heap, rule kmalloc_heap_only)

lemma kfree_files_view: "kfree x s = Some s' \<Longrightarrow> files_view s' = files_view s"
  by (rule files_view_heap, rule kfree_heap_only)

lemma channel_open_files_view:
  assumes "channel_open c None s = Some (r, x, s')"
  shows "files_view s' = files_view s"
  using assms
  by (auto simp: channel_open_def channel_lock_def channel_unlock_def Let_def files_view_def split: if_splits elim!: bind_SomeE
      dest!: kmalloc_files_view)

lemma file_upd_private_id: "\<exists>x. procs (file_upd r (\<lambda>f. f\<lparr>f_private := x\<rparr>) s) = procs s"
proof (cases "procs s (fst r)")
  case (Some P)
  let ?f = "files P ! snd r"
  have "(files P)[snd r := ?f\<lparr>f_private := f_private ?f\<rparr>] = files P" by simp
  then have "procs (file_upd r (\<lambda>f. f\<lparr>f_private := f_private ?f\<rparr>) s) = procs s" using Some by (simp add: file_upd_def proc_upd_def fun_upd_idem)
  then show ?thesis by blast
qed (simp add: file_upd_def proc_upd_def fun_upd_idem)

lemma fiu_dup_law:
  assumes "fiu_dup fn fo s = Some (r, s')"
  shows "inodes s' = inodes s \<and> processes s' = processes s \<and> (\<exists>x. procs s' = procs (file_upd fn (\<lambda>f. f\<lparr>f_private := x\<rparr>) s))"
proof -
  obtain f n s1 where f: "get_file fo s = Some f" and n: "kmalloc sizeof_fiu_file_private s = Some (n, s1)"
    using assms by (auto simp: fiu_dup_def Let_def elim!: bind_SomeE)
  note e = assms [unfolded fiu_dup_def f bind.bind_lunit Let_def n prod.case]
  have v1: "files_view s1 = files_view s" by (rule kmalloc_files_view [OF n])
  obtain x where id: "procs (file_upd fn (\<lambda>f. f\<lparr>f_private := x\<rparr>) s) = procs s" using file_upd_private_id by blast
  have same: ?thesis if "files_view s' = files_view s"
    using that id by (auto simp: files_view_def intro!: exI [of _ x])
  show ?thesis
  proof (cases "n = NULL")
    case True
    with e v1 have "files_view s' = files_view s" by simp
    then show ?thesis by (rule same)
  next
    case False
    then obtain F S ret sl s2 where F: "fiu_files s1 (f_private f) = Some F" and S: "slaves s1 (priv_slave F) = Some S"
      and o: "channel_open (sl_parent S) None s1 = Some (ret, sl, s2)" using e by (auto elim!: bind_SomeE)
    have v2: "files_view s2 = files_view s" using channel_open_files_view [OF o] v1 by simp
    show ?thesis
    proof (cases "ret < 0")
      case True
      with e False F S o obtain t where "kfree n s2 = Some s'" by (auto elim!: bind_SomeE)
      from kfree_files_view [OF this] v2 have "files_view s' = files_view s" by simp
      then show ?thesis by (rule same)
    next
      case pos: False
      let ?t = "s2\<lparr>fiu_files := (fiu_files s2)(n \<mapsto> \<lparr>priv_slave = sl, priv_ops = priv_ops F\<rparr>)\<rparr>"
      from e False F S o pos have s': "s' = file_upd fn (\<lambda>f. f\<lparr>f_private := n\<rparr>) ?t" by simp
      have "procs ?t = procs s" "processes ?t = processes s" "inodes ?t = inodes s" using v2 by (simp_all add: files_view_def)
      with s' show ?thesis by (auto intro!: exI [of _ n] file_upd_procs)
    qed
  qed
qed

interpretation kf: file_ops "kernel_f_ops e" for e
proof unfold_locales
  fix ops d fn fo s r s'
  assume "fo_dup (kernel_f_ops e ops) = Some d" "d fn fo s = Some (r, s')"
  then show "inodes s' = inodes s \<and> processes s' = processes s \<and> (\<exists>x. procs s' = procs (file_upd fn (\<lambda>f. f\<lparr>f_private := x\<rparr>) s))"
    by (cases ops) (auto simp: channel_slave_f_ops_def channel_master_f_ops_def devfs_f_ops_def fiu_f_ops_def intro!: fiu_dup_law)
qed

lemma process_fd_exist_eq:
  assumes P: "procs s p = Some P" and l: "\<not> files_lock P" and n: "length (files P) = PROCESS_MAX_OPEN_FD + 1"
  shows "process_fd_exist p fd s = Some (0 \<le> fd \<and> fd < int PROCESS_MAX_OPEN_FD \<and> f_used (files P ! nat fd), s)"
proof -
  have u: "proc_upd p (\<lambda>P. P\<lparr>files_lock := False\<rparr>) s = s" by (rule proc_upd_id [OF P]) (simp add: l)
  show ?thesis
  proof (cases "0 \<le> fd \<and> fd < int PROCESS_MAX_OPEN_FD")
    case True
    then have "nat fd < length (files P)" using n by linarith
    then have "get_file (p, nat fd) (proc_upd p (\<lambda>P. P\<lparr>files_lock := True\<rparr>) s) = Some (files P ! nat fd)"
      using P by (simp add: get_file_def proc_upd_def)
    with P l True u show ?thesis by (simp add: process_fd_exist_def spinlock_defs Let_def proc_upd_twice)
  next
    case False
    then have "fd < 0 \<or> fd \<ge> int PROCESS_MAX_OPEN_FD" by auto
    then show ?thesis by (auto simp: process_fd_exist_def)
  qed
qed

text \<open>The state in which the new descriptor is taken and the file is duplicated.\<close>

lemma dup_state:
  assumes P: "procs s p = Some P" and n: "length (files P) = PROCESS_MAX_OPEN_FD + 1"
    and i: "i < PROCESS_MAX_OPEN_FD" "\<not> f_used (files P ! i)"
  shows "procs (file_upd (p, i) (\<lambda>f. f\<lparr>f_used := True\<rparr>) s) p = Some (P\<lparr>files := (files P)[i := (files P ! i)\<lparr>f_used := True\<rparr>]\<rparr>)"
    and "file_upd (p, i) (\<lambda>f. f\<lparr>f_used := False\<rparr>) (file_upd (p, i) (\<lambda>f. f\<lparr>f_used := True\<rparr>) s) = s"
proof -
  show "procs (file_upd (p, i) (\<lambda>f. f\<lparr>f_used := True\<rparr>) s) p = Some (P\<lparr>files := (files P)[i := (files P ! i)\<lparr>f_used := True\<rparr>]\<rparr>)"
    using P by (simp add: file_upd_def proc_upd_def)
  show "file_upd (p, i) (\<lambda>f. f\<lparr>f_used := False\<rparr>) (file_upd (p, i) (\<lambda>f. f\<lparr>f_used := True\<rparr>) s) = s"
    unfolding file_upd_def fst_conv snd_conv proc_upd_twice using i n
    by (intro proc_upd_id [OF P]) (simp add: list_update_same_conv)
qed

lemma dup_file_correct:
  fixes s :: "'a kvfs_scheme"
  assumes inv: "ref_inv s" and P: "procs s p = Some P" "\<not> files_lock P" "length (files P) = PROCESS_MAX_OPEN_FD + 1" "p \<in> set (processes s)"
    and i: "i < PROCESS_MAX_OPEN_FD" "\<not> f_used (files P ! i)" and k: "k < PROCESS_MAX_OPEN_FD" "f_used (files P ! k)"
    and ok: "process_dup_file (kernel_f_ops e) (p, i) (p, k) (file_upd (p, i) (\<lambda>f. f\<lparr>f_used := True\<rparr>) s) = Some (r, s')"
  shows "if r < 0 then \<exists>t. process_free_fd p (int i) s' = Some t \<and> ref_inv t
         else ref_inv s' \<and> (\<exists>x. get_file (p, i) s' = Some ((files P ! k)\<lparr>f_private := x\<rparr>)) \<and> get_file (p, k) s' = Some (files P ! k)"
proof -
  let ?s1 = "file_upd (p, i) (\<lambda>f. f\<lparr>f_used := True\<rparr>) s"
  note d = dup_state [OF P(1, 3) i]
  have ne: "i \<noteq> k" using i k by auto
  let ?P = "P\<lparr>files := (files P)[i := (files P ! i)\<lparr>f_used := True\<rparr>]\<rparr>"
  have F: "get_file (p, k) ?s1 = Some (files P ! k)" using d(1) ne k P(3) by (simp add: get_file_def)
  have refs: "if r < 0 then ref_inv (file_upd (p, i) (\<lambda>f. f\<lparr>f_used := False\<rparr>) s') else r = 0 \<and> ref_inv s'"
    by (rule kf.process_dup_file_refs [OF ok F _ d(1)]) (use ne i P inv d(2) in simp_all)
  have nul: "inodes ?s1 NULL = None" using inv by (simp add: ref_inv_def)
  obtain x s2 where s2: "procs s2 = procs (file_upd (p, i) (\<lambda>_. (files P ! k)\<lparr>f_private := x\<rparr>) ?s1)"
    "if r < 0 then inode_del (f_inode (files P ! k)) s2 = Some s' \<and> f_inode (files P ! k) \<noteq> NULL else r = 0 \<and> s' = s2"
    by (rule kf.process_dup_file_used [OF ok F k(2) _ nul]) (use ne in auto)
  have p2: "procs s2 p = Some (P\<lparr>files := (files P)[i := (files P ! k)\<lparr>f_private := x\<rparr>]\<rparr>)" (is "_ = Some ?Q")
    using s2(1) P(1) by (simp add: file_upd_def proc_upd_def)
  show ?thesis
  proof (cases "r < 0")
    case True
    with s2(2) have "procs s' p = Some ?Q" using p2 by (auto elim: inode_del_Some)
    from process_free_fd_eq [OF this] P(2) i(1) refs True show ?thesis by simp
  next
    case False
    with s2(2) p2 refs ne i k P(3) show ?thesis by (auto simp: get_file_def)
  qed
qed

text \<open>A table without a function for duplication always lets a file be duplicated.\<close>

lemma dup_file_returns:
  fixes s :: "'a kvfs_scheme"
  assumes inv: "ref_inv s" and P: "procs s p = Some P" "length (files P) = PROCESS_MAX_OPEN_FD + 1" "p \<in> set (processes s)"
    and i: "i < PROCESS_MAX_OPEN_FD" "\<not> f_used (files P ! i)" and k: "k < PROCESS_MAX_OPEN_FD" "f_used (files P ! k)"
    and ops: "f_ops (files P ! k) = Some ops" "fo_dup (kernel_f_ops e ops) = None"
  shows "\<exists>s'. process_dup_file (kernel_f_ops e) (p, i) (p, k) (file_upd (p, i) (\<lambda>f. f\<lparr>f_used := True\<rparr>) s) = Some (0, s')"
proof -
  let ?s1 = "file_upd (p, i) (\<lambda>f. f\<lparr>f_used := True\<rparr>) s" and ?F = "files P ! k"
  have ne: "i \<noteq> k" using i k by auto
  have F: "get_file (p, k) ?s1 = Some ?F" "get_file (p, k) (file_upd (p, i) g (file_upd (p, i) h ?s1)) = Some ?F" for g h
    using get_file_upd(1) [OF P(1), of k] P(2) ne k(1) by (simp_all add: get_file_other)
  have "inodes s (f_inode ?F) \<noteq> None" if "f_inode ?F \<noteq> NULL"
  proof
    assume "inodes s (f_inode ?F) = None"
    with inv that have "refs (f_inode ?F) s = 0" by (auto simp: ref_inv_def dest!: spec [of _ "f_inode ?F"])
    moreover have "?F \<in> set (slots p s)" using P(1, 2) k(1) by (auto simp: slots_def in_set_conv_nth intro!: exI [of _ k])
    then have "filter (names (f_inode ?F)) (slots p s) \<noteq> []" using k(2) by (auto simp: filter_empty_conv names_def)
    ultimately show False using P(3) by (auto simp: refs_def sum_list_eq_0_iff)
  qed
  then show ?thesis using F k(2) ops by (cases "f_inode ?F = NULL") (auto simp: process_dup_file_def Let_def inode_inc_def)
qed


definition inode_example :: inode where
  "inode_example = \<lparr>i_mode = 0, i_uid = 0, i_gid = 0, i_inode = 256, i_dev = 0, i_size = 0, i_atime = 0, i_mtime = 0, i_ctime = 0, i_ref = 1\<rparr>"

definition file_example :: vfs_file where
  "file_example = \<lparr>f_used = True, f_inode = 0x700, f_offset = 5, f_ops = Some DevfsFops, f_private = NULL, f_mount = Some 0\<rparr>"

definition vfs_process_example :: process where
  "vfs_process_example = process_example\<lparr>pid := 0, files := file_example # replicate PROCESS_MAX_OPEN_FD file_zero\<rparr>"

definition vfs_example :: kvfs where
  "vfs_example = kdevs.extend (dev_example\<lparr>procs := [0x500 \<mapsto> vfs_process_example], processes := [0x500], inodes := [0x700 \<mapsto> inode_example]\<rparr>)
     (kvfs.fields False [] Map.empty Map.empty [] False Map.empty Map.empty Map.empty Map.empty Map.empty [] Map.empty False 0 False 0 0)"

lemma vfs_example_simps [simp]:
  "procs vfs_example = [0x500 \<mapsto> vfs_process_example]" "processes vfs_example = [0x500]" "inodes vfs_example = [0x700 \<mapsto> inode_example]"
  by (simp_all add: vfs_example_def kdevs.defs kvfs.defs)

lemma vfs_example_inv: "ref_inv vfs_example"
proof -
  have "refs i vfs_example = (if i = 0x700 then 1 else 0)" if "i \<noteq> NULL" for i
    using that by (simp add: refs_def slots_def vfs_process_example_def names_def file_example_def file_zero_def PROCESS_MAX_OPEN_FD_def)
  then show ?thesis by (simp add: ref_inv_def inode_example_def)
qed


section \<open>The offset of a file\<close>

text \<open>
  Moving relative to the current offset. Within the first 4 GiB the new offset is the sum; a sum below zero is accepted. Moving
  back from an offset beyond 4 GiB to one that is larger than the low 32 bits of the old one fails, and the offset is cut to these bits.
\<close>

lemma vfs_lseek_current:
  assumes p: "get_parent t s = Some p" and fd: "0 \<le> fd" "fd \<le> int PROCESS_MAX_OPEN_FD" and f: "get_file (p, nat fd) s = Some f" "f_used f"
    and o: "0 \<le> f_offset f" "f_offset f + offset < 2 ^ 63" "- (2 ^ 62) < offset"
  shows "f_offset f < 2 ^ 32 \<Longrightarrow> vfs_lseek t fd offset VFS_SEEK_CUR s = Some (0, file_upd (p, nat fd) (\<lambda>f'. f'\<lparr>f_offset := f_offset f + offset\<rparr>) s)"
    and "offset < 0 \<Longrightarrow> f_offset f + offset > f_offset f mod 2 ^ 32 \<Longrightarrow> vfs_lseek t fd offset VFS_SEEK_CUR s
      = Some (- EINVAL, file_upd (p, nat fd) (\<lambda>f'. f'\<lparr>f_offset := f_offset f mod 2 ^ 32\<rparr>) (file_upd (p, nat fd) (\<lambda>f'. f'\<lparr>f_offset := f_offset f + offset\<rparr>) s))"
proof -
  have w: "VFS_SEEK_CUR AND VFS_SEEK_SET = 0" "VFS_SEEK_CUR \<noteq> 0" by (simp_all add: VFS_SEEK_CUR_def VFS_SEEK_SET_def)
  have new: "sint (word_of_int (f_offset f + offset) :: u64) = f_offset f + offset"
    unfolding sint_sbintrunc' by (rule signed_take_bit_int_eq_self) (use o in simp_all)
  have old: "uint (word_of_int (f_offset f) :: u32) = f_offset f mod 2 ^ 32" by (simp add: uint_word_of_int)
  have nfd: "\<not> fd < 0" "\<not> fd > int PROCESS_MAX_OPEN_FD" using fd by simp_all
  note eval = vfs_lseek_def p f nfd w new [simplified] new old Let_def
  show "vfs_lseek t fd offset VFS_SEEK_CUR s = Some (0, file_upd (p, nat fd) (\<lambda>f'. f'\<lparr>f_offset := f_offset f + offset\<rparr>) s)" if "f_offset f < 2 ^ 32"
    using that o(1) by (auto simp: eval)
  show "vfs_lseek t fd offset VFS_SEEK_CUR s
      = Some (- EINVAL, file_upd (p, nat fd) (\<lambda>f'. f'\<lparr>f_offset := f_offset f mod 2 ^ 32\<rparr>) (file_upd (p, nat fd) (\<lambda>f'. f'\<lparr>f_offset := f_offset f + offset\<rparr>) s))"
    if "offset < 0" "f_offset f + offset > f_offset f mod 2 ^ 32"
    using that by (simp add: eval)
qed

section \<open>Looking up a path\<close>

lemma devices_heap [simp]: "dev_inv (s\<lparr>kmalloc_head := h\<rparr>) = dev_inv s" "registry (s\<lparr>kmalloc_head := h\<rparr>) = registry s"
  by (simp_all add: dev_inv_def registry_def fun_eq_iff dev_name_def cong: if_cong)

text \<open>Releasing the copy of the path after an answer has been written.\<close>

lemma lookup_release:
  assumes heap: "heap_inv a b s" "cp \<in> live s" and dev: "dev_inv s" "apart r 48 (devices_addr s) (40 * VFS_MAX_DEVICE)"
    and m: "only_at r (kbytes s) m"
  shows "\<exists>h. kfree cp (s\<lparr>kbytes := m\<rparr>) = Some (s\<lparr>kbytes := m, kmalloc_head := h\<rparr>) \<and> heap_inv a b (s\<lparr>kbytes := m, kmalloc_head := h\<rparr>)
      \<and> live (s\<lparr>kbytes := m, kmalloc_head := h\<rparr>) = live s - {cp} \<and> dev_inv (s\<lparr>kbytes := m, kmalloc_head := h\<rparr>)
      \<and> registry (s\<lparr>kbytes := m, kmalloc_head := h\<rparr>) = registry s"
proof -
  have "heap_inv a b (s\<lparr>kbytes := m\<rparr>)" "cp \<in> live (s\<lparr>kbytes := m\<rparr>)" using heap by (simp_all add: heap_inv_def live_def)
  from kfree_inv [OF this] obtain t where t: "kfree cp (s\<lparr>kbytes := m\<rparr>) = Some t" "heap_inv a b t" "live t = live (s\<lparr>kbytes := m\<rparr>) - {cp}" by blast
  from kfree_frame [OF t(1)] obtain h where h: "t = s\<lparr>kbytes := m, kmalloc_head := h\<rparr>" by blast
  from registry_only_at [OF m dev(2, 1)] t show ?thesis
    unfolding h by (intro exI [of _ h]) (simp add: live_def)
qed

text \<open>
  C15. When the walk of \<^verbatim>\<open>vfs_lookup\<close> has processed \<open>k\<close> characters of a path and has entered a mount point of devfs, and the rest
  of the path is a slash and a name of at most 15 characters, then the walk ends there and the copy of the path is released. If a device has that
  name, the whole path is processed, the mount point is that of devfs, and the answer gives the identifier of the first device of that name as device and as
  inode; otherwise the walk fails with \<^verbatim>\<open>ENOENT\<close>. Only the bytes of the answer change, and the devices remain registered.
\<close>

theorem lookup_in_devfs:
  fixes s :: "'a kvfs_scheme"
  assumes heap: "heap_inv a b s" "cp \<in> live s" and dev: "dev_inv s"
    and mount: "mt_used (mounts s ! r)" "mount_fs r s = Some F" "fs_ops F = DevfsTab"
    and path: "cstr (kbytes s) (path + word_of_int k) (0x2F # w)" "w \<noteq> []" "w \<noteq> [0x2F]" "length w \<le> 15"
    and k: "0 \<le> k" "k + 1 + int (length w) < 2 ^ 15"
    and away: "apart res 48 (path + word_of_int k) (length w + 2)" "apart res 48 (devices_addr s) (40 * VFS_MAX_DEVICE)"
  shows "\<exists>ret mp s'. lookup_loop e path (k + 1 + int (length w)) uid gid res cp (Some r) k s = Some (ret, mp, s')
    \<and> heap_inv a b s' \<and> live s' = live s - {cp} \<and> only_at res (kbytes s) (kbytes s') \<and> dev_inv s' \<and> registry s' = registry s
    \<and> (case find (\<lambda>i. registry s i = Some w) [0..<VFS_MAX_DEVICE] of
         None \<Rightarrow> ret = - ENOENT
       | Some i \<Rightarrow> ret = k + 1 + int (length w) \<and> mp = r \<and> rl_processed res (kbytes s') = ret
           \<and> rl_dev res (kbytes s') = int i \<and> rl_inode res (kbytes s') = of_nat i)"
proof -
  let ?f = "find (\<lambda>i. registry s i = Some w) [0..<VFS_MAX_DEVICE]" and ?l = "lookup_loop e path (k + 1 + int (length w)) uid gid res cp (Some r) k s"
  obtain m where o: "only_at res (kbytes s) m" and m: "case ?f of
       None \<Rightarrow> devfs_lookup r (path + word_of_int k) uid gid res s = Some (- ENOENT, s\<lparr>kbytes := m\<rparr>)
     | Some i \<Rightarrow> devfs_lookup r (path + word_of_int k) uid gid res s = Some (0, s\<lparr>kbytes := m\<rparr>) \<and> rl_ret res m = RES_OK
         \<and> rl_processed res m = 1 + int (length w) \<and> rl_inode res m = of_nat i \<and> rl_dev res m = int i"
    using devfs_lookup_device [OF dev path away, of r uid gid] by blast
  have op: "fso_lookup (kernel_fs_ops e (fs_ops F)) = Some devfs_lookup" by (simp add: mount(3) devfs_ops_def)
  note free = lookup_release [OF heap dev away(2)]
  show ?thesis
  proof (cases ?f)
    case None
    obtain h where h: "kfree cp (s\<lparr>kbytes := m\<rparr>) = Some (s\<lparr>kbytes := m, kmalloc_head := h\<rparr>)" "heap_inv a b (s\<lparr>kbytes := m, kmalloc_head := h\<rparr>)"
      "live (s\<lparr>kbytes := m, kmalloc_head := h\<rparr>) = live s - {cp}" "dev_inv (s\<lparr>kbytes := m, kmalloc_head := h\<rparr>)"
      "registry (s\<lparr>kbytes := m, kmalloc_head := h\<rparr>) = registry s" using free [OF o] by blast
    have "?l = Some (- ENOENT, 0, s\<lparr>kbytes := m, kmalloc_head := h\<rparr>)"
      using None m mount(1, 2) op h(1) by (subst lookup_loop.simps) (simp add: ENOENT_def)
    with None h(2-5) o show ?thesis by simp
  next
    case (Some i)
    let ?n = "k + 1 + int (length w)"
    define m' where "m' = set_processed res ?n m"
    have o': "only_at res (kbytes s) m'" unfolding m'_def by (rule only_at_set(2) [OF o])
    obtain h where h: "kfree cp (s\<lparr>kbytes := m'\<rparr>) = Some (s\<lparr>kbytes := m', kmalloc_head := h\<rparr>)" "heap_inv a b (s\<lparr>kbytes := m', kmalloc_head := h\<rparr>)"
      "live (s\<lparr>kbytes := m', kmalloc_head := h\<rparr>) = live s - {cp}" "dev_inv (s\<lparr>kbytes := m', kmalloc_head := h\<rparr>)"
      "registry (s\<lparr>kbytes := m', kmalloc_head := h\<rparr>) = registry s" using free [OF o'] by blast
    have v: "rl_processed res m' = ?n" "rl_dev res m' = int i" "rl_inode res m' = of_nat i" using k m Some by (simp_all add: m'_def rl_same)
    have "?l = Some (?n, r, s\<lparr>kbytes := m', kmalloc_head := h\<rparr>)"
      using Some m mount(1, 2) op h(1) k by (subst lookup_loop.simps) (simp add: mem_upd_def m'_def add.assoc Let_def)
    with Some h(2-5) o' v show ?thesis by simp
  qed
qed

definition lookup_example :: kvfs where
  "lookup_example = vfs_example\<lparr>kbytes := write_bytes 0x100 [0x2F, 100, 101, 118, 0x2F, 116, 116, 121, 0] (write_bytes 0x10000 [116, 116, 121, 0] (\<lambda>_. 0)),
     devices := (replicate VFS_MAX_DEVICE \<lparr>d_active = False, d_id = 0, d_pid = 0, d_ops = 0, d_fops = None, d_private = NULL\<rparr>)
       [0 := \<lparr>d_active = True, d_id = 0, d_pid = 0, d_ops = 0, d_fops = None, d_private = NULL\<rparr>],
     mounts := [\<lparr>mt_used = True, mt_path = 0x400, mt_fi = 0x800\<rparr>], fis := [0x800 \<mapsto> \<lparr>fi_parent = 0x900, fi_private = NULL\<rparr>],
     fss := [0x900 \<mapsto> \<lparr>fs_pid = 0, fs_super_ops = DevfsTab, fs_ops = DevfsTab, fs_f_ops = DevfsFops, fs_private = NULL, fs_ilock = False, fs_instances = [0x800]\<rparr>]\<rparr>"

lemma lookup_example_frame: "kmalloc_head vfs_example = kmalloc_head chan_example" "kmalloc_lock vfs_example = kmalloc_lock chan_example" "device_lock vfs_example = False" "devices_addr vfs_example = 0x10000"
  by (simp_all add: vfs_example_def dev_example_def kdevs.defs kvfs.defs kchan.defs)

lemma lookup_example_inv: "heap_inv 0x1000 0x2000 lookup_example" "0x1014 \<in> live lookup_example" "dev_inv lookup_example"
  "registry lookup_example 0 = Some [116, 116, 121]"
proof -
  show "heap_inv 0x1000 0x2000 lookup_example" using chan_example_inv(1) by (simp add: heap_inv_def lookup_example_def lookup_example_frame)
  show "0x1014 \<in> live lookup_example" by (simp add: lookup_example_def lookup_example_frame live_def) (simp add: chan_example_def)
  have "cstr (kbytes lookup_example) (dev_name lookup_example 0) [116, 116, 121]"
    by (simp add: lookup_example_def lookup_example_frame dev_name_def)
  from str_in_cstr [OF this, of 15] have n: "str_in (kbytes lookup_example) (dev_name lookup_example 0) 15 = [116, 116, 121]"
    "0 \<in> set (bytes_at (kbytes lookup_example) (dev_name lookup_example 0) 15)" by simp_all
  have d: "devices lookup_example ! i = \<lparr>d_active = (i = 0), d_id = 0, d_pid = 0, d_ops = 0, d_fops = None, d_private = NULL\<rparr>" if "i < VFS_MAX_DEVICE" for i
    using that by (simp add: lookup_example_def nth_list_update)
  have f: "length (devices lookup_example) = VFS_MAX_DEVICE" "\<not> device_lock lookup_example" "devices_addr lookup_example = 0x10000"
    by (simp_all add: lookup_example_def lookup_example_frame)
  show "dev_inv lookup_example" using n(2) unfolding dev_inv_def by (simp add: d f) (simp add: VFS_MAX_DEVICE_def)
  show "registry lookup_example 0 = Some [116, 116, 121]" using n(1) d [of 0] by (simp add: registry_def VFS_MAX_DEVICE_def)
qed

theorem lookup_in_devfs_witness:
  "\<exists>s'. lookup_loop \<lparr>en_yield = Some, en_kcopy = (\<lambda>_ _ _. Some), en_rq = 0, en_rs = 0, en_res = 0, en_stat = 0\<rparr> 0x100 8 0 0 0x200 0x1014 (Some 0) 4 lookup_example
     = Some (8, 0, s') \<and> rl_dev 0x200 (kbytes s') = 0 \<and> live s' = live lookup_example - {0x1014}"
proof -
  let ?e = "\<lparr>en_yield = Some, en_kcopy = (\<lambda>_ _ _. Some), en_rq = 0, en_rs = 0, en_res = 0, en_stat = 0\<rparr> :: kvfs kenv" and ?w = "[116, 116, 121] :: u8 list"
  have mount: "mt_used (mounts lookup_example ! 0)" "mount_fs 0 lookup_example
      = Some \<lparr>fs_pid = 0, fs_super_ops = DevfsTab, fs_ops = DevfsTab, fs_f_ops = DevfsFops, fs_private = NULL, fs_ilock = False, fs_instances = [0x800]\<rparr>"
    by (simp_all add: lookup_example_def mount_fs_def)
  have path: "cstr (kbytes lookup_example) (0x100 + word_of_int 4) (0x2F # ?w)" by (simp add: lookup_example_def)
  have away: "apart 0x200 48 (0x100 + word_of_int 4) (length ?w + 2)" "apart 0x200 48 (devices_addr lookup_example) (40 * VFS_MAX_DEVICE)"
    by (rule apart_areas; simp add: lookup_example_def lookup_example_frame VFS_MAX_DEVICE_def)+
  have f: "find (\<lambda>i. registry lookup_example i = Some ?w) [0..<VFS_MAX_DEVICE] = Some 0"
    using lookup_example_inv(4) by (simp add: VFS_MAX_DEVICE_def upt_conv_Cons)
  from lookup_in_devfs [OF lookup_example_inv(1-3) mount _ path _ _ _ _ _ away, of ?e 0 0]
  have "\<exists>s'. lookup_loop ?e 0x100 8 0 0 0x200 0x1014 (Some 0) 4 lookup_example = Some (8, 0, s') \<and> heap_inv 0x1000 0x2000 s'
     \<and> live s' = live lookup_example - {0x1014} \<and> only_at 0x200 (kbytes lookup_example) (kbytes s') \<and> dev_inv s' \<and> registry s' = registry lookup_example
     \<and> rl_processed 0x200 (kbytes s') = 8 \<and> rl_dev 0x200 (kbytes s') = 0 \<and> rl_inode 0x200 (kbytes s') = 0" unfolding f by simp
  then show ?thesis by (elim exE conjE) (intro exI conjI)
qed

end
