(* ===== verification/Syscall.thy ===== *)
theory Syscall
  imports Vfs
begin

unbundle bit_operations_syntax

text \<open>
  The system calls: replacing a program (\<^verbatim>\<open>kernel/core/proc/execv.c\<close>), the calls on memory, files and channels
  (\<^verbatim>\<open>kernel/core/syscall/mem.c\<close>, \<^verbatim>\<open>vfs.c\<close>), the table of calls and the handler (\<^verbatim>\<open>kernel/core/syscall.c\<close>, \<^verbatim>\<open>kernel/glue/i386-pc/syscall.c\<close>), and
  the page fault handler (\<^verbatim>\<open>kernel/arch/i386/page_fault.c\<close>), whose copy on write is in the theory \<open>Mmu\<close>.
\<close>

section \<open>Arrays of arguments\<close>

text \<open>The array \<^verbatim>\<open>argv\<close> in memory: its first \<open>n\<close> pointers, and writing them.\<close>

definition argv_at :: "ptr \<Rightarrow> nat \<Rightarrow> mem \<Rightarrow> ptr list" where
  "argv_at a n m = map (\<lambda>i. get_word (a + of_nat (4 * i)) m) [0..<n]"

fun put_argv :: "ptr \<Rightarrow> ptr list \<Rightarrow> mem \<Rightarrow> mem" where
  "put_argv a [] m = m"
| "put_argv a (x # xs) m = put_argv (a + 4) xs (put_word a x m)"

section \<open>Replacing the program\<close>

definition check_exec_perm :: "thread \<Rightarrow> ptr \<Rightarrow> mem \<Rightarrow> bool" where
  "check_exec_perm th st m =
     (let mode = get_word (st + 8) m in
      if th_uid th = get_half (st + 16) m then mode AND 0x40 \<noteq> 0
      else if th_gid th = get_half (st + 18) m then mode AND 0x8 \<noteq> 0
      else mode AND 0x1 \<noteq> 0)"

definition ARGV_DUP_SIZE :: nat where "ARGV_DUP_SIZE = 10"

text \<open>The loop of \<^verbatim>\<open>duplicate_argv\<close>, with \<open>n\<close> free entries of the new array; a full array is a panic.\<close>

fun dup_argv_loop :: "nat \<Rightarrow> nat \<Rightarrow> ptr \<Rightarrow> ptr \<Rightarrow> 'a kheap_scheme \<Rightarrow> (ptr \<times> 'a kheap_scheme) option" where
  "dup_argv_loop 0 i argv new_argv s = None"
| "dup_argv_loop (Suc n) i argv new_argv s =
     (let a = get_word (argv + of_nat (4 * i)) (kbytes s); slot = new_argv + of_nat (4 * i) in
      if a = NULL then Some (new_argv, mem_upd (put_word slot NULL) s)
      else do {
        k \<leftarrow> strlen a (kbytes s);
        (p, s) \<leftarrow> kmalloc (k + 1) s;
        let s = mem_upd (put_word slot p) s;
        if p = NULL then do { s \<leftarrow> kfree new_argv s; Some (NULL, s) }
        else do {
          (_, m) \<leftarrow> strcpy p (get_word (argv + of_nat (4 * i)) (kbytes s)) (kbytes s);
          dup_argv_loop n (Suc i) argv new_argv (s\<lparr>kbytes := m\<rparr>)
        }
      })"

definition duplicate_argv :: "ptr \<Rightarrow> 'a kheap_scheme \<Rightarrow> (ptr \<times> 'a kheap_scheme) option" where
  "duplicate_argv argv s = do {
     (new_argv, s) \<leftarrow> kmalloc (4 * of_nat ARGV_DUP_SIZE) s;
     dup_argv_loop ARGV_DUP_SIZE 0 argv new_argv s
   }"

text \<open>The loop that reads the file, 8192 bytes at most in a round; \<open>n\<close> is the number of bytes to come.\<close>

partial_function (option) read_binary :: "'a kvfs_scheme kenv \<Rightarrow> int \<Rightarrow> ptr \<Rightarrow> int \<Rightarrow> 'a kvfs_scheme \<Rightarrow> (int \<times> 'a kvfs_scheme) option" where
  "read_binary e fd buf n s =
     (if n > 0
      then do {
        (ret, s) \<leftarrow> vfs_read e NULL fd buf 8192 s;
        if ret < 0 then Some (ret, s) else read_binary e fd (buf + word_of_int ret) (n - ret) s
      }
      else Some (0, s))"

declare read_binary.simps [code]

definition argv_list :: "ptr \<Rightarrow> mem \<Rightarrow> ptr list" where
  "argv_list a m = takeWhile (\<lambda>p. p \<noteq> NULL) (argv_at a ARGV_DUP_SIZE m)"

text \<open>
  The part after the file has been read, which replaces the program. When no program can be loaded, the process ends
  and does not come back from \<^verbatim>\<open>process_exit\<close>; on success the thread starts anew at the entry of the program when it is elected again.
\<close>

definition execv_replace :: "ptr \<Rightarrow> ptr \<Rightarrow> ptr \<Rightarrow> 'a kvfs_scheme \<Rightarrow> (int \<times> 'a kvfs_scheme) option" where
  "execv_replace t binary new_argv s = do {
     th \<leftarrow> threads s t;
     P \<leftarrow> procs s (th_parent th);
     s \<leftarrow> for_each (\<lambda>u s. if u \<noteq> t then thread_exit t s else Some s) (p_threads P) s;
     s \<leftarrow> as_clean as_glue_dispatcher (p_as P) s;
     (entry, s) \<leftarrow> process_load_elf (th_parent th) binary s;
     s \<leftarrow> kfree binary s;
     if entry = 0
     then do {
       s \<leftarrow> kfree new_argv s;
       s \<leftarrow> process_exit (th_parent th) 0 s;
       Some (0, s)
     }
     else do {
       (_, _, s) \<leftarrow> thread_update_exec t entry (if new_argv = NULL then None else Some (argv_list new_argv (kbytes s))) s;
       s \<leftarrow> kfree new_argv s;
       s \<leftarrow> scheduler_update None True s;
       Some (0, s)
     }
   }"

definition process_execv :: "'a kvfs_scheme kenv \<Rightarrow> ptr \<Rightarrow> ptr \<Rightarrow> ptr \<Rightarrow> 'a kvfs_scheme \<Rightarrow> (int \<times> 'a kvfs_scheme) option" where
  "process_execv e t filename argv s = do {
     (new_argv, s) \<leftarrow> (if argv \<noteq> NULL then duplicate_argv argv s else Some (NULL, s));
     if argv \<noteq> NULL \<and> new_argv = NULL then Some (- ENOMEM, s)
     else do {
       (ret, s) \<leftarrow> vfs_stat e t filename (en_stat e) s;
       if ret < 0 then do { s \<leftarrow> kfree new_argv s; Some (ret, s) }
       else do {
         th \<leftarrow> threads s t;
         if \<not> check_exec_perm th (en_stat e) (kbytes s) then do { s \<leftarrow> kfree new_argv s; Some (- EACCES, s) }
         else do {
           let n = get_word (en_stat e + 24) (kbytes s);
           let st_size = sint (word_cat (get_word (en_stat e + 28) (kbytes s)) n :: u64);
           (binary, s) \<leftarrow> kmalloc n s;
           if binary = NULL then do { s \<leftarrow> kfree new_argv s; Some (- ENOMEM, s) }
           else do {
             (fd, s) \<leftarrow> vfs_open e NULL filename 0 0 s;
             if fd < 0 then do { s \<leftarrow> kfree binary s; s \<leftarrow> kfree new_argv s; Some (fd, s) }
             else do {
               (ret, s) \<leftarrow> read_binary e fd binary st_size s;
               if ret < 0
               then do { s \<leftarrow> kfree binary s; s \<leftarrow> kfree new_argv s; (_, s) \<leftarrow> vfs_close e NULL fd s; Some (ret, s) }
               else do {
                 (_, s) \<leftarrow> vfs_close e NULL fd s;
                 if \<not> is_elf binary (kbytes s) then do { s \<leftarrow> kfree binary s; s \<leftarrow> kfree new_argv s; Some (- ELIBBAD, s) }
                 else execv_replace t binary new_argv s
               }
             }
           }
         }
       }
     }
   }"

section \<open>Memory\<close>

text \<open>The interface of a system call; \<open>sy_regs\<close> are the saved registers with their address.\<close>

record syscall =
  sy_num :: int
  arg1 :: u32
  arg2 :: u32
  arg3 :: u32
  arg4 :: u32
  arg5 :: u32
  sy_regs :: "u32 \<times> irq_regs"

definition MMAP_PROT_WRITE :: u32 where "MMAP_PROT_WRITE = 4"

definition MMAP_PROT_EXEC :: u32 where "MMAP_PROT_EXEC = 8"

text \<open>\<^verbatim>\<open>thread_current()->parent\<close> and its address space\<close>

definition cur_parent :: "'a kproc_scheme \<Rightarrow> ptr option" where
  "cur_parent s = map_option th_parent (threads s (current s))"

definition cur_as :: "'a kproc_scheme \<Rightarrow> ptr option" where
  "cur_as s = do { p \<leftarrow> cur_parent s; map_option p_as (procs s p) }"

definition sys_mmap_physical :: "syscall \<Rightarrow> 'a kproc_scheme \<Rightarrow> (int \<times> 'a kproc_scheme) option" where
  "sys_mmap_physical c s = do {
     as \<leftarrow> cur_as s;
     (v, s) \<leftarrow> as_map as_glue_dispatcher as 0 (arg1 c) (arg2 c) (AS_MAP_WRITE OR AS_MAP_USER) s;
     Some (sint v, s)
   }"

text \<open>The structure \<^verbatim>\<open>struct mmap_args\<close> is in the memory of the caller; its field \<^verbatim>\<open>prot\<close> is changed there.\<close>

definition sys_mmap :: "syscall \<Rightarrow> 'a kproc_scheme \<Rightarrow> (int \<times> 'a kproc_scheme) option" where
  "sys_mmap c s = do {
     let args = arg1 c;
     as \<leftarrow> cur_as s;
     (ok, s) \<leftarrow> as_is_mapped as args 24 s;
     if ok = 0 then Some (- EFAULT, s)
     else do {
       let s = mem_upd (\<lambda>m. put_word (args + 8) (get_word (args + 8) m AND (MMAP_PROT_WRITE OR MMAP_PROT_EXEC)) m) s;
       let s = mem_upd (\<lambda>m. put_word (args + 8) (get_word (args + 8) m OR AS_MAP_USER) m) s;
       let addr = get_word args (kbytes s);
       let length = get_word (args + 4) (kbytes s);
       if addr > KERNEL_BEGIN \<or> addr + length > KERNEL_BEGIN then Some (- EINVAL, s)
       else if length = 0 then Some (- EINVAL, s)
       else do {
         (res, s) \<leftarrow> as_map as_glue_dispatcher as addr 0 length (get_word (args + 8) (kbytes s)) s;
         if res = 0 then Some (- ENOMEM, s) else Some (sint res, s)
       }
     }
   }"

definition sys_munmap :: "syscall \<Rightarrow> 'a kproc_scheme \<Rightarrow> (int \<times> 'a kproc_scheme) option" where
  "sys_munmap c s =
     (if arg1 c > KERNEL_BEGIN \<or> arg1 c + arg2 c > KERNEL_BEGIN then Some (- EINVAL, s)
      else do {
        as \<leftarrow> cur_as s;
        s \<leftarrow> as_unmap as_glue_dispatcher as (arg1 c) AS_UNMAP_RELEASE s;
        Some (0, s)
      })"

section \<open>Files and channels\<close>

definition sizeof_fiu_device_private :: u32 where "sizeof_fiu_device_private = 4"

definition sizeof_fiu_fs :: u32 where "sizeof_fiu_fs = 8"

text \<open>
  The checks that \<^verbatim>\<open>sys_vfs_device_create\<close> and \<^verbatim>\<open>sys_fs_register\<close> share: the descriptor is open and its file is the master
  of a channel. The first result is the channel, \<open>None\<close> for -EBADF.
\<close>

definition channel_of_fd :: "ptr \<Rightarrow> int \<Rightarrow> 'a kproc_scheme \<Rightarrow> (ptr option \<times> 'a kproc_scheme) option" where
  "channel_of_fd p fd s = do {
     (ex, s) \<leftarrow> process_fd_exist p fd s;
     if \<not> ex then Some (None, s)
     else do {
       P \<leftarrow> procs s p;
       _ \<leftarrow> spinlock_lock (files_lock P);
       f \<leftarrow> get_file (p, nat fd) s;
       if f_ops f \<noteq> Some ChannelMasterFops then Some (None, s) else Some (Some (f_private f), s)
     }
   }"

definition sys_vfs_device_create :: "syscall \<Rightarrow> 'a kvfs_scheme \<Rightarrow> (int \<times> 'a kvfs_scheme) option" where
  "sys_vfs_device_create c s = do {
     th \<leftarrow> threads s (current s);
     let p = th_parent th;
     P \<leftarrow> procs s p;
     if th_uid th \<noteq> 0 then Some (- EPERM, s)
     else do {
       (priv, s) \<leftarrow> kmalloc sizeof_fiu_device_private s;
       if priv = NULL then Some (- ENOMEM, s)
       else do {
         (ch, s) \<leftarrow> channel_of_fd p (sint (arg1 c)) s;
         case ch of
           None \<Rightarrow> do { s \<leftarrow> kfree priv s; Some (- EBADF, s) }
         | Some master \<Rightarrow> do {
             let s = s\<lparr>fiu_devs := (fiu_devs s)(priv \<mapsto> master)\<rparr>;
             C \<leftarrow> chans s master;
             if ch_proc C \<noteq> p then do { s \<leftarrow> kfree priv s; Some (- EBADF, s\<lparr>fiu_devs := (fiu_devs s)(priv := None)\<rparr>) }
             else do {
               (ret, s) \<leftarrow> vfs_device_create (arg2 c) (pid P) (sint (arg3 c)) (arg4 c) (Some FiuFops) priv s;
               if ret < 0 then do { s \<leftarrow> kfree priv s; Some (ret, s\<lparr>fiu_devs := (fiu_devs s)(priv := None)\<rparr>) }
               else Some (ret, s)
             }
           }
       }
     }
   }"

definition sys_vfs_open :: "'a kvfs_scheme kenv \<Rightarrow> syscall \<Rightarrow> 'a kvfs_scheme \<Rightarrow> (int \<times> 'a kvfs_scheme) option" where
  "sys_vfs_open e c s = vfs_open e (current s) (arg1 c) (sint (arg2 c)) (arg3 c) s"

definition sys_vfs_read :: "'a kvfs_scheme kenv \<Rightarrow> syscall \<Rightarrow> 'a kvfs_scheme \<Rightarrow> (int \<times> 'a kvfs_scheme) option" where
  "sys_vfs_read e c s = do {
     as \<leftarrow> cur_as s;
     (ok, s) \<leftarrow> as_is_mapped as (arg2 c) (arg3 c) s;
     if ok = 0 then Some (- EFAULT, s) else vfs_read e (current s) (sint (arg1 c)) (arg2 c) (arg3 c) s
   }"

definition sys_vfs_write :: "'a kvfs_scheme kenv \<Rightarrow> syscall \<Rightarrow> 'a kvfs_scheme \<Rightarrow> (int \<times> 'a kvfs_scheme) option" where
  "sys_vfs_write e c s = do {
     as \<leftarrow> cur_as s;
     (ok, s) \<leftarrow> as_is_mapped as (arg2 c) (arg3 c) s;
     if ok = 0 then Some (- EFAULT, s) else vfs_write e (current s) (sint (arg1 c)) (arg2 c) (arg3 c) s
   }"

definition sys_vfs_close :: "'a kvfs_scheme kenv \<Rightarrow> syscall \<Rightarrow> 'a kvfs_scheme \<Rightarrow> (int \<times> 'a kvfs_scheme) option" where
  "sys_vfs_close e c s = vfs_close e (current s) (sint (arg1 c)) s"

definition sys_vfs_lseek :: "syscall \<Rightarrow> 'a kvfs_scheme \<Rightarrow> (int \<times> 'a kvfs_scheme) option" where
  "sys_vfs_lseek c s =
     (let off = push_bit 32 (ucast (arg2 c) AND 0xFFFFFFFF :: u64) OR (ucast (arg3 c) AND 0xFFFFFFFF)
      in vfs_lseek (current s) (sint (arg1 c)) (sint off) (arg4 c) s)"

definition sys_vfs_mount :: "'a kvfs_scheme kenv \<Rightarrow> syscall \<Rightarrow> 'a kvfs_scheme \<Rightarrow> (int \<times> 'a kvfs_scheme) option" where
  "sys_vfs_mount e c s = vfs_mount e (current s) (arg1 c) (arg2 c) (arg3 c) s"

definition sys_vfs_stat :: "'a kvfs_scheme kenv \<Rightarrow> syscall \<Rightarrow> 'a kvfs_scheme \<Rightarrow> (int \<times> 'a kvfs_scheme) option" where
  "sys_vfs_stat e c s = do {
     as \<leftarrow> cur_as s;
     (ok, s) \<leftarrow> as_is_mapped as (arg2 c) 56 s;
     if ok = 0 then Some (- EFAULT, s) else vfs_stat e (current s) (arg1 c) (arg2 c) s
   }"

definition sys_vfs_fstat :: "'a kvfs_scheme kenv \<Rightarrow> syscall \<Rightarrow> 'a kvfs_scheme \<Rightarrow> (int \<times> 'a kvfs_scheme) option" where
  "sys_vfs_fstat e c s = do {
     as \<leftarrow> cur_as s;
     (ok, s) \<leftarrow> as_is_mapped as (arg2 c) 56 s;
     if ok = 0 then Some (- EFAULT, s) else vfs_fstat e (current s) (sint (arg1 c)) (arg2 c) s
   }"

definition sys_vfs_ioctl :: "'a kvfs_scheme kenv \<Rightarrow> syscall \<Rightarrow> 'a kvfs_scheme \<Rightarrow> (int \<times> 'a kvfs_scheme) option" where
  "sys_vfs_ioctl e c s = vfs_ioctl e (current s) (sint (arg1 c)) (sint (arg2 c)) (arg3 c) s"

definition sys_vfs_dup :: "'a kvfs_scheme kenv \<Rightarrow> syscall \<Rightarrow> 'a kvfs_scheme \<Rightarrow> (int \<times> 'a kvfs_scheme) option" where
  "sys_vfs_dup e c s = vfs_dup e (current s) (sint (arg1 c)) s"

definition sys_vfs_dup2 :: "'a kvfs_scheme kenv \<Rightarrow> syscall \<Rightarrow> 'a kvfs_scheme \<Rightarrow> (int \<times> 'a kvfs_scheme) option" where
  "sys_vfs_dup2 e c s = vfs_dup2 e (current s) (sint (arg1 c)) (sint (arg2 c)) s"

definition sys_vfs_getdirent :: "'a kvfs_scheme kenv \<Rightarrow> syscall \<Rightarrow> 'a kvfs_scheme \<Rightarrow> (int \<times> 'a kvfs_scheme) option" where
  "sys_vfs_getdirent e c s = vfs_getdirent e (current s) (sint (arg1 c)) (arg2 c) (sint (arg3 c)) s"

definition sys_vfs_device_exists :: "syscall \<Rightarrow> 'a kvfs_scheme \<Rightarrow> (int \<times> 'a kvfs_scheme) option" where
  "sys_vfs_device_exists c s = map_option (\<lambda>r. (r, s)) (device_exists (arg1 c) s)"

definition sys_vfs_open_device :: "'a kvfs_scheme kenv \<Rightarrow> syscall \<Rightarrow> 'a kvfs_scheme \<Rightarrow> (int \<times> 'a kvfs_scheme) option" where
  "sys_vfs_open_device e c s = vfs_open_device e (current s) (arg1 c) (sint (arg2 c)) (arg3 c) s"

definition sys_fs_channel_create :: "syscall \<Rightarrow> 'a kvfs_scheme \<Rightarrow> (int \<times> 'a kvfs_scheme) option" where
  "sys_fs_channel_create c s = do {
     p \<leftarrow> cur_parent s;
     (fd, s) \<leftarrow> process_new_fd p s;
     if fd < 0 then Some (fd, s)
     else do {
       (err, _, s) \<leftarrow> channel_create (arg1 c) (p, nat fd) s;
       if err < 0 then do { s \<leftarrow> process_free_fd p fd s; Some (err, s) } else Some (fd, s)
     }
   }"

definition sys_fs_channel_open :: "syscall \<Rightarrow> 'a kvfs_scheme \<Rightarrow> (int \<times> 'a kvfs_scheme) option" where
  "sys_fs_channel_open c s = do {
     p \<leftarrow> cur_parent s;
     (fd, s) \<leftarrow> process_new_fd p s;
     if fd < 0 then Some (fd, s)
     else do {
       (err, _, s) \<leftarrow> channel_open_from_name (arg1 c) (Some (p, nat fd)) s;
       if err < 0 then do { s \<leftarrow> process_free_fd p fd s; Some (err, s) } else Some (fd, s)
     }
   }"

definition sys_fs_register :: "'a kvfs_scheme kenv \<Rightarrow> syscall \<Rightarrow> 'a kvfs_scheme \<Rightarrow> (int \<times> 'a kvfs_scheme) option" where
  "sys_fs_register e c s = do {
     p \<leftarrow> cur_parent s;
     (priv, s) \<leftarrow> kmalloc sizeof_fiu_fs s;
     if priv = NULL then Some (- ENOMEM, s)
     else do {
       (ch, s) \<leftarrow> channel_of_fd p (sint (arg2 c)) s;
       case ch of
         None \<Rightarrow> do { s \<leftarrow> kfree priv s; Some (- EBADF, s) }
       | Some master \<Rightarrow> do {
           let s = s\<lparr>fiu_fss := (fiu_fss s)(priv \<mapsto> \<lparr>fiu_master = master, fiu_ops = arg3 c\<rparr>)\<rparr>;
           P \<leftarrow> procs s p;
           fs_register (kernel_super_ops e) (arg1 c) (pid P) FiuTab FiuTab FiuFops priv s
         }
     }
   }"

definition sys_fs_unregister :: "syscall \<Rightarrow> 'a kvfs_scheme \<Rightarrow> (int \<times> 'a kvfs_scheme) option" where
  "sys_fs_unregister c s = do { p \<leftarrow> cur_parent s; P \<leftarrow> procs s p; fs_unregister (arg1 c) (pid P) s }"

section \<open>The table of calls\<close>

text \<open>
  The message of \<^verbatim>\<open>sys_uprint\<close> goes to the console, which is a state of its own; the call reads the identifiers of the
  process and the thread.
\<close>

definition sys_uprint :: "syscall \<Rightarrow> 'a kproc_scheme \<Rightarrow> (int \<times> 'a kproc_scheme) option" where
  "sys_uprint c s = do { p \<leftarrow> cur_parent s; _ \<leftarrow> procs s p; Some (0, s) }"

definition sys_execv :: "'a kvfs_scheme kenv \<Rightarrow> syscall \<Rightarrow> 'a kvfs_scheme \<Rightarrow> (int \<times> 'a kvfs_scheme) option" where
  "sys_execv e c s = process_execv e (current s) (arg1 c) (arg2 c) s"

text \<open>The array of arguments of a new thread is changed in place.\<close>

definition call_thread_create :: "thread \<Rightarrow> syscall \<Rightarrow> 'a kproc_scheme \<Rightarrow> (int \<times> 'a kproc_scheme) option" where
  "call_thread_create jt c s = do {
     let argv = (if arg3 c = NULL then None else Some (argv_at (arg3 c) (nat (sint (arg2 c))) (kbytes s)));
     (r, argv, s) \<leftarrow> sys_thread_create jt (arg1 c) argv s;
     Some (r, case argv of None \<Rightarrow> s | Some xs \<Rightarrow> mem_upd (put_argv (arg3 c) xs) s)
   }"

text \<open>\<open>jp\<close> and \<open>jt\<close> are the contents of the memory that a new process and a new thread get.\<close>

definition syscalls :: "'a kvfs_scheme kenv \<Rightarrow> process \<Rightarrow> thread \<Rightarrow> (syscall \<Rightarrow> 'a kvfs_scheme \<Rightarrow> (int \<times> 'a kvfs_scheme) option) list" where
  "syscalls e jp jt =
     [sys_uprint,
      \<lambda>c. sys_usleep (en_yield e) (arg1 c) (Some (sy_regs c)),
      \<lambda>c. sys_exit (sint (arg1 c)),
      \<lambda>c. sys_fork (kernel_f_ops e) jp jt (snd (sy_regs c)),
      \<lambda>c s. map_option (\<lambda>r. (r, s)) (sys_getpid s),
      \<lambda>c. sys_waitpid (en_yield e) (sint (arg1 c)) (arg2 c) (sint (arg3 c)),
      sys_execv e,
      call_thread_create jt,
      \<lambda>c. sys_thread_exit,
      \<lambda>c s. map_option (\<lambda>r. (r, s)) (sys_gettid s),
      \<lambda>c. sys_interrupt_register (sint (arg1 c)),
      \<lambda>c. sys_interrupt_listen (en_yield e) (sint (arg1 c)),
      \<lambda>c. sys_interrupt_unregister (sint (arg1 c)),
      sys_mmap,
      sys_munmap,
      sys_mmap_physical,
      sys_vfs_device_create,
      sys_vfs_open e,
      sys_vfs_read e,
      sys_vfs_write e,
      sys_vfs_close e,
      sys_vfs_lseek,
      sys_vfs_mount e,
      sys_vfs_stat e,
      sys_vfs_fstat e,
      sys_vfs_ioctl e,
      sys_vfs_dup e,
      sys_vfs_dup2 e,
      sys_vfs_getdirent e,
      sys_vfs_device_exists,
      sys_vfs_open_device e,
      sys_fs_channel_create,
      sys_fs_channel_open,
      sys_fs_register e,
      sys_fs_unregister]"

definition i386_pc_syscall_convert :: "u32 \<times> irq_regs \<Rightarrow> syscall" where
  "i386_pc_syscall_convert r =
     \<lparr>sy_num = sint (eax (snd r)), arg1 = ebx (snd r), arg2 = ecx (snd r), arg3 = edx (snd r), arg4 = esi (snd r), arg5 = edi (snd r), sy_regs = r\<rparr>"

text \<open>The result is written to the saved register \<^verbatim>\<open>eax\<close>.\<close>

definition syscall_handler :: "'a kvfs_scheme kenv \<Rightarrow> process \<Rightarrow> thread \<Rightarrow> u32 \<times> irq_regs \<Rightarrow> 'a kvfs_scheme \<Rightarrow> (irq_regs \<times> 'a kvfs_scheme) option" where
  "syscall_handler e jp jt regs s =
     (let call = i386_pc_syscall_convert regs; syscall_max = int (length (syscalls e jp jt)) in
      if sy_num call \<le> 0 \<or> sy_num call > syscall_max then Some ((snd regs)\<lparr>eax := - 1\<rparr>, s)
      else do {
        (r, s) \<leftarrow> (syscalls e jp jt ! nat (sy_num call - 1)) call s;
        Some ((snd regs)\<lparr>eax := word_of_int r\<rparr>, s)
      })"

definition i386_pc_syscall_initialize :: "'a kirq_scheme \<Rightarrow> int \<times> 'a kirq_scheme" where
  "i386_pc_syscall_initialize s =
     (let (err, s) = interrupt_register IRQ_SYSCALL INTERRUPT_CALLBACK (Some SyscallHandler) s in if err < 0 then (err, s) else (0, s))"

definition syscall_initialize :: "'a kirq_scheme \<Rightarrow> 'a kirq_scheme option" where
  "syscall_initialize s = (let (r, s) = i386_pc_syscall_initialize s in if r < 0 then None else Some s)"

section \<open>Page faults\<close>

definition PAGE_FAULT_WRITE :: u32 where "PAGE_FAULT_WRITE = 2"

definition PAGE_FAULT_USER :: u32 where "PAGE_FAULT_USER = 4"

definition PROCESS_CODE_SEGV :: int where "PROCESS_CODE_SEGV = 128"

text \<open>\<open>cr2\<close> is the register with the faulting address. The messages to the console are not part of this state.\<close>

definition page_fault_handler :: "u32 \<Rightarrow> irq_regs \<Rightarrow> 'a kirq_scheme \<Rightarrow> 'a kirq_scheme option" where
  "page_fault_handler cr2 regs s =
     (if current s = NULL then None
      else do {
        th \<leftarrow> threads s (current s);
        P \<leftarrow> procs s (th_parent th);
        if cr2 < KERNEL_BEGIN \<or> irq_data regs AND PAGE_FAULT_USER \<noteq> 0
        then do {
          (mp, s) \<leftarrow> (if irq_data regs AND PAGE_FAULT_WRITE \<noteq> 0 then as_mapping_locate (p_as P) cr2 s else Some (NULL, s));
          is_cow \<leftarrow> (if mp = NULL then Some False
            else do {
              A \<leftarrow> spaces s (p_as P);
              m \<leftarrow> map_of (mapping A) mp;
              sg \<leftarrow> map_of (segment_head s) (map_phy m);
              Some (seg_flags sg AND SEGMENT_FLAGS_COW \<noteq> 0)
            });
          if is_cow then cow (p_as P) mp s
          else if irq_data regs AND PAGE_FAULT_USER \<noteq> 0 then process_exit (th_parent th) PROCESS_CODE_SEGV s
          else None
        }
        else None
      })"

end
