(* ===== verification/Boot.thy ===== *)
theory Boot
  imports Syscall
begin

unbundle bit_operations_syntax

text \<open>
  The start of the kernel: the tables of a multiprocessor machine (\<^verbatim>\<open>kernel/arch/i386/mp.c\<close>), the programs that the
  boot loader has put into memory (\<^verbatim>\<open>kernel/core/module.c\<close>), the cpus (\<^verbatim>\<open>kernel/core/cpu.c\<close>) and \<^verbatim>\<open>kernel_main\<close>
  (\<^verbatim>\<open>kernel/core/main.c\<close>), which calls the initialisations of all other parts.
\<close>

section \<open>Multiprocessor tables\<close>

text \<open>The bytes \<^verbatim>\<open>_MP_\<close> and \<^verbatim>\<open>PCMP\<close>, read as characters.\<close>

definition has_bytes :: "ptr \<Rightarrow> u8 list \<Rightarrow> mem \<Rightarrow> bool" where
  "has_bytes p w m \<longleftrightarrow> bytes_at m p (length w) = w"

text \<open>The counter of the loop is never incremented: the search goes on until the bytes are found.\<close>

partial_function (option) mp_find_loop :: "ptr \<Rightarrow> mem \<Rightarrow> ptr option" where
  "mp_find_loop start m = (if has_bytes start [0x5F, 0x4D, 0x50, 0x5F] m then Some start else mp_find_loop (start + 16) m)"

declare mp_find_loop.simps [code]

definition mp_find_magic :: "ptr \<Rightarrow> u32 \<Rightarrow> mem \<Rightarrow> ptr option" where
  "mp_find_magic start len m = (if 0 < len div 16 then mp_find_loop start m else Some NULL)"

text \<open>The sizes of the entries of the configuration table. The loop looks at the type of the entry that it has reached.\<close>

definition mp_entry_size :: "u8 \<Rightarrow> u32 option" where
  "mp_entry_size type = (if type = 0 then Some 20 else if type = 1 then Some 8 else if type = 2 then Some 8
     else if type = 3 then Some 8 else if type = 4 then Some 8 else None)"

fun mp_entries :: "nat \<Rightarrow> ptr \<Rightarrow> mem \<Rightarrow> int" where
  "mp_entries 0 type m = 1"
| "mp_entries (Suc n) type m = (case mp_entry_size (m type) of None \<Rightarrow> 0 | Some k \<Rightarrow> mp_entries n (type + k) m)"

definition mp_parse_config :: "ptr \<Rightarrow> mem \<Rightarrow> int" where
  "mp_parse_config table m =
     (let config = get_word (table + 4) m + 0xC0000000 in
      if \<not> has_bytes config [0x50, 0x43, 0x4D, 0x50] m then 0
      else mp_entries (unat (get_half (config + 34) m)) (config + 44) m)"

text \<open>The second result is the new value of the variable \<^verbatim>\<open>mp_table\<close>.\<close>

definition mp_parse_tables :: "ptr \<Rightarrow> mem \<Rightarrow> (int \<times> ptr) option" where
  "mp_parse_tables mp_table m = do {
     table \<leftarrow> mp_find_magic (push_bit 4 (ucast (get_half 0xC0000400 m)) + 0xC0000000) 1024 m;
     table \<leftarrow> (if table \<noteq> NULL then Some table else mp_find_magic (ucast (get_half 0xC0000413 m) * 1024 + 0xC0000000) 1024 m);
     table \<leftarrow> (if table \<noteq> NULL then Some table else mp_find_magic 0xC00F0000 0xFFFF m);
     if table = NULL then Some (0, mp_table)
     else if m (table + 8) \<noteq> 1 \<or> get_word (table + 4) m = 0 then Some (0, mp_table)
     else do {
       let ret = mp_parse_config table m;
       Some (ret, if ret \<noteq> 0 then table else mp_table)
     }
   }"

section \<open>Modules\<close>

partial_function (option) skip_space :: "ptr \<Rightarrow> mem \<Rightarrow> ptr option" where
  "skip_space p m = (if m p = 0x20 \<or> m p = 0x09 then skip_space (p + 1) m else Some p)"

declare skip_space.simps [code]

partial_function (option) skip_arg :: "ptr \<Rightarrow> mem \<Rightarrow> ptr option" where
  "skip_arg p m = (if m p \<noteq> 0 \<and> m p \<noteq> 0x20 \<and> m p \<noteq> 0x09 then skip_arg (p + 1) m else Some p)"

declare skip_arg.simps [code]

text \<open>The variables that \<^verbatim>\<open>add_argv\<close> gets by reference.\<close>

record args =
  ar_argv :: ptr
  ar_size :: u32
  ar_max :: u32

text \<open>A null pointer as argument ends the array.\<close>

definition add_argv :: "ptr \<Rightarrow> u32 \<Rightarrow> args \<Rightarrow> 'a kheap_scheme \<Rightarrow> (int \<times> args \<times> 'a kheap_scheme) option" where
  "add_argv arg arg_size v s = do {
     (ok, v, s) \<leftarrow> (if ar_size v = ar_max v
       then do {
         (tmp, s) \<leftarrow> krealloc (ar_argv v) (4 * ar_max v * 2) s;
         if tmp = NULL then Some (False, v, s)
         else do {
           let v = v\<lparr>ar_max := ar_max v * 2, ar_argv := tmp\<rparr>;
           Some (True, v, s\<lparr>kbytes := snd (memset (ar_argv v + 4 * ar_size v) 0 (ar_max v - ar_size v) (kbytes s))\<rparr>)
         }
       }
       else Some (True, v, s));
     if \<not> ok then Some (- ENOMEM, v, s)
     else do {
       let slot = ar_argv v + 4 * ar_size v;
       if arg \<noteq> NULL
       then do {
         (p, s) \<leftarrow> kmalloc (arg_size + 1) s;
         let s = mem_upd (put_word slot p) s;
         if p = NULL then Some (- ENOMEM, v, s)
         else do {
           let s = s\<lparr>kbytes := snd (memcpy p arg arg_size (kbytes s))\<rparr>;
           Some (0, v\<lparr>ar_size := ar_size v + 1\<rparr>, mem_upd (\<lambda>m. m(p + arg_size := 0)) s)
         }
       }
       else Some (0, v\<lparr>ar_size := ar_size v + 1\<rparr>, mem_upd (put_word slot NULL) s)
     }
   }"

text \<open>The loop of \<^verbatim>\<open>split_args\<close> over the command line.\<close>

partial_function (option) split_loop :: "ptr \<Rightarrow> args \<Rightarrow> 'a kheap_scheme \<Rightarrow> (int \<times> args \<times> 'a kheap_scheme) option" where
  "split_loop cmdline v s =
     (if kbytes s cmdline \<noteq> 0
      then do {
        arg_begin \<leftarrow> skip_space cmdline (kbytes s);
        cmdline \<leftarrow> skip_arg arg_begin (kbytes s);
        (r, v, s) \<leftarrow> add_argv arg_begin (cmdline - arg_begin) v s;
        if r < 0 then Some (r, v, s) else split_loop cmdline v s
      }
      else Some (0, v, s))"

declare split_loop.simps [code]

partial_function (option) free_args :: "ptr \<Rightarrow> 'a kheap_scheme \<Rightarrow> 'a kheap_scheme option" where
  "free_args slot s =
     (let p = get_word slot (kbytes s) in
      if p = NULL then Some s else do { s \<leftarrow> kfree p s; free_args (slot + 4) s })"

declare free_args.simps [code]

text \<open>\<open>lit\<close> is the address of the literal \<^verbatim>\<open>"boot-module"\<close>. The second result is the array.\<close>

definition split_args :: "ptr \<Rightarrow> ptr \<Rightarrow> 'a kheap_scheme \<Rightarrow> (int \<times> ptr \<times> 'a kheap_scheme) option" where
  "split_args lit cmdline s = do {
     (argv, s) \<leftarrow> kmalloc 4 s;
     if argv = NULL then Some (- ENOMEM, argv, s)
     else do {
       let s = s\<lparr>kbytes := snd (memset argv 0 4 (kbytes s))\<rparr>;
       (r, v, s) \<leftarrow> add_argv lit 11 \<lparr>ar_argv = argv, ar_size = 0, ar_max = 1\<rparr> s;
       (r, v, s) \<leftarrow> (if r < 0 then Some (r, v, s) else split_loop cmdline v s);
       (r, v, s) \<leftarrow> (if r < 0 then Some (r, v, s) else add_argv NULL 0 v s);
       if r < 0
       then do {
         s \<leftarrow> (if ar_argv v \<noteq> NULL then do { s \<leftarrow> free_args (ar_argv v) s; kfree (ar_argv v) s } else Some s);
         Some (- ENOMEM, ar_argv v, s)
       }
       else Some (0, ar_argv v, s)
     }
   }"

text \<open>The pointers of a null-terminated array.\<close>

partial_function (option) argv_ptrs :: "ptr \<Rightarrow> mem \<Rightarrow> ptr list option" where
  "argv_ptrs a m = (if get_word a m = NULL then Some [] else do { ps \<leftarrow> argv_ptrs (a + 4) m; Some (get_word a m # ps) })"

declare argv_ptrs.simps [code]

definition load_module :: "process \<Rightarrow> thread \<Rightarrow> ptr \<Rightarrow> boot_modules \<Rightarrow> 'a kproc_scheme \<Rightarrow> 'a kproc_scheme option" where
  "load_module jp jt lit md s = do {
     n \<leftarrow> (if mod_args md = NULL then Some 0 else strlen (mod_args md) (kbytes s));
     (argv, s) \<leftarrow> (if mod_args md \<noteq> NULL \<and> n > 0
       then do { (r, argv, s) \<leftarrow> split_args lit (mod_args md) s; if r < 0 then None else Some (argv, s) }
       else Some (NULL, s));
     list \<leftarrow> (if argv = NULL then Some None else map_option Some (argv_ptrs argv (kbytes s)));
     (p, s) \<leftarrow> process_create jp jt PROCESS_TYPE_USER (mod_start md) PROCESS_FLAG_LOAD list s;
     if p = NULL then None else kfree argv s
   }"

definition module_initialize :: "process \<Rightarrow> thread \<Rightarrow> ptr \<Rightarrow> boot_info \<Rightarrow> 'a kproc_scheme \<Rightarrow> 'a kproc_scheme option" where
  "module_initialize jp jt lit boot s = (if mods boot = [] then None else for_each (load_module jp jt lit) (mods boot) s)"

section \<open>Cpus\<close>

definition sizeof_cpu :: u32 where "sizeof_cpu = 44 + sizeof_tss"

text \<open>
  \<open>jc\<close> is what the memory of the cpus holds when it is allocated, \<open>idle\<close> the address of the code of the idle thread. The
  descriptor of the task state, \<^verbatim>\<open>tss_initialize\<close>, is in the theory \<open>Interrupt\<close>.
\<close>

definition cpu_initialize :: "process \<Rightarrow> thread \<Rightarrow> cpu list \<Rightarrow> u32 \<Rightarrow> 'a kfiles_scheme \<Rightarrow> 'a kfiles_scheme option" where
  "cpu_initialize jp jt jc idle s = do {
     (c, s) \<leftarrow> kmalloc (sizeof_cpu * of_nat CPU_COUNT) s;
     if c = NULL then None
     else do {
       let s = s\<lparr>cpus := jc\<rparr>;
       let s = fold (\<lambda>i s. let s = s\<lparr>cpus := (cpus s)[i := (cpus s ! i)\<lparr>cpu_id := int i\<rparr>]\<rparr>; s = scheduler_initialize i s
                           in s\<lparr>cpus := (cpus s)[i := (cpus s ! i)\<lparr>cpu_timers := []\<rparr>]\<rparr>) [0..<CPU_COUNT] s;
       s \<leftarrow> kthread_initialize jp jt s;
       for_each (\<lambda>i s. do {
         (t, s) \<leftarrow> kthread_create jt idle None s;
         if t = NULL then None else Some (sched_upd i (\<lambda>sc. sc\<lparr>sc_idle := t\<rparr>) s)
       }) [0..<CPU_COUNT] s
     }
   }"

definition cpu_start :: "'a kproc_scheme \<Rightarrow> 'a kproc_scheme option" where
  "cpu_start s = do { c \<leftarrow> cpu_get cpu_id_get s; scheduler_start c s }"

section \<open>The kernel\<close>

text \<open>
  The start of the kernel, up to the first thread; the console is a state of its own. \<open>tables\<close> fills the tables of the hardware for
  interrupts. The static objects of the kernel are zero at the start: the address space of the kernel is \<open>as_blank\<close>.
\<close>

definition kernel_main :: "'a kvfs_scheme kenv \<Rightarrow> ('a kvfs_scheme \<Rightarrow> 'a kvfs_scheme) \<Rightarrow> process \<Rightarrow> thread \<Rightarrow> cpu list \<Rightarrow> u32 \<Rightarrow> ptr \<Rightarrow> boot_info \<Rightarrow> 'a kvfs_scheme
    \<Rightarrow> 'a kvfs_scheme option" where
  "kernel_main e tables jp jt jc idle lit boot s = do {
     let s = kmalloc_initialize boot s;
     s \<leftarrow> segment_initialize boot s;
     let s = s\<lparr>spaces := (spaces s)(kernel_as s \<mapsto> as_blank)\<rparr>;
     (ok, s) \<leftarrow> as_initialize as_glue_dispatcher (kernel_as s) s;
     if ok = 0 then None
     else do {
       s \<leftarrow> interrupt_initialize tables s;
       s \<leftarrow> timer_initialize (i386_pc_timer_initialize pit_initialize) s;
       (ret, s) \<leftarrow> vfs_initialize e s;
       if ret < 0 then None
       else do {
         let s = process_initialize s;
         s \<leftarrow> syscall_initialize s;
         s \<leftarrow> cpu_initialize jp jt jc idle s;
         s \<leftarrow> module_initialize jp jt lit boot s;
         cpu_start s
       }
     }
   }"

end
