(* ===== verification/Console.thy ===== *)
theory Console
  imports Kernel_Prelude
begin

unbundle bit_operations_syntax

text \<open>
  The console of the kernel: formatted output (\<^verbatim>\<open>kernel/core/console.c\<close>), the text screen
  (\<^verbatim>\<open>kernel/arch/i386/vga_text.c\<close>) and the serial line (\<^verbatim>\<open>serial.c\<close>), joined by
  \<^verbatim>\<open>kernel/glue/i386-pc/console.c\<close>. A write outside of the video memory is \<open>None\<close>. The results:
  the screen shows the last 25 lines of everything written, and numbers are printed as the
  digits that denote them.
\<close>

section \<open>The text screen\<close>

definition YMAX :: nat where "YMAX = 25"

definition XMAX :: nat where "XMAX = 80"

datatype console_color = COLOR_GREY | COLOR_RED | COLOR_BLUE | COLOR_GREEN

definition X86_VGA_TEXT_BLUE :: u8 where "X86_VGA_TEXT_BLUE = 1"

definition X86_VGA_TEXT_GREEN :: u8 where "X86_VGA_TEXT_GREEN = 2"

definition X86_VGA_TEXT_RED :: u8 where "X86_VGA_TEXT_RED = 4"

definition X86_VGA_TEXT_GREY :: u8 where "X86_VGA_TEXT_GREY = 7"

text \<open>
  The cursor, the cells of the video memory (character and colour), the cursor position told to the device, and
  the bytes sent over the serial line, the last one first.
\<close>

record con =
  vga_x :: nat
  vga_y :: nat
  vga_color :: u8
  vga_mem :: "(u8 \<times> u8) list"
  crtc :: "u8 \<times> u8"
  serial :: "u8 list"

definition update_cursor :: "con \<Rightarrow> con" where
  "update_cursor s =
     (let cursor = (of_nat (vga_x s + vga_y s * XMAX) :: u16)
      in s\<lparr>crtc := (ucast (drop_bit 8 cursor AND 0xFF), ucast (cursor AND 0xFF))\<rparr>)"

definition SPACE :: u8 where "SPACE = 32"

definition NEWLINE :: u8 where "NEWLINE = 10"

definition cell_write :: "nat \<Rightarrow> u8 \<times> u8 \<Rightarrow> con \<Rightarrow> con option" where
  "cell_write i c s = (if i < length (vga_mem s) then Some (s\<lparr>vga_mem := (vga_mem s)[i := c]\<rparr>) else None)"

definition clear_line :: "nat \<Rightarrow> con \<Rightarrow> con option" where
  "clear_line line s = for_each (\<lambda>x s. cell_write (x + line * XMAX) (SPACE, vga_color s) s) [0..<XMAX] s"

text \<open>\<^verbatim>\<open>memcpy\<close> copies upwards, to a lower address, so that the overlap does no harm.\<close>

definition scroll :: "con \<Rightarrow> con option" where
  "scroll s =
     (let n = (YMAX - 1) * XMAX in
      if length (vga_mem s) < n + XMAX then None
      else map_option update_cursor
             (clear_line 24 (s\<lparr>vga_mem := take n (drop XMAX (vga_mem s)) @ drop n (vga_mem s)\<rparr>)))"

definition x86_vga_text_init :: "con \<Rightarrow> con" where
  "x86_vga_text_init s = update_cursor (s\<lparr>vga_x := 0, vga_y := 0, vga_color := X86_VGA_TEXT_GREY\<rparr>)"

definition x86_vga_text_putc :: "u8 \<Rightarrow> con \<Rightarrow> con option" where
  "x86_vga_text_putc c s = do {
     let s = (if vga_x s = XMAX then s\<lparr>vga_x := 0, vga_y := vga_y s + 1\<rparr> else s);
     s \<leftarrow> (if vga_y s = YMAX then scroll (s\<lparr>vga_y := YMAX - 1\<rparr>) else Some s);
     s \<leftarrow> (if c = NEWLINE
           then let s = s\<lparr>vga_y := vga_y s + 1, vga_x := 0\<rparr>
                in if vga_y s = YMAX then scroll (s\<lparr>vga_y := YMAX - 1\<rparr>) else Some s
           else do {
             s \<leftarrow> cell_write (vga_y s * XMAX + vga_x s) (c, vga_color s) s;
             Some (s\<lparr>vga_x := vga_x s + 1\<rparr>)
           });
     Some (update_cursor s)
   }"

definition x86_vga_text_color :: "console_color \<Rightarrow> con \<Rightarrow> con" where
  "x86_vga_text_color c s = (case c of
     COLOR_GREY \<Rightarrow> s\<lparr>vga_color := X86_VGA_TEXT_GREY\<rparr>
   | COLOR_RED \<Rightarrow> s\<lparr>vga_color := X86_VGA_TEXT_RED\<rparr>
   | COLOR_BLUE \<Rightarrow> s\<lparr>vga_color := X86_VGA_TEXT_BLUE\<rparr>
   | COLOR_GREEN \<Rightarrow> s\<lparr>vga_color := X86_VGA_TEXT_GREEN\<rparr>)"

definition x86_vga_text_clear :: "con \<Rightarrow> con option" where
  "x86_vga_text_clear s = map_option update_cursor (for_each clear_line [0..<YMAX] (s\<lparr>vga_x := 0, vga_y := 0\<rparr>))"

section \<open>Both devices\<close>

text \<open>The serial line is taken to become ready; waiting for it has no other effect.\<close>

definition x86_serial_putc :: "u8 \<Rightarrow> con \<Rightarrow> con" where
  "x86_serial_putc c s = s\<lparr>serial := c # serial s\<rparr>"

definition i386_pc_console_putc :: "u8 \<Rightarrow> con \<Rightarrow> con option" where
  "i386_pc_console_putc c s = map_option (x86_serial_putc c) (x86_vga_text_putc c s)"

section \<open>Formatted output\<close>

text \<open>A string is the list of its characters before the terminating zero.\<close>

definition console_puts :: "u8 list \<Rightarrow> con \<Rightarrow> con option" where
  "console_puts str s = for_each i386_pc_console_putc str s"

definition console_init :: "con \<Rightarrow> con option" where
  "console_init s = x86_vga_text_clear (x86_vga_text_init s)"

partial_function (option) console_unsigned :: "u32 \<Rightarrow> u32 \<Rightarrow> con \<Rightarrow> con option" where
  "console_unsigned num base s = do {
     s \<leftarrow> (if num \<ge> base then (if base = 0 then None else console_unsigned (num div base) base s) else Some s);
     let num = (if num \<ge> base then num mod base else num);
     i386_pc_console_putc (if num \<ge> 10 then 65 + ucast num - 10 else 48 + ucast num) s
   }"

declare console_unsigned.simps [code]

definition console_signed :: "u32 \<Rightarrow> u32 \<Rightarrow> con \<Rightarrow> con option" where
  "console_signed num base s =
     (if sint num < 0
      then do { s \<leftarrow> i386_pc_console_putc 45 s; console_unsigned (- num) base s }
      else console_unsigned num base s)"

text \<open>The variable arguments; reading one of another kind, or one too many, is undefined.\<close>

datatype va_arg = VaInt u32 | VaStr "u8 list"

fun console_vprintf :: "u8 list \<Rightarrow> va_arg list \<Rightarrow> con \<Rightarrow> con option" where
  "console_vprintf [] args s = Some s"
| "console_vprintf (c # str) args s =
     (if c = 37
      then case str of [] \<Rightarrow> None
      | d # str \<Rightarrow>
          if d = 99 then (case args of VaInt v # args \<Rightarrow> Option.bind (i386_pc_console_putc (ucast v) s) (console_vprintf str args) | _ \<Rightarrow> None)
          else if d = 115 then (case args of VaStr v # args \<Rightarrow> Option.bind (console_puts v s) (console_vprintf str args) | _ \<Rightarrow> None)
          else if d = 117 then (case args of VaInt v # args \<Rightarrow> Option.bind (console_unsigned v 10 s) (console_vprintf str args) | _ \<Rightarrow> None)
          else if d = 105 \<or> d = 100 then (case args of VaInt v # args \<Rightarrow> Option.bind (console_signed v 10 s) (console_vprintf str args) | _ \<Rightarrow> None)
          else if d = 120 then (case args of VaInt v # args \<Rightarrow> Option.bind (console_unsigned v 16 s) (console_vprintf str args) | _ \<Rightarrow> None)
          else if d = 37 then Option.bind (i386_pc_console_putc 37 s) (console_vprintf str args)
          else console_vprintf str args s
      else Option.bind (i386_pc_console_putc c s) (console_vprintf str args))"

datatype console_type = T_INF | T_ERR | T_OK

definition console_message :: "console_type \<Rightarrow> u8 list \<Rightarrow> va_arg list \<Rightarrow> con \<Rightarrow> con option" where
  "console_message t str args s = do {
     s \<leftarrow> i386_pc_console_putc 91 (x86_vga_text_color COLOR_GREY s);
     s \<leftarrow> (case t of
             T_INF \<Rightarrow> console_puts [73, 70] (x86_vga_text_color COLOR_BLUE s)
           | T_ERR \<Rightarrow> console_puts [75, 79] (x86_vga_text_color COLOR_RED s)
           | T_OK \<Rightarrow> console_puts [79, 75] (x86_vga_text_color COLOR_GREEN s));
     s \<leftarrow> i386_pc_console_putc 93 (x86_vga_text_color COLOR_GREY s);
     s \<leftarrow> i386_pc_console_putc 32 s;
     s \<leftarrow> console_vprintf str args s;
     i386_pc_console_putc NEWLINE s
   }"


section \<open>What the screen shows\<close>

lemma concat_update:
  assumes "\<forall>r \<in> set rows. length r = n" "i < length rows" "j < n"
  shows "(concat rows)[i * n + j := v] = concat (rows[i := (rows ! i)[j := v]])"
  using assms
proof (induction rows arbitrary: i)
  case (Cons r rows)
  then show ?case by (cases i) (simp_all add: list_update_append add.assoc)
qed simp

lemma clear_loop:
  assumes "k + n \<le> length (vga_mem s)"
  shows "for_each (\<lambda>x s. cell_write (x + k) (SPACE, vga_color s) s) [0..<n] s =
    Some (s\<lparr>vga_mem := take k (vga_mem s) @ replicate n (SPACE, vga_color s) @ drop (k + n) (vga_mem s)\<rparr>)"
  using assms
proof (induction n)
  case (Suc n)
  let ?m = "vga_mem s"
  have "n + k < length ?m" using Suc.prems by simp
  moreover from this have "drop (k + n) ?m = ?m ! (k + n) # drop (Suc (k + n)) ?m" by (simp add: Cons_nth_drop_Suc add.commute)
  ultimately show ?case
    using Suc by (simp add: for_each_append cell_write_def list_update_append replicate_append_same [symmetric] add.commute min_def)
qed simp

lemma clear_line_eq:
  assumes "(line + 1) * XMAX \<le> length (vga_mem s)"
  shows "clear_line line s = Some (s\<lparr>vga_mem := take (line * XMAX) (vga_mem s) @ replicate XMAX (SPACE, vga_color s)
    @ drop (line * XMAX + XMAX) (vga_mem s)\<rparr>)"
  using assms clear_loop [of "line * XMAX" XMAX s] by (simp add: clear_line_def)

text \<open>
  The text written so far, as lines of at most 80 characters, the last one being the line of the cursor: a
  line that is full is continued on a new one.
\<close>

definition term_put :: "u8 \<Rightarrow> u8 list list \<Rightarrow> u8 list list" where
  "term_put c ls =
     (let ls = (if length (last ls) = 80 then ls @ [[]] else ls)
      in if c = NEWLINE then ls @ [[]] else butlast ls @ [last ls @ [c]])"

definition padded :: "u8 list \<Rightarrow> u8 list" where
  "padded l = l @ replicate (80 - length l) SPACE"

definition visible :: "u8 list list \<Rightarrow> u8 list list" where
  "visible ls = drop (length ls - 25) ls @ replicate (25 - length ls) []"

definition displays :: "u8 list list \<Rightarrow> con \<Rightarrow> bool" where
  "displays ls s \<longleftrightarrow> ls \<noteq> [] \<and> (\<forall>l \<in> set ls. length l \<le> 80) \<and> vga_x s = length (last ls) \<and> vga_y s = min (length ls) 25 - 1
     \<and> map fst (vga_mem s) = concat (map padded (visible ls))"

lemma length_visible [simp]: "length (visible ls) = 25"
  by (auto simp: visible_def)

lemma length_concat_const: "\<forall>r \<in> set rows. length r = n \<Longrightarrow> length (concat rows) = length rows * n"
  by (induction rows) auto

lemma rows_80:
  assumes "\<forall>l \<in> set ls. length l \<le> 80"
  shows "\<forall>r \<in> set (map padded (visible ls)). length r = 80" and "length (concat (map padded (visible ls))) = 2000"
proof -
  show r: "\<forall>r \<in> set (map padded (visible ls)). length r = 80"
    using assms by (auto simp: visible_def padded_def dest: in_set_dropD)
  show "length (concat (map padded (visible ls))) = 2000" using length_concat_const [OF r] by simp
qed


lemma scroll_eq:
  assumes "length (vga_mem s) = 2000"
  shows "scroll s = Some (update_cursor (s\<lparr>vga_mem := drop 80 (vga_mem s) @ replicate 80 (SPACE, vga_color s)\<rparr>))"
  using assms by (simp add: scroll_def Let_def clear_line_eq XMAX_def YMAX_def)

lemma displays_mem: "displays ls s \<Longrightarrow> length (vga_mem s) = 2000"
  unfolding displays_def by (metis length_map rows_80(2))

lemma displays_cursor [simp]: "displays ls (update_cursor s) = displays ls s"
  by (simp add: displays_def update_cursor_def Let_def)

lemma update_cursor_serial: "serial (update_cursor s) = serial s"
  by (simp add: update_cursor_def Let_def)

lemma line_feed:
  assumes d: "displays ls s"
  shows "\<exists>s'. (if vga_y s + 1 = YMAX then scroll (s\<lparr>vga_x := 0, vga_y := YMAX - 1\<rparr>) else Some (s\<lparr>vga_x := 0, vga_y := vga_y s + 1\<rparr>)) = Some s'
    \<and> displays (ls @ [[]]) s' \<and> serial s' = serial s"
proof (cases "vga_y s + 1 = YMAX")
  case True
  let ?s = "s\<lparr>vga_x := 0, vga_y := YMAX - 1\<rparr>"
  have n: "25 \<le> length ls" using True d by (auto simp: displays_def YMAX_def)
  then have v: "visible ls = ls ! (length ls - 25) # drop (Suc (length ls - 25)) ls"
    by (simp add: visible_def Cons_nth_drop_Suc)
  have "length ls - 24 = Suc (length ls - 25)" using n by simp
  then have v': "visible (ls @ [[]]) = tl (visible ls) @ [[]]" using n by (simp add: v) (simp add: visible_def)
  obtain r rows where rows: "map padded (visible ls) = r # rows" by (simp add: v)
  have "length r = 80" using rows_80(1) [of ls] d rows by (simp add: displays_def)
  then have "drop 80 (map fst (vga_mem s)) = concat rows" using d rows by (simp add: displays_def)
  moreover have "map padded (visible (ls @ [[]])) = rows @ [replicate 80 SPACE]"
    using rows by (cases "visible ls") (simp_all add: v' padded_def)
  ultimately have "displays (ls @ [[]]) (?s\<lparr>vga_mem := drop 80 (vga_mem s) @ replicate 80 (SPACE, vga_color s)\<rparr>)"
    using d n by (auto simp: displays_def YMAX_def drop_map)
  then show ?thesis using True scroll_eq [of ?s] displays_mem [OF d] by (simp add: update_cursor_def Let_def displays_def)
next
  case False
  have n: "length ls < 25" using False d by (auto simp: displays_def YMAX_def)
  then have "visible (ls @ [[]]) = visible ls" by (simp add: visible_def replicate_app_Cons_same flip: replicate_Suc)
  then show ?thesis using False d n by (auto simp: displays_def min_def)
qed

lemma visible_last:
  "visible (ks @ [l]) = drop (length ks - 24) ks @ l # replicate (24 - length ks) []"
  "length (drop (length ks - 24) ks) = min (length ks + 1) 25 - 1"
  by (auto simp: visible_def)

lemma put_char:
  assumes d: "displays ls s" and x: "length (last ls) < 80"
  shows "\<exists>s'. cell_write (vga_y s * XMAX + vga_x s) (c, col) s = Some s' \<and> displays (butlast ls @ [last ls @ [c]]) (s'\<lparr>vga_x := vga_x s' + 1\<rparr>) \<and> serial s' = serial s"
proof -
  let ?y = "vga_y s" and ?x = "vga_x s" and ?l = "last ls"
  have ls: "ls \<noteq> []" "\<forall>l \<in> set ls. length l \<le> 80" "?x = length ?l" "?y = min (length ls) 25 - 1"
    and m: "map fst (vga_mem s) = concat (map padded (visible ls))" using d by (simp_all add: displays_def)
  have y: "?y < 25" using ls(4) by simp
  have vy: "visible ls ! ?y = ?l" "(visible ls)[?y := ?l @ [c]] = visible (butlast ls @ [?l @ [c]])"
    using visible_last(1) [of "butlast ls" ?l] visible_last(1) [of "butlast ls" "?l @ [c]"] visible_last(2) [of "butlast ls"] ls(1, 4)
    by (simp_all add: list_update_append nth_append)
  have "?y * 80 + ?x < 2000" using y x ls(3) by simp
  then have w: "cell_write (?y * XMAX + ?x) (c, col) s = Some (s\<lparr>vga_mem := (vga_mem s)[?y * 80 + ?x := (c, col)]\<rparr>)"
    using displays_mem [OF d] by (simp add: cell_write_def XMAX_def)
  have "(padded ?l)[length ?l := c] = padded (?l @ [c])"
    using x by (simp add: padded_def list_update_append Suc_diff_Suc [symmetric])
  then have "map fst ((vga_mem s)[?y * 80 + ?x := (c, col)]) = concat (map padded (visible (butlast ls @ [?l @ [c]])))"
    unfolding vy(2) [symmetric] using concat_update [OF rows_80(1) [OF ls(2)], of ?y ?x c] y x ls(3) vy(1) m by (simp add: map_update)
  then show ?thesis using w ls x by (auto simp: displays_def dest: in_set_butlastD)
qed


lemma term_put_lines: "ls \<noteq> [] \<Longrightarrow> term_put c ls \<noteq> []"
  by (simp add: term_put_def Let_def)

lemma vga_putc_displays:
  assumes d: "displays ls s"
  shows "\<exists>s'. x86_vga_text_putc c s = Some s' \<and> displays (term_put c ls) s' \<and> serial s' = serial s"
proof -
  let ?ls = "if length (last ls) = 80 then ls @ [[]] else ls"
  let ?w = "if vga_x s = XMAX then s\<lparr>vga_x := 0, vga_y := vga_y s + 1\<rparr> else s"
  have "\<exists>s1. (if vga_y ?w = YMAX then scroll (?w\<lparr>vga_y := YMAX - 1\<rparr>) else Some ?w) = Some s1
    \<and> displays ?ls s1 \<and> length (last ?ls) < 80 \<and> serial s1 = serial s"
  proof (cases "length (last ls) = 80")
    case True
    then have "vga_x s = XMAX" using d by (simp add: displays_def XMAX_def)
    then show ?thesis using line_feed [OF d] True by (auto split: if_splits)
  next
    case False
    then show ?thesis using d by (auto simp: displays_def XMAX_def YMAX_def le_neq_implies_less)
  qed
  then obtain s1 where s1: "(if vga_y ?w = YMAX then scroll (?w\<lparr>vga_y := YMAX - 1\<rparr>) else Some ?w) = Some s1"
    "displays ?ls s1" "length (last ?ls) < 80" "serial s1 = serial s" by blast
  note putc = x86_vga_text_putc_def [of c s, unfolded Let_def s1(1) bind.bind_lunit]
  show ?thesis
  proof (cases "c = NEWLINE")
    case True
    obtain s' where s': "(if vga_y s1 + 1 = YMAX then scroll (s1\<lparr>vga_x := 0, vga_y := YMAX - 1\<rparr>)
        else Some (s1\<lparr>vga_x := 0, vga_y := vga_y s1 + 1\<rparr>)) = Some s'"
      "displays (?ls @ [[]]) s'" "serial s' = serial s1" using line_feed [OF s1(2)] by blast
    have "x86_vga_text_putc c s = Some (update_cursor s')" unfolding putc using True s'(1) by (cases s1) (auto split: if_splits)
    then show ?thesis using True s'(2, 3) s1(4) by (simp add: term_put_def Let_def update_cursor_serial)
  next
    case False
    obtain s' where s': "cell_write (vga_y s1 * XMAX + vga_x s1) (c, vga_color s1) s1 = Some s'"
      "displays (butlast ?ls @ [last ?ls @ [c]]) (s'\<lparr>vga_x := vga_x s' + 1\<rparr>)" "serial s' = serial s1"
      using put_char [OF s1(2, 3)] by blast
    have "x86_vga_text_putc c s = Some (update_cursor (s'\<lparr>vga_x := vga_x s' + 1\<rparr>))" unfolding putc using False s'(1) by simp
    then show ?thesis using False s'(2, 3) s1(4) by (simp add: term_put_def Let_def update_cursor_serial)
  qed
qed


lemma putc_displays:
  assumes "displays ls s"
  shows "\<exists>s'. i386_pc_console_putc c s = Some s' \<and> displays (term_put c ls) s' \<and> serial s' = c # serial s"
  using vga_putc_displays [OF assms, of c] by (auto simp: i386_pc_console_putc_def x86_serial_putc_def displays_def)

lemma puts_displays:
  assumes "displays ls s"
  shows "\<exists>s'. console_puts str s = Some s' \<and> displays (fold term_put str ls) s' \<and> serial s' = rev str @ serial s"
  using assms
proof (induction str arbitrary: ls s)
  case (Cons c str)
  from putc_displays [OF Cons.prems, of c] obtain s1 where
    "i386_pc_console_putc c s = Some s1" "displays (term_put c ls) s1" "serial s1 = c # serial s" by blast
  with Cons.IH [of "term_put c ls" s1] show ?case by (auto simp: console_puts_def)
qed (simp add: console_puts_def)

lemma clear_rows:
  assumes "length (vga_mem s) = 2000" "n \<le> 25"
  shows "\<exists>m. for_each clear_line [0..<n] s = Some (s\<lparr>vga_mem := m\<rparr>) \<and> length m = 2000 \<and> (\<forall>i < n * 80. fst (m ! i) = SPACE)"
  using assms(2)
proof (induction n)
  case 0
  then show ?case using assms(1) by (simp add: exI [of _ "vga_mem s"])
next
  case (Suc n)
  then obtain m where m: "for_each clear_line [0..<n] s = Some (s\<lparr>vga_mem := m\<rparr>)" "length m = 2000" "\<forall>i < n * 80. fst (m ! i) = SPACE"
    by auto
  let ?m = "take (n * 80) m @ replicate 80 (SPACE, vga_color s) @ drop (n * 80 + 80) m"
  have "for_each clear_line [0..<Suc n] s = Some (s\<lparr>vga_mem := ?m\<rparr>)"
    using m Suc.prems by (simp add: for_each_append clear_line_eq XMAX_def)
  moreover have "fst (?m ! i) = SPACE" if "i < Suc n * 80" for i
  proof (cases "i < n * 80")
    case False
    then have "i - n * 80 < 80" using that by simp
    then show ?thesis using False m(2) Suc.prems by (simp add: nth_append)
  qed (use m Suc.prems in \<open>simp add: nth_append\<close>)
  ultimately show ?case using m(2) Suc.prems by (intro exI [of _ ?m]) auto
qed

lemma clear_displays:
  assumes "length (vga_mem s) = 2000"
  shows "\<exists>s'. x86_vga_text_clear s = Some s' \<and> displays [[]] s' \<and> serial s' = serial s"
proof -
  let ?s = "s\<lparr>vga_x := 0, vga_y := 0\<rparr>"
  obtain m where m: "for_each clear_line [0..<25] ?s = Some (?s\<lparr>vga_mem := m\<rparr>)" "length m = 2000" "\<forall>i < 2000. fst (m ! i) = SPACE"
    using clear_rows [of ?s 25] assms by auto
  have "map fst m = replicate 2000 SPACE" using m(2, 3) by (simp add: list_eq_iff_nth_eq)
  moreover have "concat (map padded (visible [[]])) = replicate 2000 SPACE"
    by (simp add: visible_def padded_def concat_replicate_trivial numeral_eq_Suc flip: replicate_add)
  ultimately show ?thesis using m(1) by (simp add: x86_vga_text_clear_def YMAX_def update_cursor_def Let_def displays_def)
qed


text \<open>
  C9. The screen is a window on the text: from a video memory of 25 rows of 80 cells, initialisation
  succeeds, and whatever is then written, no character is written outside of the memory, the rows show the
  last 25 lines of the text padded with blanks, the cursor is after the last character, and the serial line gets
  the same characters in order.
\<close>
theorem console_shows_last_lines:
  assumes "length (vga_mem s) = 2000"
  shows "\<exists>s0. console_init s = Some s0 \<and> (\<forall>str. \<exists>s'. console_puts str s0 = Some s' \<and> serial s' = rev str @ serial s
    \<and> displays (fold term_put str [[]]) s')"
proof -
  have "length (vga_mem (x86_vga_text_init s)) = 2000" "serial (x86_vga_text_init s) = serial s"
    using assms by (simp_all add: x86_vga_text_init_def update_cursor_def Let_def)
  with clear_displays [of "x86_vga_text_init s"] obtain s0 where s0: "console_init s = Some s0" "displays [[]] s0" "serial s0 = serial s"
    by (auto simp: console_init_def)
  then show ?thesis using puts_displays [OF s0(2)] by auto
qed

definition con_example :: con where
  "con_example = \<lparr>vga_x = 3, vga_y = 9, vga_color = 0, vga_mem = replicate 2000 (1, 1), crtc = (0, 0), serial = []\<rparr>"

theorem console_shows_last_lines_witness:
  "\<exists>s0 s'. console_init con_example = Some s0 \<and> console_puts [72, 105, NEWLINE, 33] s0 = Some s'
     \<and> displays [[72, 105], [33]] s' \<and> serial s' = [33, NEWLINE, 105, 72]"
proof -
  have "fold term_put [72, 105, NEWLINE, 33] [[]] = [[72, 105], [33]]" by (simp add: term_put_def NEWLINE_def)
  moreover have "length (vga_mem con_example) = 2000" "serial con_example = []" by (simp_all add: con_example_def)
  ultimately show ?thesis
    using console_shows_last_lines [of con_example] by (metis append.right_neutral append_Cons append_Nil rev.simps)
qed

section \<open>Numbers\<close>

definition digit_char :: "nat \<Rightarrow> u8" where
  "digit_char d = (if d \<ge> 10 then of_nat (55 + d) else of_nat (48 + d))"

definition digit_value :: "u8 \<Rightarrow> nat" where
  "digit_value c = (if unat c \<ge> 65 then unat c - 55 else unat c - 48)"

text \<open>The usual notation of a number.\<close>

function digits :: "nat \<Rightarrow> nat \<Rightarrow> u8 list" where
  "digits b n = (if b < 2 \<or> n < b then [digit_char n] else digits b (n div b) @ [digit_char (n mod b)])"
  by pat_completeness auto
termination by (relation "measure snd") auto

declare digits.simps [simp del]

definition number :: "nat \<Rightarrow> u8 list \<Rightarrow> nat" where
  "number b ds = foldl (\<lambda>a c. a * b + digit_value c) 0 ds"

lemma digit_value_char: "d < 16 \<Longrightarrow> digit_value (digit_char d) = d"
proof -
  assume d: "d < 16"
  then have "unat (of_nat (55 + d) :: u8) = 55 + d" "unat (of_nat (48 + d) :: u8) = 48 + d"
    by (simp_all add: unsigned_of_nat take_bit_nat_eq_self del: of_nat_add)
  with d show ?thesis by (simp add: digit_value_def digit_char_def del: of_nat_add)
qed

lemma bind_for_each_Nil [simp]: "Option.bind x (for_each f []) = x" "for_each f [c] = f c"
proof -
  show bn: "Option.bind x (for_each f []) = x" for x by (cases x) simp_all
  show "for_each f [c] = f c" by (rule ext) (simp add: bn)
qed

lemma digits_number:
  assumes "2 \<le> b" "b \<le> 16"
  shows "number b (digits b n) = n"
proof (induction n rule: less_induct)
  case (less n)
  show ?case
  proof (cases "n < b")
    case True
    then show ?thesis using assms by (simp add: digits.simps [of b n] number_def digit_value_char)
  next
    case False
    then have "n div b < n" using assms by simp
    moreover have "n mod b < 16" using mod_less_divisor [of b n] assms by linarith
    ultimately show ?thesis using assms less.IH [of "n div b"] False
      by (simp add: digits.simps [of b n] number_def digit_value_char)
  qed
qed

lemma digits_first:
  assumes "2 \<le> b" "b \<le> 16" "0 < n"
  shows "digits b n \<noteq> [] \<and> hd (digits b n) \<noteq> 48"
  using assms(3)
proof (induction n rule: less_induct)
  case (less n)
  show ?case
  proof (cases "n < b")
    case True
    have "digit_value (digit_char n) = n" using True assms by (simp add: digit_value_char)
    then have "digit_char n \<noteq> 48" using less.prems by (auto simp: digit_value_def)
    then show ?thesis using True by (simp add: digits.simps [of b n])
  next
    case False
    then have "n div b < n" "0 < n div b" using assms by (simp_all add: div_greater_zero_iff)
    then show ?thesis using less.IH [of "n div b"] False assms by (simp add: digits.simps [of b n])
  qed
qed

lemma console_unsigned_digits:
  assumes "2 \<le> base" "base \<le> 16"
  shows "console_unsigned num base s = console_puts (digits (unat base) (unat num)) s"
proof (induction "unat num" arbitrary: num s rule: less_induct)
  case less
  have b: "2 \<le> unat base" "unat base \<le> 16" using assms by (simp_all add: word_le_nat_alt)
  have dc: "(if d \<ge> 10 then 65 + ucast d - 10 else 48 + ucast d) = digit_char (unat d)" if "unat d < 16" for d :: u32
    using that by (auto simp: digit_char_def word_le_nat_alt unsigned_ucast_eq word_unat_eq_iff unat_word_ariths unsigned_of_nat) 
  show ?case
  proof (cases "num \<ge> base")
    case False
    then have "unat num < unat base" by (simp add: word_less_nat_alt not_le)
    then show ?thesis using False b dc [of num]
      by (subst console_unsigned.simps) (simp add: digits.simps [of "unat base" "unat num"] console_puts_def)
  next
    case True
    then have n: "unat base \<le> unat num" by (simp add: word_le_nat_alt)
    have d: "unat (num div base) = unat num div unat base" "unat (num mod base) = unat num mod unat base"
      by (simp_all add: unat_div unat_mod)
    have lt: "unat (num div base) < unat num" using n b by (simp add: d)
    have m: "unat (num mod base) < 16" unfolding d using mod_less_divisor [of "unat base" "unat num"] b by linarith
    show ?thesis using True b n less [OF lt] dc [OF m] d
      by (subst console_unsigned.simps) (auto simp: digits.simps [of "unat base" "unat num"] console_puts_def for_each_append)
  qed
qed


lemma unat_minus_negative:
  fixes num :: u32
  assumes "sint num < 0"
  shows "unat (- num) = nat (- sint num)"
proof -
  have "- (2 ^ 31) \<le> sint num" using sint_greater_eq [of num] by simp
  then have "(- sint num) mod 2 ^ 32 = - sint num" using assms by (intro mod_pos_pos_trivial) simp_all
  moreover have "uint (- num) = (- sint num) mod 2 ^ 32" 
  proof -
    have "(word_of_int (- sint num) :: u32) = - num" by simp
    then have "uint (- num) = uint (word_of_int (- sint num) :: u32)" by simp
    then show ?thesis by (simp add: uint_word_of_int del: of_int_minus)
  qed
  ultimately show ?thesis by (simp flip: nat_uint_eq)
qed


text \<open>
  C34. Numbers are printed so that they can be read back, in any base from 2 to 16: the characters written are
  the digits whose value is the number, without a leading zero, and a negative number is a minus sign followed by the
  digits of its absolute value, also for the least number, whose negation overflows.
\<close>
theorem console_number_roundtrip:
  assumes "2 \<le> base" "base \<le> 16"
  shows "(\<exists>ds. console_unsigned num base s = console_puts ds s \<and> number (unat base) ds = unat num \<and> (num \<noteq> 0 \<longrightarrow> hd ds \<noteq> 48))
    \<and> (\<exists>ds. console_signed num base s = console_puts (if sint num < 0 then 45 # ds else ds) s
      \<and> int (number (unat base) ds) = \<bar>sint num\<bar> \<and> (num \<noteq> 0 \<longrightarrow> hd ds \<noteq> 48))"
proof -
  have b: "2 \<le> unat base" "unat base \<le> 16" using assms by (simp_all add: word_le_nat_alt)
  have u: "console_unsigned n base s = console_puts (digits (unat base) (unat n)) s" "number (unat base) (digits (unat base) (unat n)) = unat n"
    "n \<noteq> 0 \<longrightarrow> hd (digits (unat base) (unat n)) \<noteq> 48" for n s
    using console_unsigned_digits [OF assms] digits_number [OF b] digits_first [OF b, of "unat n"] by (simp_all add: unat_gt_0)
  have "\<exists>ds. console_signed num base s = console_puts (if sint num < 0 then 45 # ds else ds) s
      \<and> int (number (unat base) ds) = \<bar>sint num\<bar> \<and> (num \<noteq> 0 \<longrightarrow> hd ds \<noteq> 48)"
  proof (cases "sint num < 0")
    case True
    have "console_unsigned (- num) base = for_each i386_pc_console_putc (digits (unat base) (unat (- num)))"
      by (rule ext) (simp add: u(1) console_puts_def)
    then have "console_signed num base s = console_puts (45 # digits (unat base) (unat (- num))) s"
      using True by (simp add: console_signed_def console_puts_def)
    then show ?thesis using True u(2, 3) [of "- num"] unat_minus_negative [OF True]
      by (intro exI [of _ "digits (unat base) (unat (- num))"]) simp
  next
    case False
    then have "uint num = sint num" using uint_sint [of num] sint_less [of num] by (simp add: take_bit_int_eq_self)
    then have "int (unat num) = sint num" by simp
    then show ?thesis using False u [of num] by (auto simp: console_signed_def)
  qed
  with u [of num] show ?thesis by blast
qed

theorem console_number_roundtrip_witness:
  "\<exists>ds. console_signed 0x80000000 10 con_example = console_puts (45 # ds) con_example \<and> number 10 ds = 2147483648"
  using console_number_roundtrip [of 10 "0x80000000" con_example] by auto

end
