(* ===== verification/Malloc.thy ===== *)
theory Malloc
  imports KMalloc
begin

unbundle bit_operations_syntax

text \<open>
  The heap of a user process, \<^verbatim>\<open>userland/lib/libc/src/stdlib/malloc.c\<close>: chunks that come from the \<^verbatim>\<open>mmap\<close> system call in whole
  pages, first fit, splitting, and no merging. Its contract is that of the heap of the kernel, \<open>allocator\<close>.

  The system call is an argument: it sees the state and gives the value that the kernel returns. The state counts the calls, so that
  two calls may give different values. What the library relies on is \<open>maps_fresh\<close>: an area is given in whole pages and is not in use.
\<close>

section \<open>Chunks\<close>

record malloc_chunk =
  ck_size :: u32
  ck_free :: bool

text \<open>\<^verbatim>\<open>chunks\<close> in list view, each chunk with its address; the two links of a chunk are its place in the list.\<close>

record uheap =
  ubytes :: mem
  chunks :: "(ptr \<times> malloc_chunk) list"
  malloc_lock :: spinlock
  calls :: nat

definition sizeof_chunk :: u32 where "sizeof_chunk = 16"

definition MALLOC_WASTE_THRESHOLD :: u32 where "MALLOC_WASTE_THRESHOLD = 4"

definition ALIGN_UP :: "u32 \<Rightarrow> u32 \<Rightarrow> u32" where
  "ALIGN_UP x sz = (x + sz - 1) AND NOT (sz - 1)"

definition mmap :: "(u32 \<Rightarrow> 'a uheap_scheme \<Rightarrow> int) \<Rightarrow> u32 \<Rightarrow> 'a uheap_scheme \<Rightarrow> ptr \<times> 'a uheap_scheme" where
  "mmap sys len s = (let ret = sys len s; s = s\<lparr>calls := calls s + 1\<rparr> in (if ret < 0 then NULL else word_of_int ret, s))"

definition request_memory :: "(u32 \<Rightarrow> 'a uheap_scheme \<Rightarrow> int) \<Rightarrow> u32 \<Rightarrow> 'a uheap_scheme \<Rightarrow> (ptr \<times> malloc_chunk) option \<times> 'a uheap_scheme" where
  "request_memory sys sz s =
     (let sz = ALIGN_UP (sz + sizeof_chunk) PAGE_SIZE;
          (chunk, s) = mmap sys sz s
      in if chunk = NULL then (None, s) else (Some (chunk, \<lparr>ck_size = sz - sizeof_chunk, ck_free = True\<rparr>), s))"

text \<open>The chunks that stand for a chunk after it has been taken.\<close>

definition malloc_split_block :: "u32 \<Rightarrow> ptr \<Rightarrow> malloc_chunk \<Rightarrow> (ptr \<times> malloc_chunk) list" where
  "malloc_split_block sz chunk c =
     (if ck_size c \<ge> sz + sizeof_chunk + MALLOC_WASTE_THRESHOLD
      then [(chunk, c\<lparr>ck_size := sz, ck_free := False\<rparr>),
            (chunk + sizeof_chunk + sz, \<lparr>ck_size = ck_size c - sz - sizeof_chunk, ck_free = True\<rparr>)]
      else [(chunk, c\<lparr>ck_free := False\<rparr>)])"

definition malloc_initialize :: "(u32 \<Rightarrow> 'a uheap_scheme \<Rightarrow> int) \<Rightarrow> 'a uheap_scheme \<Rightarrow> int \<times> 'a uheap_scheme" where
  "malloc_initialize sys s =
     (case request_memory sys PAGE_SIZE s of
        (None, s) \<Rightarrow> (- 1, s\<lparr>chunks := []\<rparr>)
      | (Some pc, s) \<Rightarrow> (0, s\<lparr>chunks := [pc], malloc_lock := spinlock_init\<rparr>))"

text \<open>The search for a free chunk that is large enough: the new pointer and the new list.\<close>

fun malloc_loop :: "u32 \<Rightarrow> (ptr \<times> malloc_chunk) list \<Rightarrow> (ptr \<times> (ptr \<times> malloc_chunk) list) option" where
  "malloc_loop sz [] = None"
| "malloc_loop sz ((tmp, c) # xs) =
     (if ck_free c \<and> ck_size c \<ge> sz then Some (tmp + sizeof_chunk, malloc_split_block sz tmp c @ xs)
      else case malloc_loop sz xs of None \<Rightarrow> None | Some (p, ys) \<Rightarrow> Some (p, (tmp, c) # ys))"

definition malloc :: "(u32 \<Rightarrow> 'a uheap_scheme \<Rightarrow> int) \<Rightarrow> u32 \<Rightarrow> 'a uheap_scheme \<Rightarrow> (ptr \<times> 'a uheap_scheme) option" where
  "malloc sys sz s =
     (if sz = 0 then Some (NULL, s)
      else do {
        let sz = ALIGN_UP sz 4;
        l \<leftarrow> spinlock_lock (malloc_lock s);
        case malloc_loop sz (chunks s) of
          Some (p, xs) \<Rightarrow> Some (p, s\<lparr>chunks := xs, malloc_lock := spinlock_unlock l\<rparr>)
        | None \<Rightarrow>
            case request_memory sys sz (s\<lparr>malloc_lock := spinlock_unlock l\<rparr>) of
              (None, s) \<Rightarrow> Some (NULL, s)
            | (Some (tmp, c), s) \<Rightarrow> do {
                l \<leftarrow> spinlock_lock (malloc_lock s);
                if chunks s = [] then None
                else Some (tmp + sizeof_chunk, s\<lparr>chunks := malloc_split_block sz tmp c @ chunks s, malloc_lock := spinlock_unlock l\<rparr>)
              }
      })"

text \<open>A pointer that does not belong to a chunk makes the code write to memory that is not a chunk: \<open>None\<close>.\<close>

definition ufree :: "ptr \<Rightarrow> 'a uheap_scheme \<Rightarrow> 'a uheap_scheme option" where
  "ufree p s =
     (if p = NULL then Some s
      else do {
        let tmp = p - sizeof_chunk;
        l \<leftarrow> spinlock_lock (malloc_lock s);
        _ \<leftarrow> map_of (chunks s) tmp;
        Some (s\<lparr>chunks := klist_update tmp (\<lambda>c. c\<lparr>ck_free := True\<rparr>) (chunks s), malloc_lock := spinlock_unlock l\<rparr>)
      })"

definition realloc :: "(u32 \<Rightarrow> 'a uheap_scheme \<Rightarrow> int) \<Rightarrow> ptr \<Rightarrow> u32 \<Rightarrow> 'a uheap_scheme \<Rightarrow> (ptr \<times> 'a uheap_scheme) option" where
  "realloc sys p sz s =
     (if p = NULL then malloc sys sz s
      else do {
        c \<leftarrow> map_of (chunks s) (p - sizeof_chunk);
        let copy_size = (if ck_size c < sz then ck_size c else sz);
        (new_block, s) \<leftarrow> malloc sys sz s;
        if new_block = NULL then Some (NULL, s)
        else do {
          s \<leftarrow> ufree p (s\<lparr>ubytes := snd (memcpy new_block p copy_size (ubytes s))\<rparr>);
          Some (new_block, s)
        }
      })"

section \<open>The invariant\<close>

text \<open>What a process relies on when it asks for memory.\<close>

definition maps_fresh :: "(u32 \<Rightarrow> 'a uheap_scheme \<Rightarrow> int) \<Rightarrow> bool" where
  "maps_fresh sys \<longleftrightarrow> (\<forall>n s. sys n s > 0 \<longrightarrow> 0 < n \<and> 4096 dvd sys n s \<and> sys n s + uint n < 2 ^ 32
     \<and> (\<forall>(p, c) \<in> set (chunks s). sys n s + uint n \<le> uint p \<or> uint p + 16 + uint (ck_size c) \<le> sys n s))"

text \<open>A chunk is aligned and inside of the memory; two chunks do not overlap.\<close>

fun chunk_ok :: "ptr \<times> malloc_chunk \<Rightarrow> bool" where
  "chunk_ok (p, c) \<longleftrightarrow> p \<noteq> NULL \<and> 4 dvd unat p \<and> 4 dvd unat (ck_size c) \<and> unat p + 16 + unat (ck_size c) < 2 ^ 32"

fun chunks_apart :: "ptr \<times> malloc_chunk \<Rightarrow> ptr \<times> malloc_chunk \<Rightarrow> bool" where
  "chunks_apart (p, c) (q, d) \<longleftrightarrow> unat p + 16 + unat (ck_size c) \<le> unat q \<or> unat q + 16 + unat (ck_size d) \<le> unat p"

definition uheap_inv :: "'a uheap_scheme \<Rightarrow> bool" where
  "uheap_inv s \<longleftrightarrow> \<not> malloc_lock s \<and> chunks s \<noteq> [] \<and> (\<forall>x \<in> set (chunks s). chunk_ok x) \<and> sorted_wrt chunks_apart (chunks s)"

definition ulive :: "'a uheap_scheme \<Rightarrow> ptr set" where
  "ulive s = set (map (\<lambda>(p, c). p + sizeof_chunk) (filter (\<lambda>(p, c). \<not> ck_free c) (chunks s)))"

definition uarea :: "'a uheap_scheme \<Rightarrow> ptr \<Rightarrow> nat set" where
  "uarea s p = (case map_of (chunks s) (p - sizeof_chunk) of None \<Rightarrow> {} | Some c \<Rightarrow> {unat p ..< unat p + unat (ck_size c)})"

lemma unat_and_not_mask: "unat ((w :: 'a::len word) AND NOT (mask n)) = unat w - unat w mod 2 ^ n"
proof -
  have "w AND NOT (mask n) = push_bit n (drop_bit n w)" by (rule bit_word_eqI) (auto simp: bit_simps)
  then have "w AND NOT (mask n) = w - take_bit n w" using bits_ident [of n w] by (simp add: eq_diff_eq)
  moreover have "take_bit n w \<le> w" by (simp add: word_le_nat_alt unsigned_take_bit_eq take_bit_nat_less_eq_self)
  moreover have "unat (take_bit n w) = unat w mod 2 ^ n" unfolding unsigned_take_bit_eq by (rule take_bit_eq_mod)
  ultimately show ?thesis by (simp only: unat_sub)
qed

text \<open>Rounding up, as long as it does not wrap around.\<close>

lemma ALIGN_UP_4:
  assumes "unat x + 3 < 2 ^ 32"
  shows "4 dvd unat (ALIGN_UP x 4)" "unat x \<le> unat (ALIGN_UP x 4)" "unat (ALIGN_UP x 4) < unat x + 4"
proof -
  have "ALIGN_UP x 4 = (x + 3) AND NOT (mask 2)" by (simp add: ALIGN_UP_def mask_eq_exp_minus_1 add.commute)
  moreover have "unat (x + 3) = unat x + 3" using assms by (simp add: unat_word_ariths)
  ultimately have "unat (ALIGN_UP x 4) = unat x + 3 - (unat x + 3) mod 4" by (simp add: unat_and_not_mask)
  then show "4 dvd unat (ALIGN_UP x 4)" "unat x \<le> unat (ALIGN_UP x 4)" "unat (ALIGN_UP x 4) < unat x + 4"
    using mod_less_divisor [of 4 "unat x + 3"] by (simp_all add: dvd_minus_mod)
qed

lemma ALIGN_UP_page:
  assumes "unat x + 4095 < 2 ^ 32"
  shows "4096 dvd unat (ALIGN_UP x PAGE_SIZE)" "unat x \<le> unat (ALIGN_UP x PAGE_SIZE)"
proof -
  have "ALIGN_UP x PAGE_SIZE = (x + 4095) AND NOT (mask 12)" by (simp add: ALIGN_UP_def mask_eq_exp_minus_1 PAGE_SIZE_def add.commute)
  moreover have "unat (x + 4095) = unat x + 4095" using assms by (simp add: unat_word_ariths)
  ultimately have "unat (ALIGN_UP x PAGE_SIZE) = unat x + 4095 - (unat x + 4095) mod 4096" by (simp add: unat_and_not_mask)
  then show "4096 dvd unat (ALIGN_UP x PAGE_SIZE)" "unat x \<le> unat (ALIGN_UP x PAGE_SIZE)"
    using mod_less_divisor [of 4096 "unat x + 4095"] by (simp_all add: dvd_minus_mod)
qed

lemma malloc_loop_Some:
  "malloc_loop n xs = Some (q, ys) \<Longrightarrow>
     \<exists>us p c vs. xs = us @ (p, c) # vs \<and> ck_free c \<and> n \<le> ck_size c \<and> q = p + sizeof_chunk \<and> ys = us @ malloc_split_block n p c @ vs"
proof (induction xs arbitrary: ys)
  case (Cons x xs)
  obtain p c where x: "x = (p, c)" by fastforce
  show ?case
  proof (cases "ck_free c \<and> n \<le> ck_size c")
    case True
    with Cons.prems x show ?thesis by (intro exI [of _ "[]"]) auto
  next
    case False
    with Cons.prems x obtain zs where zs: "malloc_loop n xs = Some (q, zs)" "ys = x # zs" by (auto split: option.splits)
    from Cons.IH [OF this(1)] obtain us p' c' vs where "xs = us @ (p', c') # vs" "ck_free c'" "n \<le> ck_size c'" "q = p' + sizeof_chunk"
      "zs = us @ malloc_split_block n p' c' @ vs" by blast
    with zs(2) show ?thesis by (intro exI [of _ "x # us"]) auto
  qed
qed simp

lemma malloc_loop_None: "malloc_loop n xs = None \<longleftrightarrow> (\<forall>(p, c) \<in> set xs. ck_free c \<longrightarrow> ck_size c < n)"
  by (induction n xs rule: malloc_loop.induct) (auto split: option.splits)

lemma chunks_apart_sym: "chunks_apart x y = chunks_apart y x"
  by (cases x; cases y) auto

lemma chunk_next: "chunk_ok (p, c) \<Longrightarrow> unat (p + sizeof_chunk) = unat p + 16"
  by (simp add: sizeof_chunk_def unat_word_ariths)

text \<open>The parts of a chunk are sound, do not overlap, and stay inside of the chunk.\<close>

lemma split_block_parts:
  assumes c: "chunk_ok (p, c)" "n \<le> ck_size c" "4 dvd unat n"
  shows "\<forall>x \<in> set (malloc_split_block n p c). chunk_ok x" and "sorted_wrt chunks_apart (malloc_split_block n p c)"
    and "chunks_apart (p, c) y \<Longrightarrow> \<forall>x \<in> set (malloc_split_block n p c). chunks_apart x y"
    and "\<exists>d. (p, d) \<in> set (malloc_split_block n p c) \<and> \<not> ck_free d \<and> n \<le> ck_size d"
proof -
  have n: "unat n \<le> unat (ck_size c)" using c(2) by (simp add: word_le_nat_alt)
  have p: "unat p + 16 + unat (ck_size c) < 2 ^ 32" "4 dvd unat p" "4 dvd unat (ck_size c)" "0 < unat p" using c(1) by (simp_all add: unat_gt_0)
  then have "unat (ck_size c) + 20 < 2 ^ 32" using dvd_imp_le [OF p(2) p(4)] by linarith
  then have "unat (n + 20) = unat n + 20" using n by (simp add: unat_word_ariths)
  moreover have "n + sizeof_chunk + MALLOC_WASTE_THRESHOLD = n + 20" by (simp add: sizeof_chunk_def MALLOC_WASTE_THRESHOLD_def)
  ultimately have w: "n + sizeof_chunk + MALLOC_WASTE_THRESHOLD \<le> ck_size c \<longleftrightarrow> unat n + 20 \<le> unat (ck_size c)"
    by (simp only: word_le_nat_alt)
  have a: "unat (p + sizeof_chunk + n) = unat p + 16 + unat n" "unat (ck_size c - n - sizeof_chunk) = unat (ck_size c) - unat n - 16"
    if "unat n + 20 \<le> unat (ck_size c)"
    using that p n by (simp_all add: sizeof_chunk_def unat_word_ariths unat_sub word_le_nat_alt)
  have z: "p + sizeof_chunk + n \<noteq> NULL" if "unat n + 20 \<le> unat (ck_size c)" using a(1) [OF that] p(4) by auto
  have d: "4 dvd unat p + 16 + unat n" "4 dvd unat (ck_size c) - unat n - 16" using p(2, 3) c(3) by (auto intro!: dvd_diff_nat)
  show "\<forall>x \<in> set (malloc_split_block n p c). chunk_ok x" using c z a d p n by (auto simp: malloc_split_block_def w)
  show "sorted_wrt chunks_apart (malloc_split_block n p c)" using a by (auto simp: malloc_split_block_def w)
  show "\<forall>x \<in> set (malloc_split_block n p c). chunks_apart x y" if "chunks_apart (p, c) y"
    using that a p n by (cases y) (auto simp: malloc_split_block_def w)
  show "\<exists>d. (p, d) \<in> set (malloc_split_block n p c) \<and> \<not> ck_free d \<and> n \<le> ck_size d" using c(2) by (auto simp: malloc_split_block_def)
qed

lemma sorted_wrt_sym_iff:
  "sorted_wrt chunks_apart (us @ ys @ vs) \<longleftrightarrow> sorted_wrt chunks_apart (us @ vs) \<and> sorted_wrt chunks_apart ys \<and> (\<forall>y \<in> set ys. \<forall>x \<in> set (us @ vs). chunks_apart y x)"
  unfolding sorted_wrt_append set_append using chunks_apart_sym by blast

lemma chunks_distinct: "sorted_wrt chunks_apart xs \<Longrightarrow> distinct (map fst xs)"
proof (induction xs)
  case (Cons x xs)
  have "fst y \<noteq> fst x" if "y \<in> set xs" for y
    using Cons.prems that by (cases x; cases y) auto
  with Cons show ?case by fastforce
qed simp

lemma uarea_chunk:
  assumes "uheap_inv s" "(p, c) \<in> set (chunks s)"
  shows "uarea s (p + sizeof_chunk) = {unat p + 16 ..< unat p + 16 + unat (ck_size c)}"
proof -
  have "map_of (chunks s) p = Some c" using assms chunks_distinct [of "chunks s"] by (simp add: uheap_inv_def)
  moreover have "chunk_ok (p, c)" using assms by (auto simp: uheap_inv_def)
  ultimately show ?thesis using chunk_next [of p c] by (simp add: uarea_def)
qed

lemma sorted_apart: "sorted_wrt chunks_apart xs \<Longrightarrow> x \<in> set xs \<Longrightarrow> y \<in> set xs \<Longrightarrow> x \<noteq> y \<Longrightarrow> chunks_apart x y"
proof (induction xs)
  case (Cons z xs)
  then show ?case using chunks_apart_sym by (cases "x = z"; cases "y = z") simp_all
qed simp

lemma uarea_disjoint:
  assumes inv: "uheap_inv s" and "(p, c) \<in> set (chunks s)" "(q, d) \<in> set (chunks s)" "p \<noteq> q"
  shows "uarea s (p + sizeof_chunk) \<inter> uarea s (q + sizeof_chunk) = {}"
proof -
  have "chunks_apart (p, c) (q, d)"
    using inv assms(2-4) sorted_apart [of "chunks s" "(p, c)" "(q, d)"] by (simp add: uheap_inv_def)
  with uarea_chunk [OF inv assms(2)] uarea_chunk [OF inv assms(3)] show ?thesis by auto
qed

lemma uliveE:
  assumes "p \<in> ulive s"
  obtains q c where "(q, c) \<in> set (chunks s)" "\<not> ck_free c" "p = q + sizeof_chunk"
  using assms by (auto simp: ulive_def)

text \<open>Taking a free chunk.\<close>

lemma take_chunk:
  assumes inv: "uheap_inv s" and s: "chunks s = us @ (p, c) # vs" and c: "ck_free c" "n \<le> ck_size c" "4 dvd unat n"
    and s': "chunks s' = us @ malloc_split_block n p c @ vs" "malloc_lock s' = malloc_lock s"
  shows "uheap_inv s'" and "p + sizeof_chunk \<notin> ulive s" and "ulive s' = insert (p + sizeof_chunk) (ulive s)" and "p + sizeof_chunk \<noteq> NULL"
    and "4 dvd unat (p + sizeof_chunk)" and "\<forall>q \<in> ulive s. uarea s' q = uarea s q \<and> uarea s' q \<inter> uarea s' (p + sizeof_chunk) = {}"
    and "unat n \<le> card (uarea s' (p + sizeof_chunk))"
proof -
  have ok: "chunk_ok (p, c)" using inv by (simp add: uheap_inv_def s)
  note parts = split_block_parts [OF ok c(2, 3)] and next_p = chunk_next [OF ok]
  have sorted: "sorted_wrt chunks_apart (us @ [(p, c)] @ vs)" using inv by (simp add: uheap_inv_def s)
  then have out: "\<forall>x \<in> set (us @ vs). chunks_apart (p, c) x" unfolding sorted_wrt_sym_iff by simp
  then have "sorted_wrt chunks_apart (us @ malloc_split_block n p c @ vs)" using sorted parts(2, 3) unfolding sorted_wrt_sym_iff by blast
  moreover have "malloc_split_block n p c \<noteq> []" by (simp add: malloc_split_block_def)
  ultimately show inv': "uheap_inv s'" using inv parts(1) s s' by (auto simp: uheap_inv_def)
  have notin: "p \<notin> fst ` set (us @ vs)" using chunks_distinct [OF sorted] by auto
  then show new: "p + sizeof_chunk \<notin> ulive s" using c(1) by (force simp: ulive_def s)
  show "ulive s' = insert (p + sizeof_chunk) (ulive s)" using c(1) by (auto simp: ulive_def s s' malloc_split_block_def)
  show "p + sizeof_chunk \<noteq> NULL" using next_p by auto
  show "4 dvd unat (p + sizeof_chunk)" using next_p ok by simp
  obtain d where d: "(p, d) \<in> set (chunks s')" "n \<le> ck_size d" using parts(4) s' by auto
  then show "unat n \<le> card (uarea s' (p + sizeof_chunk))" using uarea_chunk [OF inv' d(1)] by (simp add: word_le_nat_alt)
  show "\<forall>q \<in> ulive s. uarea s' q = uarea s q \<and> uarea s' q \<inter> uarea s' (p + sizeof_chunk) = {}"
  proof
    fix q assume "q \<in> ulive s"
    then obtain x e where x: "(x, e) \<in> set (chunks s)" "\<not> ck_free e" "q = x + sizeof_chunk" by (rule uliveE)
    then have "(x, e) \<in> set (us @ vs)" using s c(1) by auto
    then have "(x, e) \<in> set (chunks s')" "x \<noteq> p" using s' notin by force+
    then show "uarea s' q = uarea s q \<and> uarea s' q \<inter> uarea s' (p + sizeof_chunk) = {}"
      using uarea_chunk [OF inv] uarea_chunk [OF inv'] uarea_disjoint [OF inv' _ d(1)] x by metis
  qed
qed

section \<open>Correctness\<close>

text \<open>Memory from the system is a free chunk that is large enough and overlaps with no other.\<close>

lemma request_memory_fresh:
  assumes sys: "maps_fresh sys" and n: "unat n + 4111 < 2 ^ 32" "4 dvd unat n" and r: "request_memory sys n s = (Some (p, c), s')"
  shows "chunk_ok (p, c)" "\<forall>x \<in> set (chunks s). chunks_apart (p, c) x" "ck_free c" "n \<le> ck_size c" "s' = s\<lparr>calls := calls s + 1\<rparr>"
proof -
  let ?sz = "ALIGN_UP (n + sizeof_chunk) PAGE_SIZE"
  have n16: "unat (n + sizeof_chunk) = unat n + 16" using n(1) by (simp add: sizeof_chunk_def unat_word_ariths)
  have sz: "4096 dvd unat ?sz" "unat n + 16 \<le> unat ?sz" using ALIGN_UP_page [of "n + sizeof_chunk"] n(1) n16 by simp_all
  from r have p: "p = word_of_int (sys ?sz s)" "p \<noteq> NULL" "0 \<le> sys ?sz s" and c: "c = \<lparr>ck_size = ?sz - sizeof_chunk, ck_free = True\<rparr>" and s': "s' = s\<lparr>calls := calls s + 1\<rparr>"
    by (auto simp: request_memory_def mmap_def Let_def split: if_splits)
  then have pos: "0 < sys ?sz s" by (cases "sys ?sz s = 0") auto
  with sys have f: "4096 dvd sys ?sz s" "sys ?sz s + uint ?sz < 2 ^ 32"
    "\<forall>(q, d) \<in> set (chunks s). sys ?sz s + uint ?sz \<le> uint q \<or> uint q + 16 + uint (ck_size d) \<le> sys ?sz s"
    unfolding maps_fresh_def by blast+
  moreover have "0 \<le> uint ?sz" by (rule uint_ge_0)
  ultimately have "sys ?sz s < 2 ^ 32" by linarith
  then have "uint p = sys ?sz s" using pos by (simp add: p(1) uint_word_of_int)
  then have up: "sys ?sz s = int (unat p)" by (simp only: uint_nat)
  have usz: "uint ?sz = int (unat ?sz)" by (rule uint_nat)
  have size: "unat (ck_size c) = unat ?sz - 16" using sz(2) by (simp add: c sizeof_chunk_def unat_sub word_le_nat_alt)
  have "4096 dvd unat p" using f(1) unfolding up by (metis int_dvd_int_iff of_nat_numeral)
  then have "4 dvd unat ?sz" "4 dvd unat p" using sz(1) by (auto intro: dvd_trans [of 4 4096])
  moreover have "int (unat p + unat ?sz) < int (2 ^ 32)" using f(2) unfolding up usz by simp
  then have "unat p + unat ?sz < 2 ^ 32" unfolding of_nat_less_iff .
  moreover have "4 dvd unat ?sz - 16" using calculation(1) by (auto intro: dvd_diff_nat)
  ultimately show "chunk_ok (p, c)" using p(2) sz(2) unfolding chunk_ok.simps size by auto
  show "\<forall>x \<in> set (chunks s). chunks_apart (p, c) x"
  proof
    fix x assume x: "x \<in> set (chunks s)"
    obtain q d where qd: "x = (q, d)" by fastforce
    with f(3) x have "int (unat p) + int (unat ?sz) \<le> int (unat q) \<or> int (unat q) + 16 + int (unat (ck_size d)) \<le> int (unat p)"
      unfolding up usz uint_nat by blast
    with size sz(2) show "chunks_apart (p, c) x" unfolding qd chunks_apart.simps by linarith
  qed
  show "ck_free c" "n \<le> ck_size c" using size sz(2) by (simp_all add: c word_le_nat_alt)
  show "s' = s\<lparr>calls := calls s + 1\<rparr>" by (rule s')
qed

lemma malloc_eq:
  assumes "\<not> malloc_lock s" "n \<noteq> 0"
  shows "malloc sys n s = (case malloc_loop (ALIGN_UP n 4) (chunks s) of
       Some (p, xs) \<Rightarrow> Some (p, s\<lparr>chunks := xs\<rparr>)
     | None \<Rightarrow> (case request_memory sys (ALIGN_UP n 4) s of
           (None, s) \<Rightarrow> Some (NULL, s)
         | (Some (tmp, c), s) \<Rightarrow> if chunks s = [] then None else Some (tmp + sizeof_chunk, s\<lparr>chunks := malloc_split_block (ALIGN_UP n 4) tmp c @ chunks s\<rparr>)))"
proof -
  obtain b ch l k m where s: "s = \<lparr>ubytes = b, chunks = ch, malloc_lock = l, calls = k, \<dots> = m\<rparr>" by (cases s)
  show ?thesis using assms unfolding s malloc_def Let_def
    by (auto simp: spinlock_defs request_memory_def mmap_def Let_def split: option.splits)
qed

text \<open>The three outcomes of an allocation: no memory, a chunk of the list, a chunk of new memory in front of the list.\<close>

lemma malloc_cases:
  assumes inv: "uheap_inv s" and sys: "maps_fresh sys" and n: "n \<noteq> 0" "unat n \<le> 2 ^ 32 - 8192"
  obtains (none) "malloc sys n s = Some (NULL, s\<lparr>calls := calls s + 1\<rparr>)" "\<forall>(q, c) \<in> set (chunks s). ck_free c \<longrightarrow> ck_size c < ALIGN_UP n 4"
  | (some) s0 us p c vs where "malloc sys n s = Some (p + sizeof_chunk, s0\<lparr>chunks := us @ malloc_split_block (ALIGN_UP n 4) p c @ vs\<rparr>)"
      "uheap_inv s0" "chunks s0 = us @ (p, c) # vs" "ck_free c" "ALIGN_UP n 4 \<le> ck_size c" "ulive s0 = ulive s" "ubytes s0 = ubytes s"
      "\<forall>q \<in> ulive s. uarea s0 q = uarea s q"
proof -
  let ?n = "ALIGN_UP n 4"
  have lock: "\<not> malloc_lock s" "chunks s \<noteq> []" using inv by (simp_all add: uheap_inv_def)
  have a: "4 dvd unat ?n" "unat ?n + 4111 < 2 ^ 32" using ALIGN_UP_4 [of n] n(2) by simp_all
  show thesis
  proof (cases "malloc_loop ?n (chunks s)")
    case (Some q)
    then obtain p c us vs where x: "chunks s = us @ (p, c) # vs" "ck_free c" "?n \<le> ck_size c" "q = (p + sizeof_chunk, us @ malloc_split_block ?n p c @ vs)"
      using malloc_loop_Some [of ?n "chunks s"] by (cases q) blast
    with Some n(1) lock inv show thesis
      by (intro some [where p = p and ?s0.0 = s and us = us and c = c and vs = vs]) (simp_all add: malloc_eq)
  next
    case None
    note small = None [unfolded malloc_loop_None]
    show thesis
    proof (cases "request_memory sys ?n s")
      case (Pair m s1)
      show thesis
      proof (cases m)
        case None
        then have "s1 = s\<lparr>calls := calls s + 1\<rparr>" using Pair by (auto simp: request_memory_def mmap_def Let_def split: if_splits)
        with None Pair \<open>malloc_loop ?n (chunks s) = None\<close> n(1) lock small show thesis by (intro none) (simp_all add: malloc_eq)
      next
        case (Some pc)
        then obtain p c where m: "m = Some (p, c)" by (cases pc) auto
        note f = request_memory_fresh [OF sys a(2, 1) Pair [unfolded m]]
        let ?s0 = "s\<lparr>calls := calls s + 1, chunks := (p, c) # chunks s\<rparr>"
        have inv0: "uheap_inv ?s0" using inv f by (simp add: uheap_inv_def)
        have "\<forall>q \<in> ulive s. uarea ?s0 q = uarea s q"
          using uarea_chunk [OF inv] uarea_chunk [OF inv0] by (fastforce elim!: uliveE)
        with inv0 f m Pair \<open>malloc_loop ?n (chunks s) = None\<close> n(1) lock show thesis
          by (intro some [where p = p and ?s0.0 = ?s0 and us = "[]" and c = c and vs = "chunks s"]) (simp_all add: malloc_eq ulive_def)
      qed
    qed
  qed
qed

text \<open>Releasing a pointer.\<close>

lemma ufree_inv:
  assumes inv: "uheap_inv s" and p: "p \<in> ulive s"
  shows "\<exists>s'. ufree p s = Some s' \<and> uheap_inv s' \<and> ulive s' = ulive s - {p} \<and> ubytes s' = ubytes s \<and> (\<forall>q. uarea s' q = uarea s q)"
proof -
  from p obtain q c where q: "(q, c) \<in> set (chunks s)" "\<not> ck_free c" "p = q + sizeof_chunk" by (rule uliveE)
  then obtain us vs where s: "chunks s = us @ (q, c) # vs" by (meson split_list)
  have "chunk_ok (q, c)" "sorted_wrt chunks_apart (us @ [(q, c)] @ vs)" "\<not> malloc_lock s" using inv s by (simp_all add: uheap_inv_def)
  then have ok: "p \<noteq> NULL" "p - sizeof_chunk = q" "q \<notin> fst ` set us" "q \<notin> fst ` set vs"
    using chunk_next [of q c] q(3) chunks_distinct [of "us @ [(q, c)] @ vs"] by auto
  let ?s' = "s\<lparr>chunks := us @ (q, c\<lparr>ck_free := True\<rparr>) # vs\<rparr>"
  have "s\<lparr>chunks := xs, malloc_lock := False\<rparr> = s\<lparr>chunks := xs\<rparr>" for xs using \<open>\<not> malloc_lock s\<close> by (cases s) simp
  moreover have "map_of us q = None" using ok(3) by (simp add: map_of_eq_None_iff)
  ultimately have "ufree p s = Some ?s'" using ok s \<open>\<not> malloc_lock s\<close> by (simp add: ufree_def spinlock_defs klist_update_split map_add_def)
  moreover have "uheap_inv ?s'"
    using inv s unfolding uheap_inv_def by (auto simp: sorted_wrt_append)
  moreover have "ulive ?s' = ulive s - {p}" using ok q(3) by (force simp: ulive_def s)
  moreover have "uarea ?s' x = uarea s x" for x using ok by (auto simp: uarea_def s map_of_append map_add_def split: option.splits)
  ultimately show ?thesis by (intro exI [of _ ?s']) simp
qed

text \<open>What a successful allocation gives.\<close>

lemma malloc_new:
  assumes inv: "uheap_inv s" and sys: "maps_fresh sys" and n: "unat n \<le> 2 ^ 32 - 8192" and m: "malloc sys n s = Some (p, s')" "p \<noteq> NULL"
  shows "uheap_inv s'" "ubytes s' = ubytes s" "p \<notin> ulive s" "ulive s' = insert p (ulive s)" "unat n \<le> card (uarea s' p)" "4 dvd unat p"
    "\<forall>q \<in> ulive s. uarea s' q = uarea s q" "\<forall>q \<in> ulive s. uarea s q \<inter> uarea s' p = {}"
proof -
  have "n \<noteq> 0" using m by (auto simp: malloc_def)
  from inv sys this n obtain s0 us q c vs where x: "malloc sys n s = Some (q + sizeof_chunk, s0\<lparr>chunks := us @ malloc_split_block (ALIGN_UP n 4) q c @ vs\<rparr>)"
      "uheap_inv s0" "chunks s0 = us @ (q, c) # vs" "ck_free c" "ALIGN_UP n 4 \<le> ck_size c" "ulive s0 = ulive s" "ubytes s0 = ubytes s"
      "\<forall>q \<in> ulive s. uarea s0 q = uarea s q" using m by (cases rule: malloc_cases) auto
  then have p: "p = q + sizeof_chunk" and s': "chunks s' = us @ malloc_split_block (ALIGN_UP n 4) q c @ vs" "malloc_lock s' = malloc_lock s0" "ubytes s' = ubytes s"
    using m by auto
  have a: "4 dvd unat (ALIGN_UP n 4)" "unat n \<le> unat (ALIGN_UP n 4)" using ALIGN_UP_4 [of n] n by simp_all
  note t = take_chunk [OF x(2-5) a(1) s'(1, 2), folded p, unfolded x(6)]
  show "uheap_inv s'" "ubytes s' = ubytes s" "p \<notin> ulive s" "ulive s' = insert p (ulive s)" "4 dvd unat p" using t s'(3) by simp_all
  show "unat n \<le> card (uarea s' p)" using t(7) a(2) by linarith
  show "\<forall>q \<in> ulive s. uarea s' q = uarea s q" "\<forall>q \<in> ulive s. uarea s q \<inter> uarea s' p = {}" using t(6) x(8) by metis+
qed

text \<open>
  The contract of an allocator, for the sizes that do not wrap around; no memory is no result. What the system promises is part of the invariant.
\<close>

definition ualloc :: "(u32 \<Rightarrow> 'a uheap_scheme \<Rightarrow> int) \<Rightarrow> u32 \<Rightarrow> 'a uheap_scheme \<Rightarrow> (ptr \<times> 'a uheap_scheme) option" where
  "ualloc sys n s =
     (if unat n > 2 ^ 32 - 8192 then None
      else case malloc sys n s of None \<Rightarrow> None | Some (p, s') \<Rightarrow> if p = NULL then None else Some (p, s'))"

lemma ualloc_Some: "ualloc sys n s = Some (p, s') \<longleftrightarrow> unat n \<le> 2 ^ 32 - 8192 \<and> malloc sys n s = Some (p, s') \<and> p \<noteq> NULL"
  by (auto simp: ualloc_def split: option.splits if_splits)

interpretation um: allocator "\<lambda>s. maps_fresh sys \<and> uheap_inv s" ulive "ualloc sys" ufree for sys
proof unfold_locales
  fix s s' :: "'a uheap_scheme" and n p
  show "maps_fresh sys \<and> uheap_inv s'" "p \<notin> ulive s \<and> p \<noteq> NULL" "ulive s' = insert p (ulive s)"
    if "maps_fresh sys \<and> uheap_inv s" "ualloc sys n s = Some (p, s')"
    using that malloc_new [of s sys n p s'] unfolding ualloc_Some by blast+
  show "\<exists>s'. ufree p s = Some s' \<and> (maps_fresh sys \<and> uheap_inv s') \<and> ulive s' = ulive s - {p}" if "maps_fresh sys \<and> uheap_inv s" "p \<in> ulive s"
    using that ufree_inv [of s p] by blast
  show "ufree NULL s = Some s" by (simp add: ufree_def)
qed


text \<open>A process with one free page; the system has one more free area, at 1 MiB.\<close>

definition uheap_example :: uheap where
  "uheap_example = \<lparr>ubytes = (\<lambda>_. 0), chunks = [(0x1000, \<lparr>ck_size = 0xFF0, ck_free = True\<rparr>)], malloc_lock = False, calls = 0\<rparr>"

definition sys_example :: "u32 \<Rightarrow> uheap \<Rightarrow> int" where
  "sys_example n s = (if 0 < n \<and> n \<le> 0x10000 \<and> (\<forall>(p, c) \<in> set (chunks s). uint p + 16 + uint (ck_size c) \<le> 0x100000) then 0x100000 else - ENOMEM)"

lemma sys_example_fresh: "maps_fresh sys_example"
  by (auto simp: maps_fresh_def sys_example_def word_le_def ENOMEM_def)


end
