(* ===== verification/Spec2Isabelle.thy ===== *)
theory Spec2Isabelle
  imports Kernel_Prelude KList KString KMalloc Segment Region AddressSpace Mmu Scheduler Interrupt Thread Process Channel Device Fs Devfs Fiu Vfs Syscall Boot Console Malloc
begin

text \<open>
  A model of zKernel, the kernel of zOS (\<^verbatim>\<open>kernel/\<close> and \<^verbatim>\<open>include/\<close>), and its correctness.

  \<^bold>\<open>The program.\<close> zKernel is a small kernel for i386 machines. At boot it takes the memory map of the boot loader,
  sets up its heap, its physical and virtual memory, its timers and the scheduler, and starts the processes
  that the boot loader has loaded. Drivers and file systems are processes; the kernel gives them memory,
  interrupts and channels, over which the file operations of other processes reach them.

  \<^bold>\<open>Conventions.\<close> A C integer is a word of its width or, for \<^verbatim>\<open>int\<close>, an \<open>int\<close>; an address is a 32-bit word.
  State is passed explicitly. It is one record that grows from theory to theory, each theory working on every
  extension of the part it needs: \<open>kheap\<close> (heap and bytes of the kernel's memory), \<open>ksegs\<close> (physical segments),
  \<open>kspaces\<close> (address spaces), \<open>kmmu\<close> (page tables), \<open>kproc\<close> (threads, processes, cpus, events, timers), \<open>kirq\<close> (interrupts), \<open>kfiles\<close>
  (inodes), \<open>kchan\<close> (channels), \<open>kdevs\<close> (the table of devices) and \<open>kvfs\<close> (file systems, mount points). The console, \<open>con\<close>, and the heap of a user
  process, \<open>uheap\<close>, are records of their own. Objects that C code reaches through a pointer are found in maps from addresses to
  records; requests and answers that cross a process boundary lie in the byte memory with the layout of the compiler; objects on an intrusive list are kept in the order of the list, which the theory \<open>KList\<close> relates to the
  pointers. The result \<open>None\<close> stands for a panic, for a dereference of a pointer that designates no object, and for
  waiting for a lock that is never released; every theorem that says that an operation returns says that
  its result is \<open>Some\<close>. Loops over data are structurally recursive; loops that wait or that search for a NUL byte are
  \<^verbatim>\<open>partial_function (option)\<close>; no fuel is used. What the rest of the system does while a thread is
  blocked is an argument, and so are the contents of memory that the code leaves uninitialised.

  \<^bold>\<open>Theories and sources.\<close>
  \<^item> \<open>Kernel_Prelude\<close>: \<^verbatim>\<open>types.h\<close>, \<^verbatim>\<open>errno.h\<close>, \<^verbatim>\<open>zos.h\<close>, \<^verbatim>\<open>arch/spinlock.h\<close>; shared lemmas.
  \<^item> \<open>KList\<close>: \<^verbatim>\<open>klist.h\<close> at the level of pointers. Every operation is the one on HOL lists, and the two iterations visit the
    list, also when the body deletes the element.
  \<^item> \<open>KString\<close>: \<^verbatim>\<open>core/string.c\<close>. Comparison, truncating copy and tokens, for strings that end.
  \<^item> \<open>KMalloc\<close>: \<^verbatim>\<open>core/mem/kmalloc.c\<close>. Blocks tile the heap, live areas are disjoint, free neighbours are merged, freeing
    undoes allocating. The locale \<open>allocator\<close> is its contract.
  \<^item> \<open>Segment\<close>: \<^verbatim>\<open>core/mem/segment.c\<close>. Allocation, reservation and release move exactly the requested bytes between free and used
    memory. The locale \<open>page_allocator\<close> is its contract.
  \<^item> \<open>Region\<close>: \<^verbatim>\<open>core/mem/region.c\<close>. The regions tile the range of an address space; reservation and release.
  \<^item> \<open>AddressSpace\<close>: \<^verbatim>\<open>core/mem/as.c\<close>. Mapping, unmapping, duplication and the checks of user pointers, over the table of
    functions of the architecture; the locale \<open>as_arch\<close> says what the table promises.
  \<^item> \<open>Mmu\<close>: \<^verbatim>\<open>arch/i386/mmu.c\<close> and \<^verbatim>\<open>glue/i386-pc/as.c\<close>, the interpretation of \<open>as_arch\<close>: mapped pages are fresh and backed by fresh physical
    pages, and no other translation changes.
  \<^item> \<open>Scheduler\<close>: \<^verbatim>\<open>core/scheduler\<close>, \<^verbatim>\<open>core/cpu.c\<close>, \<^verbatim>\<open>glue/i386-pc/thread.c\<close> and the end of threads and processes. The election is fair
    and runs runnable threads only, events wake their waiters, timers fire once and on time, and the context switch restores what it saved.
  \<^item> \<open>Interrupt\<close>: \<^verbatim>\<open>core/interrupt.c\<close>, \<^verbatim>\<open>arch/i386/pic.c\<close>, \<^verbatim>\<open>gdt.c\<close>, \<^verbatim>\<open>idt.c\<close>, \<^verbatim>\<open>core/syscall/interrupt.c\<close>.
  \<^item> \<open>Thread\<close>: \<^verbatim>\<open>core/proc/thread.c\<close> and the initial stacks. Thread identifiers are unique, and a new program finds its arguments
    on its stack.
  \<^item> \<open>Process\<close>: \<^verbatim>\<open>core/proc/process.c\<close>, \<^verbatim>\<open>elf.c\<close>, \<^verbatim>\<open>wait.c\<close>, \<^verbatim>\<open>kthread.c\<close>, \<^verbatim>\<open>core/fs/vfs/inode.c\<close>. File descriptors and reference
    counts.
  \<^item> \<open>Channel\<close>: \<^verbatim>\<open>core/fs/channel.c\<close>. A channel is a queue of byte strings.
  \<^item> \<open>Device\<close>: \<^verbatim>\<open>core/fs/vfs/device.c\<close>. The table of devices is a map from identifiers to names.
  \<^item> \<open>Fs\<close>, \<open>Devfs\<close>, \<open>Fiu\<close>: \<^verbatim>\<open>core/fs/vfs/fs.c\<close>, \<^verbatim>\<open>message.c\<close>, \<^verbatim>\<open>core/fs/devfs.c\<close>, \<^verbatim>\<open>core/fs/fiu.c\<close>. The registered file systems, the one of the devices
    and those that live in processes behind a channel.
  \<^item> \<open>Vfs\<close>: \<^verbatim>\<open>core/fs/ops\<close>, \<^verbatim>\<open>core/fs/vfs/mount.c\<close>. Duplicating a descriptor keeps the reference counts, and a path that enters
    the file system of the devices ends at the device with that name. The locale \<open>file_ops\<close> is what a table of file operations promises.
  \<^item> \<open>Syscall\<close>: \<^verbatim>\<open>core/syscall.c\<close>, \<^verbatim>\<open>core/syscall\<close>, \<^verbatim>\<open>core/proc/execv.c\<close>, \<^verbatim>\<open>arch/i386/page_fault.c\<close>: the table of system calls, replacing a
    program and page faults, as definitions over the parts above.
  \<^item> \<open>Boot\<close>: \<^verbatim>\<open>arch/i386/mp.c\<close>, \<^verbatim>\<open>core/module.c\<close>, \<^verbatim>\<open>core/cpu.c\<close>, \<^verbatim>\<open>core/main.c\<close>: \<^verbatim>\<open>kernel_main\<close> composes the initialisations of all parts.
  \<^item> \<open>Console\<close>: \<^verbatim>\<open>core/console.c\<close>, \<^verbatim>\<open>arch/i386/vga_text.c\<close>, \<^verbatim>\<open>serial.c\<close>. The screen shows the last lines of everything written.
  \<^item> \<open>Malloc\<close>: \<^verbatim>\<open>userland/lib/libc/src/stdlib/malloc.c\<close>. The heap of a user process gives fresh and disjoint areas; it is the second
    interpretation of \<open>allocator\<close>.

  \<^bold>\<open>Not modelled.\<close> Assembly stubs and port access beyond the values the C code computes; stale entries of the
  TLB; several processors running at once (the code starts one cpu); what system calls print. Of the user programs only the heap is modelled: the
  drivers, the ext2 file system and the programs are processes that the kernel reaches through channels, whose answers are arbitrary
  here. The boot loader runs before the model starts, and the tools under \<^verbatim>\<open>scripts/\<close> belong to the build.
\<close>

end
